(* ===== verification/Prelude.thy ===== *)
theory Prelude
  imports Main "HOL-Library.Word" "HOL-Library.Multiset" "HOL-Library.Signed_Division"
begin

text \<open>
  Shared foundations of the development: the collections of simplification facts the
  component theories fill, Go's 64-bit signed arithmetic on \<^typ>\<open>int\<close> with its
  wrap-around written out, decimal printing of integers (the \<open>%d\<close> verb of \<open>fmt\<close> and
  \<open>strconv.FormatInt\<close>), fixed-size chunking of slices, reachability for step relations,
  and the two interfaces that several components implement: a chunked slice and an
  invariant of a step system.
\<close>

named_theorems go_arith \<open>facts that move wrapped 64-bit arithmetic to plain integers\<close>
named_theorems state_simps \<open>equations of the state records' operations\<close>

section \<open>Signed 64-bit integers\<close>

text \<open>
  Go's \<open>int\<close> and \<open>int64\<close> are 64 bits wide on the supported platforms. A value is an
  \<^typ>\<open>int\<close>; \<open>wrap64\<close> is what storing an out-of-range result leaves, and division
  and remainder truncate towards zero (\<open>sdiv\<close>, \<open>smod\<close> of the library).
\<close>

definition wrap64 :: "int \<Rightarrow> int" where
  "wrap64 x = (x + 2 ^ 63) mod 2 ^ 64 - 2 ^ 63"

definition in_i64 :: "int \<Rightarrow> bool" where
  "in_i64 x \<longleftrightarrow> - (2 ^ 63) \<le> x \<and> x < 2 ^ 63"

lemma wrap64_id [go_arith]: "in_i64 x \<Longrightarrow> wrap64 x = x"
  by (simp add: wrap64_def in_i64_def)

lemma in_i64_wrap64 [simp]: "in_i64 (wrap64 x)"
  by (simp add: wrap64_def in_i64_def)

lemma wrap64_signed_word: "wrap64 x = sint (word_of_int x :: 64 word)"
  by (simp add: wrap64_def sint_uint uint_word_of_int signed_take_bit_eq_take_bit_shift
      take_bit_eq_mod signed_take_bit_take_bit mod_simps)

lemma sdiv_nonneg [go_arith]: "0 \<le> (a::int) \<Longrightarrow> 0 < b \<Longrightarrow> a sdiv b = a div b"
  by (simp add: signed_divide_int_def sgn_if)

lemma smod_nonneg [go_arith]: "0 \<le> (a::int) \<Longrightarrow> 0 < b \<Longrightarrow> a smod b = a mod b"
  by (simp add: signed_modulo_int_def signed_divide_int_def sgn_if minus_div_mult_eq_mod)

lemma sdiv_neg [go_arith]: "(a::int) < 0 \<Longrightarrow> 0 < b \<Longrightarrow> a sdiv b = - (- a div b)"
  by (simp add: signed_divide_int_def sgn_if)

lemma int_div_le: "0 \<le> (a::int) \<Longrightarrow> 0 < b \<Longrightarrow> 0 \<le> a div b \<and> a div b \<le> a"
  using zdiv_mono2 [of a 1 b] by (simp add: pos_imp_zdiv_nonneg_iff)

section \<open>Decimal printing\<close>

definition digit_char :: "nat \<Rightarrow> char" where
  "digit_char d = char_of (48 + d)"

fun show_nat :: "nat \<Rightarrow> string" where
  "show_nat n = (if n < 10 then [digit_char n] else show_nat (n div 10) @ [digit_char (n mod 10)])"

declare show_nat.simps [simp del]

definition show_int :: "int \<Rightarrow> string" where
  "show_int i = (if i < 0 then CHR ''-'' # show_nat (nat (- i)) else show_nat (nat i))"

fun read_nat :: "nat \<Rightarrow> string \<Rightarrow> nat option" where
  "read_nat acc [] = Some acc"
| "read_nat acc (c # cs) =
     (if 48 \<le> (of_char c :: nat) \<and> (of_char c :: nat) < 58
      then read_nat (10 * acc + (of_char c - 48)) cs else None)"

definition read_int :: "string \<Rightarrow> int option" where
  "read_int s = (case s of [] \<Rightarrow> None
     | c # cs \<Rightarrow> if c = CHR ''-''
         then (if cs = [] then None else map_option (\<lambda>n. - int n) (read_nat 0 cs))
         else map_option int (read_nat 0 s))"

lemma of_char_digit_char [simp]: "d < 10 \<Longrightarrow> (of_char (digit_char d) :: nat) = 48 + d"
  by (simp add: digit_char_def)

lemma read_nat_append:
  "read_nat acc (xs @ ys) = Option.bind (read_nat acc xs) (\<lambda>n. read_nat n ys)"
  by (induction acc xs rule: read_nat.induct) auto

lemma show_nat_not_Nil [simp]: "show_nat n \<noteq> []"
  by (subst show_nat.simps) simp

lemma read_show_nat: "read_nat 0 (show_nat n) = Some n"
proof (induction n rule: show_nat.induct)
  case (1 n)
  show ?case
  proof (cases "n < 10")
    case True
    then show ?thesis by (subst show_nat.simps) simp
  next
    case False
    with "1.IH" show ?thesis
      by (subst show_nat.simps) (simp add: read_nat_append)
  qed
qed

lemma digit_char_not_minus: "d < 10 \<Longrightarrow> digit_char d \<noteq> CHR ''-''"
  using of_char_digit_char [of d] by (auto simp del: of_char_digit_char)

lemma hd_show_nat_not_minus: "hd (show_nat n) \<noteq> CHR ''-''"
proof (induction n rule: show_nat.induct)
  case (1 n)
  then show ?case
    by (cases "n < 10") (auto simp: show_nat.simps [of n] digit_char_not_minus)
qed

lemma read_show_int: "read_int (show_int i) = Some i"
proof (cases "i < 0")
  case True
  then show ?thesis by (simp add: show_int_def read_int_def read_show_nat)
next
  case False
  obtain c cs where s: "show_nat (nat i) = c # cs" by (cases "show_nat (nat i)") auto
  with hd_show_nat_not_minus [of "nat i"] have "c \<noteq> CHR ''-''" by simp
  with False s show ?thesis
    using read_show_nat [of "nat i"] by (simp add: show_int_def read_int_def)
qed

lemma show_int_inject [simp]: "show_int i = show_int j \<longleftrightarrow> i = j"
  by (metis option.inject read_show_int)

section \<open>Slices\<close>

text \<open>\<open>slice xs i j\<close> is Go's \<open>xs[i:j]\<close> for \<open>i \<le> j \<le> len(xs)\<close>.\<close>

definition slice :: "'a list \<Rightarrow> nat \<Rightarrow> nat \<Rightarrow> 'a list" where
  "slice xs i j = take (j - i) (drop i xs)"

lemma length_slice [simp]: "j \<le> length xs \<Longrightarrow> length (slice xs i j) = j - i"
  by (simp add: slice_def)

lemma slice_not_Nil [simp]: "i < j \<Longrightarrow> i < length xs \<Longrightarrow> slice xs i j \<noteq> []"
  by (simp add: slice_def)

lemma slice_append_drop: "i \<le> j \<Longrightarrow> j \<le> length xs \<Longrightarrow> slice xs i j @ drop j xs = drop i xs"
  by (simp add: slice_def) (metis append_take_drop_id drop_drop le_add_diff_inverse2)

lemma slice_Suc_append:
  "i \<le> j \<Longrightarrow> j < length xs \<Longrightarrow> slice xs i (Suc j) = slice xs i j @ [xs ! j]"
  by (simp add: slice_def Suc_diff_le take_Suc_conv_app_nth)

text \<open>
  The contract of a routine that cuts a slice into batches of a given size. Both the load
  workflow and the load worker cut their input this way; what a caller needs of it is
  proved once here.
\<close>

locale chunked =
  fixes chunks :: "int \<Rightarrow> 'a list \<Rightarrow> 'a list list" and valid :: "int \<Rightarrow> bool"
    and size_of :: "int \<Rightarrow> nat"
  assumes concat_chunks: "valid n \<Longrightarrow> concat (chunks n xs) = xs"
    and chunk_size: "valid n \<Longrightarrow> b \<in> set (chunks n xs) \<Longrightarrow> 0 < length b \<and> length b \<le> size_of n"
begin

lemma chunk_lengths_sum: "valid n \<Longrightarrow> sum_list (map length (chunks n xs)) = length xs"
  by (metis concat_chunks length_concat)

lemma chunk_members: "valid n \<Longrightarrow> b \<in> set (chunks n xs) \<Longrightarrow> set b \<subseteq> set xs"
  by (metis concat_chunks Union_upper image_eqI set_concat)

lemma chunk_count: "valid n \<Longrightarrow> length (chunks n xs) \<le> length xs"
proof -
  assume v: "valid n"
  have "1 \<le> length b" if "b \<in> set (chunks n xs)" for b
    using chunk_size [OF v that] by linarith
  then have "sum_list (map (\<lambda>_. 1) (chunks n xs)) \<le> sum_list (map length (chunks n xs))"
    by (intro sum_list_mono) simp
  then show ?thesis by (simp add: chunk_lengths_sum [OF v] sum_list_triv)
qed

lemma chunk_accounting:
  fixes f g :: "'a list \<Rightarrow> nat"
  assumes "valid n" and "\<And>b. b \<in> set (chunks n xs) \<Longrightarrow> f b + g b = length b"
  shows "sum_list (map f (chunks n xs)) + sum_list (map g (chunks n xs)) = length xs"
proof -
  have "sum_list (map f (chunks n xs)) + sum_list (map g (chunks n xs))
      = sum_list (map (\<lambda>b. f b + g b) (chunks n xs))"
    by (rule sum_list_addf [symmetric])
  also have "\<dots> = sum_list (map length (chunks n xs))"
    using assms(2) by (metis (mono_tags, lifting) map_eq_conv)
  finally show ?thesis by (simp add: chunk_lengths_sum assms(1))
qed

end

section \<open>Tilings of an integer interval\<close>

text \<open>
  A list of half-open intervals that follow one another without gap or overlap from \<open>a\<close>
  to \<open>b\<close>. Every partitioner of the extraction phase promises one.
\<close>

fun tiles :: "int \<Rightarrow> (int \<times> int) list \<Rightarrow> int \<Rightarrow> bool" where
  "tiles a [] b \<longleftrightarrow> a = b"
| "tiles a ((s, e) # rest) b \<longleftrightarrow> s = a \<and> s \<le> e \<and> tiles e rest b"

definition in_piece :: "int \<Rightarrow> int \<times> int \<Rightarrow> bool" where
  "in_piece x p \<longleftrightarrow> fst p \<le> x \<and> x < snd p"

lemma tiles_le: "tiles a ps b \<Longrightarrow> a \<le> b"
  by (induction a ps b rule: tiles.induct) auto

lemma tiles_append: "tiles a (ps @ qs) b \<longleftrightarrow> (\<exists>m. tiles a ps m \<and> tiles m qs b)"
  by (induction a ps b rule: tiles.induct) auto

lemma tiles_bounds: "tiles a ps b \<Longrightarrow> p \<in> set ps \<Longrightarrow> a \<le> fst p \<and> fst p \<le> snd p \<and> snd p \<le> b"
  by (induction a ps b rule: tiles.induct) (auto dest: tiles_le)

lemma tiles_filter:
  "tiles a ps b \<Longrightarrow> length (filter (in_piece x) ps) = (if a \<le> x \<and> x < b then 1 else 0)"
proof (induction a ps b rule: tiles.induct)
  case (2 a s e rest b)
  then show ?case using tiles_le [of e rest b] by (auto simp: in_piece_def)
qed (auto simp: in_piece_def)

lemma tiles_sizes: "tiles a ps b \<Longrightarrow> sum_list (map (\<lambda>(s, e). e - s) ps) = b - a"
  by (induction a ps b rule: tiles.induct) auto

lemma tiles_upto: "tiles a ps b \<Longrightarrow> concat (map (\<lambda>(s, e). [s..e - 1]) ps) = [a..b - 1]"
proof (induction a ps b rule: tiles.induct)
  case (2 a s e rest b)
  then have "[a..e - 1] @ [e..b - 1] = [a..b - 1]"
    using tiles_le [of e rest b] upto_split2 [of a "e - 1" "b - 1"] by (cases "a < e") auto
  with 2 show ?case by simp
qed simp

lemma tiles_hd: "tiles a ps b \<Longrightarrow> ps \<noteq> [] \<Longrightarrow> fst (hd ps) = a"
  by (cases ps) auto

lemma tiles_last: "tiles a ps b \<Longrightarrow> ps \<noteq> [] \<Longrightarrow> snd (last ps) = b"
  by (induction a ps b rule: tiles.induct) auto

lemma tiles_next: "tiles a ps b \<Longrightarrow> Suc i < length ps \<Longrightarrow> snd (ps ! i) = fst (ps ! Suc i)"
proof (induction a ps b arbitrary: i rule: tiles.induct)
  case (2 a s e rest b)
  then show ?case using tiles_hd [of e rest b] by (cases i) (auto simp: hd_conv_nth)
qed simp

text \<open>The contract of a partitioner over a request \<open>p\<close>, and what its callers get.\<close>

locale tiling =
  fixes ok :: "'p \<Rightarrow> bool" and lo :: "'p \<Rightarrow> int" and hi :: "'p \<Rightarrow> int"
    and pieces :: "'p \<Rightarrow> (int \<times> int) list"
  assumes tiled: "ok p \<Longrightarrow> tiles (lo p) (pieces p) (hi p)"
begin

lemma exactly_once:
  "ok p \<Longrightarrow> lo p \<le> x \<Longrightarrow> x < hi p \<Longrightarrow> length (filter (in_piece x) (pieces p)) = 1"
  using tiles_filter [OF tiled] by simp

lemma nothing_outside: "ok p \<Longrightarrow> c \<in> set (pieces p) \<Longrightarrow> lo p \<le> fst c \<and> fst c \<le> snd c \<and> snd c \<le> hi p"
  using tiles_bounds [OF tiled] by blast

lemma total_size: "ok p \<Longrightarrow> sum_list (map (\<lambda>(s, e). e - s) (pieces p)) = hi p - lo p"
  by (rule tiles_sizes [OF tiled])

lemma adjacent: "ok p \<Longrightarrow> Suc i < length (pieces p) \<Longrightarrow> snd (pieces p ! i) = fst (pieces p ! Suc i)"
  by (rule tiles_next [OF tiled])

lemma ends: "ok p \<Longrightarrow> pieces p \<noteq> [] \<Longrightarrow> fst (hd (pieces p)) = lo p \<and> snd (last (pieces p)) = hi p"
  using tiles_hd [OF tiled] tiles_last [OF tiled] by blast

lemma enumerates: "ok p \<Longrightarrow> concat (map (\<lambda>(s, e). [s..e - 1]) (pieces p)) = [lo p..hi p - 1]"
  by (rule tiles_upto [OF tiled])

end

section \<open>Step systems\<close>

inductive reach :: "('s \<Rightarrow> bool) \<Rightarrow> ('s \<Rightarrow> 's \<Rightarrow> bool) \<Rightarrow> 's \<Rightarrow> bool"
  for init step where
  reach_init: "init s \<Longrightarrow> reach init step s"
| reach_step: "reach init step s \<Longrightarrow> step s t \<Longrightarrow> reach init step t"

text \<open>An inductive invariant of a step system; every component with interleaved steps has one.\<close>

locale step_invariant =
  fixes init :: "'s \<Rightarrow> bool" and step :: "'s \<Rightarrow> 's \<Rightarrow> bool" and inv :: "'s \<Rightarrow> bool"
  assumes init_inv: "init s \<Longrightarrow> inv s"
    and step_inv: "inv s \<Longrightarrow> step s t \<Longrightarrow> inv t"
begin

lemma reach_inv: "reach init step s \<Longrightarrow> inv s"
  by (induction rule: reach.induct) (auto intro: init_inv step_inv)

lemma steps_inv: "step\<^sup>*\<^sup>* s t \<Longrightarrow> inv s \<Longrightarrow> inv t"
  by (induction rule: rtranclp_induct) (auto intro: step_inv)

end

end
