(* ===== verification/Errors.thy ===== *)
theory Errors
  imports Prelude
begin

text \<open>
  The error values of \<open>internal/common/errors.go\<close>: the sentinels, the wrappers with their
  \<open>Unwrap\<close> methods, and the errors built by \<open>errors.New\<close>, \<open>fmt.Errorf\<close> (with and without
  \<open>%w\<close>), \<open>errors.Join\<close> and the context package. A fallible Go function returns
  \<open>'a result\<close>: \<open>Inl\<close> its error or \<open>Inr\<close> its value.
\<close>

datatype sentinel =
    ErrNotFound | ErrAlreadyExists | ErrUnauthorized | ErrForbidden | ErrRateLimited
  | ErrInvalidConfig | ErrConnectionFailed | ErrSchemaValidation | ErrTimeout | ErrCancelled

fun sentinel_text :: "sentinel \<Rightarrow> string" where
  "sentinel_text ErrNotFound = ''not found''"
| "sentinel_text ErrAlreadyExists = ''already exists''"
| "sentinel_text ErrUnauthorized = ''unauthorized''"
| "sentinel_text ErrForbidden = ''forbidden''"
| "sentinel_text ErrRateLimited = ''rate limited''"
| "sentinel_text ErrInvalidConfig = ''invalid configuration''"
| "sentinel_text ErrConnectionFailed = ''connection failed''"
| "sentinel_text ErrSchemaValidation = ''schema validation failed''"
| "sentinel_text ErrTimeout = ''operation timed out''"
| "sentinel_text ErrCancelled = ''operation cancelled''"

datatype go_error =
    Sentinel sentinel
  | NewError string                        \<comment> \<open>errors.New, fmt.Errorf without a wrapped error\<close>
  | Wrapped string go_error                \<comment> \<open>fmt.Errorf of a prefix and one wrapped error\<close>
  | ConnectorError string string go_error  \<comment> \<open>connector, operation, cause\<close>
  | RetryableError go_error int            \<comment> \<open>cause, seconds to wait\<close>
  | ValidationError string string          \<comment> \<open>field, message\<close>
  | TenantError string go_error            \<comment> \<open>tenant, cause\<close>
  | Joined "go_error list"                 \<comment> \<open>errors.Join\<close>
  | ContextCanceled
  | DeadlineExceeded

type_synonym 'a result = "go_error + 'a"

definition NewConnectorError :: "string \<Rightarrow> string \<Rightarrow> go_error \<Rightarrow> go_error" where
  "NewConnectorError connector op err = ConnectorError connector op err"

text \<open>The \<open>%q\<close> verb on printable ASCII, which the names of connectors and pools are.\<close>

definition quoted :: "string \<Rightarrow> string" where
  "quoted s = CHR 0x22 # concat (map (\<lambda>c. if c = CHR 0x22 \<or> c = CHR 0x5C then [CHR 0x5C, c] else [c]) s)
     @ [CHR 0x22]"

text \<open>\<open>Error()\<close>, the text of an error.\<close>

fun join_with :: "string \<Rightarrow> string list \<Rightarrow> string" where
  "join_with sep [] = []"
| "join_with sep [x] = x"
| "join_with sep (x # xs) = x @ sep @ join_with sep xs"

fun error_text :: "go_error \<Rightarrow> string" where
  "error_text (Sentinel s) = sentinel_text s"
| "error_text (NewError m) = m"
| "error_text (Wrapped p e) = p @ error_text e"
| "error_text (ConnectorError c op e) = ''connector '' @ c @ '': '' @ op @ '': '' @ error_text e"
| "error_text (RetryableError e n) = ''retryable: '' @ error_text e"
| "error_text (ValidationError f m) = ''validation error on '' @ f @ '': '' @ m"
| "error_text (TenantError t e) = ''tenant '' @ t @ '': '' @ error_text e"
| "error_text (Joined es) = join_with [CHR 0x0A] (map error_text es)"
| "error_text ContextCanceled = ''context canceled''"
| "error_text DeadlineExceeded = ''context deadline exceeded''"

text \<open>
  \<open>ValidationErrors.Error\<close>: a slice of validation failures; on the empty slice the Go code
  indexes out of range and panics, here \<open>None\<close>.
\<close>

definition validation_errors_text :: "(string \<times> string) list \<Rightarrow> string option" where
  "validation_errors_text ve = (case ve of
     [] \<Rightarrow> None
   | [(f, m)] \<Rightarrow> Some (error_text (ValidationError f m))
   | (f, m) # _ \<Rightarrow> Some (show_nat (length ve) @ '' validation errors (first: ''
        @ error_text (ValidationError f m) @ '')''))"

text \<open>\<open>Unwrap\<close>: the errors one step down the chain.\<close>

fun unwrap :: "go_error \<Rightarrow> go_error list" where
  "unwrap (Wrapped _ e) = [e]"
| "unwrap (ConnectorError _ _ e) = [e]"
| "unwrap (RetryableError e _) = [e]"
| "unwrap (TenantError _ e) = [e]"
| "unwrap (Joined es) = es"
| "unwrap _ = []"

text \<open>\<open>IsRetryable\<close> is \<open>errors.As\<close> for the type \<open>*RetryableError\<close>: a walk of the chain.\<close>

fun IsRetryable :: "go_error \<Rightarrow> bool" where
  "IsRetryable (RetryableError _ _) = True"
| "IsRetryable (Wrapped _ e) = IsRetryable e"
| "IsRetryable (ConnectorError _ _ e) = IsRetryable e"
| "IsRetryable (TenantError _ e) = IsRetryable e"
| "IsRetryable (Joined es) = list_ex IsRetryable es"
| "IsRetryable _ = False"

text \<open>\<open>errors.Is(err, sentinel)\<close>, as the callers of the services test it.\<close>

fun errors_is :: "go_error \<Rightarrow> sentinel \<Rightarrow> bool" where
  "errors_is (Sentinel s) t = (s = t)"
| "errors_is (Wrapped _ e) t = errors_is e t"
| "errors_is (ConnectorError _ _ e) t = errors_is e t"
| "errors_is (RetryableError e _) t = errors_is e t"
| "errors_is (TenantError _ e) t = errors_is e t"
| "errors_is (Joined es) t = list_ex (\<lambda>e. errors_is e t) es"
| "errors_is _ t = False"

inductive in_chain :: "go_error \<Rightarrow> go_error \<Rightarrow> bool" where
  here: "in_chain e e"
| down: "c \<in> set (unwrap e) \<Longrightarrow> in_chain x c \<Longrightarrow> in_chain x e"

lemma IsRetryable_unwrap:
  "IsRetryable e \<longleftrightarrow> (\<exists>c n. e = RetryableError c n) \<or> (\<exists>c \<in> set (unwrap e). IsRetryable c)"
  by (cases e) (auto simp: list_ex_iff)

lemma in_chain_IsRetryable: "in_chain x e \<Longrightarrow> IsRetryable x \<Longrightarrow> IsRetryable e"
proof (induction rule: in_chain.induct)
  case (down c e x)
  then show ?case using IsRetryable_unwrap [of e] by blast
qed

lemma IsRetryable_in_chain: "IsRetryable e \<Longrightarrow> \<exists>c n. in_chain (RetryableError c n) e"
proof (induction e)
  case (Joined es)
  then obtain e where e: "e \<in> set es" "IsRetryable e" by (auto simp: list_ex_iff)
  with Joined.IH obtain c n where "in_chain (RetryableError c n) e" by blast
  then have "in_chain (RetryableError c n) (Joined es)"
    using e(1) by (auto intro: in_chain.down)
  then show ?case by blast
qed (fastforce intro: in_chain.intros)+

end
