(* ===== verification/Protocol.thy ===== *)
theory Protocol
  imports Errors
begin

text \<open>
  The data of \<open>pkg/protocol/protocol.go\<close>, the message types that connectors and the
  platform exchange, and the shared types of \<open>internal/orchestration/types/types.go\<close>. A
  \<open>json.RawMessage\<close> is its bytes; a \<open>time.Time\<close> is a count of nanoseconds; a checkpoint
  state is a finite map from stream names to raw messages (a nil map and an empty one are
  not distinguished: every writer in the code replaces a nil map first).
\<close>

type_synonym raw_message = string
type_synonym time = int
type_synonym duration = int
type_synonym state_map = "string \<rightharpoonup> raw_message"

text \<open>\<open>Time.Sub\<close> saturates at the extreme durations; the zero time is the start of year 1.\<close>

definition time_sub :: "time \<Rightarrow> time \<Rightarrow> duration" where
  "time_sub t u = (if t - u > 2 ^ 63 - 1 then 2 ^ 63 - 1 else if t - u < - (2 ^ 63) then - (2 ^ 63) else t - u)"

definition zero_time :: time where
  "zero_time = - 62135596800000000000"

text \<open>The layout \<open>time.RFC3339\<close>.\<close>

definition RFC3339 :: string where
  "RFC3339 = ''2006-01-02T15:04:05Z07:00''"

datatype message_type =
    MessageTypeSpec | MessageTypeCheck | MessageTypeDiscover | MessageTypeRead
  | MessageTypeWrite | MessageTypeRecord | MessageTypeState | MessageTypeSchema
  | MessageTypeLog | MessageTypeControl | MessageTypeMCPToolCall | MessageTypeMCPToolResult
  | MessageTypeOther string

record rec =
  r_stream :: string
  r_namespace :: string
  r_data :: raw_message
  r_emitted_at :: time

datatype state_type = StateTypeStream | StateTypeGlobal | StateTypeOther string

record state_msg =
  st_type :: state_type
  st_stream :: string
  st_data :: raw_message

datatype control_type =
  ControlTypeRateLimit | ControlTypeBackpressure | ControlTypePause | ControlTypeResume
| ControlTypeOther string

record control =
  ctl_type :: control_type
  ctl_message :: string
  ctl_data :: raw_message

text \<open>
  The envelope. The payloads the extraction and load paths never look at (schema, log, spec
  and tool messages) are carried as raw text.
\<close>

record message =
  m_type :: message_type
  m_record :: "rec option"
  m_state :: "state_msg option"
  m_control :: "control option"
  m_other :: "raw_message option"

datatype sync_mode = SyncModeFullRefresh | SyncModeIncremental | SyncModeOther string

datatype dest_sync_mode =
  DestSyncModeAppend | DestSyncModeUpsert | DestSyncModeMerge | DestSyncModeSoftDelete
| DestSyncModeOther string

record stream =
  s_name :: string
  s_namespace :: string
  s_display_name :: string
  s_schema :: raw_message
  s_supported_sync_modes :: "sync_mode list"
  s_default_cursor_field :: "string list"
  s_source_defined_pk :: bool
  s_primary_key :: "string list list"

record configured_stream =
  cs_stream :: stream
  cs_sync_mode :: sync_mode
  cs_destination_sync_mode :: dest_sync_mode
  cs_cursor_field :: "string list"
  cs_primary_key :: "string list list"

record catalog =
  cat_streams :: "stream list"

datatype check_status = CheckStatusSucceeded | CheckStatusFailed | CheckStatusOther string

record check_result =
  ck_status :: check_status
  ck_message :: string

record write_error =
  we_message :: string
  we_record :: raw_message
  we_error_code :: string

record write_result =
  wr_records_written :: int
  wr_errors :: "write_error list"
  wr_state_messages :: "state_msg list"

section \<open>Shared orchestration types\<close>

record field_mapping =
  fm_source_field :: string
  fm_dest_field :: string
  fm_coerce_type :: string

record partition_range =
  pr_partition_id :: int
  pr_start_key :: string
  pr_end_key :: string
  pr_offset :: int
  pr_limit :: int

definition DefaultBatchSize :: int where
  "DefaultBatchSize = 1000"

definition ParallelPartitionThreshold :: int where
  "ParallelPartitionThreshold = 10000"

definition MaxPartitions :: int where
  "MaxPartitions = 8"

text \<open>A message that carries a record, as every producer builds it.\<close>

definition record_message :: "rec \<Rightarrow> message" where
  "record_message r = \<lparr>m_type = MessageTypeRecord, m_record = Some r, m_state = None,
     m_control = None, m_other = None\<rparr>"

end
