(* ===== verification/Partitioner.thy ===== *)
theory Partitioner
  imports Protocol
begin

text \<open>
  \<open>internal/worker/extract/partitioner.go\<close>: the three ways an extraction is divided into
  partitions: by time range, by identifier range and by record offset. Integers are Go's
  64-bit ones, so the arithmetic that can leave that range is wrapped. A time is a count of
  nanoseconds, \<open>Format\<close> is the argument \<open>fmt\<close> (a layout and a time to text).
\<close>

record partition =
  p_id :: int
  p_type :: string
  p_start :: string
  p_end :: string

text \<open>The number of partitions, the computation the three \<open>Partition\<close> functions start with.\<close>

definition num_partitions :: "int \<Rightarrow> int \<Rightarrow> int" where
  "num_partitions totalRecords maxPartitionSize =
    (let m = (if maxPartitionSize \<le> 0 then 1 else maxPartitionSize);
         n = totalRecords sdiv m;
         n = (if totalRecords smod m \<noteq> 0 then wrap64 (n + 1) else n)
     in if n < 1 then 1 else n)"

section \<open>Identifier ranges\<close>

text \<open>
  The loop of \<open>IDRangePartitioner.Partition\<close>: \<open>Suc k\<close> iterations are left, the one with
  \<open>k = 0\<close> is \<open>i == numPartitions-1\<close>. The result lists index, first and last identifier.
\<close>

fun id_ranges :: "int \<Rightarrow> int \<Rightarrow> nat \<Rightarrow> int \<Rightarrow> int \<Rightarrow> (int \<times> int \<times> int) list" where
  "id_ranges rangePerPartition maxID 0 i current = []"
| "id_ranges rangePerPartition maxID (Suc k) i current =
    (let e = wrap64 (wrap64 (current + rangePerPartition) - 1);
         e = (if k = 0 \<or> e > maxID then maxID else e);
         current' = wrap64 (e + 1)
     in (i, current, e) #
        (if current' > maxID then [] else id_ranges rangePerPartition maxID k (i + 1) current'))"

definition range_per_partition :: "int \<Rightarrow> int \<Rightarrow> int \<Rightarrow> int" where
  "range_per_partition minID maxID n =
    (let totalRange = wrap64 (wrap64 (maxID - minID) + 1); r = totalRange sdiv n
     in if r < 1 then 1 else r)"

definition id_range_bounds :: "int \<Rightarrow> int \<Rightarrow> int \<Rightarrow> int \<Rightarrow> (int \<times> int \<times> int) list" where
  "id_range_bounds minID maxID totalRecords maxPartitionSize =
    (let n = num_partitions totalRecords maxPartitionSize
     in id_ranges (range_per_partition minID maxID n) maxID (nat n) 0 minID)"

definition id_partition :: "int \<times> int \<times> int \<Rightarrow> partition" where
  "id_partition = (\<lambda>(i, a, b).
     \<lparr>p_id = i, p_type = ''id_range'', p_start = show_int a, p_end = show_int b\<rparr>)"

definition IDRange_Partition :: "int \<Rightarrow> int \<Rightarrow> int \<Rightarrow> int \<Rightarrow> partition list" where
  "IDRange_Partition minID maxID totalRecords maxPartitionSize =
     map id_partition (id_range_bounds minID maxID totalRecords maxPartitionSize)"

section \<open>Record offsets\<close>

fun offset_ranges :: "int \<Rightarrow> int \<Rightarrow> nat \<Rightarrow> int \<Rightarrow> int \<Rightarrow> (int \<times> int \<times> int) list" where
  "offset_ranges recordsPerPartition remainder 0 i offset = []"
| "offset_ranges recordsPerPartition remainder (Suc k) i offset =
    (let size = (if i < remainder then wrap64 (recordsPerPartition + 1) else recordsPerPartition)
     in (i, offset, wrap64 (wrap64 (offset + size) - 1)) #
        offset_ranges recordsPerPartition remainder k (i + 1) (wrap64 (offset + size)))"

definition offset_bounds :: "int \<Rightarrow> int \<Rightarrow> (int \<times> int \<times> int) list" where
  "offset_bounds totalRecords maxPartitionSize =
    (let n = num_partitions totalRecords maxPartitionSize
     in offset_ranges (totalRecords sdiv n) (totalRecords smod n) (nat n) 0 0)"

definition offset_partition :: "int \<times> int \<times> int \<Rightarrow> partition" where
  "offset_partition = (\<lambda>(i, a, b).
     \<lparr>p_id = i, p_type = ''offset_range'', p_start = show_int a, p_end = show_int b\<rparr>)"

definition CalculatePartitions :: "int \<Rightarrow> int \<Rightarrow> partition list" where
  "CalculatePartitions totalRecords maxPartitionSize =
     map offset_partition (offset_bounds totalRecords maxPartitionSize)"

section \<open>Time ranges\<close>

definition second :: duration where
  "second = 1000000000"

fun time_ranges :: "duration \<Rightarrow> time \<Rightarrow> nat \<Rightarrow> int \<Rightarrow> time \<Rightarrow> (int \<times> time \<times> time) list" where
  "time_ranges partitionDuration end_time 0 i current = []"
| "time_ranges partitionDuration end_time (Suc k) i current =
    (let e = current + partitionDuration;
         e = (if k = 0 \<or> e > end_time then end_time else e)
     in (i, current, e) # time_ranges partitionDuration end_time k (i + 1) e)"

definition partition_duration :: "time \<Rightarrow> time \<Rightarrow> int \<Rightarrow> duration" where
  "partition_duration start end_time n =
    (let d = time_sub end_time start sdiv n in if d \<le> 0 then second else d)"

definition time_bounds :: "time \<Rightarrow> time \<Rightarrow> int \<Rightarrow> int \<Rightarrow> (int \<times> time \<times> time) list" where
  "time_bounds start end_time totalRecords maxPartitionSize =
    (let n = num_partitions totalRecords maxPartitionSize
     in time_ranges (partition_duration start end_time n) end_time (nat n) 0 start)"

definition TimeRange_Partition ::
    "(string \<Rightarrow> time \<Rightarrow> string) \<Rightarrow> string \<Rightarrow> time \<Rightarrow> time \<Rightarrow> int \<Rightarrow> int \<Rightarrow> partition list" where
  "TimeRange_Partition fmt timeFormat start end_time totalRecords maxPartitionSize =
    (let layout = (if timeFormat = [] then RFC3339 else timeFormat)
     in map (\<lambda>(i, a, b). \<lparr>p_id = i, p_type = ''time_range'', p_start = fmt layout a,
                            p_end = fmt layout b\<rparr>)
          (time_bounds start end_time totalRecords maxPartitionSize))"

section \<open>The number of partitions\<close>

lemma num_partitions_pos: "1 \<le> num_partitions t m"
  by (simp add: num_partitions_def Let_def)

lemma num_partitions_i64:
  assumes "in_i64 t" shows "in_i64 (num_partitions t m)"
proof -
  let ?m = "if m \<le> 0 then 1 else m"
  have "in_i64 (t sdiv ?m)"
  proof (cases "0 \<le> t")
    case True
    with assms int_div_le [of t ?m] show ?thesis by (auto simp: sdiv_nonneg in_i64_def)
  next
    case False
    with assms int_div_le [of "- t" ?m] show ?thesis by (auto simp: sdiv_neg in_i64_def)
  qed
  then show ?thesis by (auto simp: num_partitions_def Let_def in_i64_def [of 1])
qed

text \<open>For a non-negative count and a positive size it is the ceiling of the quotient.\<close>

lemma num_partitions_ceiling:
  assumes "0 \<le> t" "in_i64 t" "0 < m"
  shows "t \<le> num_partitions t m * m" and "num_partitions t m \<le> max 1 t"
proof -
  have d: "0 \<le> t div m" "t div m \<le> t" using int_div_le [of t m] assms by auto
  have split: "t = (t div m) * m + t mod m" by simp
  have r: "0 \<le> t mod m" "t mod m < m" using assms by simp_all
  have n: "num_partitions t m = (if t mod m \<noteq> 0 then t div m + 1 else if t div m < 1 then 1 else t div m)"
  proof (cases "t mod m = 0")
    case False
    then have "m \<noteq> 1" by auto
    then have "t div m < t \<or> t = 0" using assms int_div_less_self [of t m] by force
    then have "in_i64 (t div m + 1)" using assms d by (auto simp: in_i64_def)
    with False assms d show ?thesis
      by (simp add: num_partitions_def Let_def sdiv_nonneg smod_nonneg wrap64_id)
  qed (use assms in \<open>simp add: num_partitions_def Let_def sdiv_nonneg smod_nonneg\<close>)
  have up: "t \<le> t div m * m + m" using split r by linarith
  have exact: "t mod m = 0 \<Longrightarrow> t = t div m * m" using split by simp
  have "t div m < 1 \<Longrightarrow> t div m = 0" using d by simp
  with up exact assms show "t \<le> num_partitions t m * m"
    by (auto simp: n distrib_right simp del: div_mult_mod_eq)
  show "num_partitions t m \<le> max 1 t"
  proof (cases "t mod m = 0")
    case False
    then have "0 < t" using assms by (cases "t = 0") auto
    moreover from False have "m \<noteq> 1" by auto
    ultimately have "t div m < t" using assms int_div_less_self [of t m] by force
    with False show ?thesis by (simp add: n)
  qed (use d in \<open>simp add: n\<close>)
qed

section \<open>Identifier ranges tile the identifier interval\<close>

text \<open>The half-open pieces behind index, first and last element.\<close>

definition closed_pieces :: "(int \<times> int \<times> int) list \<Rightarrow> (int \<times> int) list" where
  "closed_pieces rs = map (\<lambda>(i, a, b). (a, b + 1)) rs"

lemma id_ranges_tile:
  assumes "1 \<le> r" "cur \<le> mx" "in_i64 cur" "mx < 2 ^ 63 - 1"
    and "r = 1 \<or> cur + int (Suc k) * r \<le> mx + 1"
  shows "tiles cur (closed_pieces (id_ranges r mx (Suc k) i cur)) (mx + 1)"
  using assms
proof (induction k arbitrary: i cur)
  case 0
  then have "wrap64 (mx + 1) = mx + 1" by (intro wrap64_id) (auto simp: in_i64_def)
  with 0 show ?case by (simp add: closed_pieces_def Let_def)
next
  case (Suc k)
  have fits: "cur + r \<le> mx + 1"
    using Suc.prems by (auto simp: distrib_right) (smt (verit) mult_nonneg_nonneg of_nat_0_le_iff)
  with Suc.prems have e: "wrap64 (wrap64 (cur + r) - 1) = cur + r - 1"
    by (simp add: wrap64_id in_i64_def)
  from Suc.prems fits have nxt: "wrap64 (cur + r) = cur + r" by (simp add: wrap64_id in_i64_def)
  show ?case
  proof (cases "cur + r > mx")
    case True
    with fits have "cur + r = mx + 1" by simp
    with Suc.prems e nxt show ?thesis by (simp add: closed_pieces_def Let_def)
  next
    case False
    have "tiles (cur + r) (closed_pieces (id_ranges r mx (Suc k) (i + 1) (cur + r))) (mx + 1)"
      by (rule Suc.IH) (use Suc.prems False fits in \<open>auto simp: in_i64_def distrib_right\<close>)
    with Suc.prems False e nxt show ?thesis
      by (simp add: closed_pieces_def Let_def del: id_ranges.simps)
        (subst id_ranges.simps(2), simp add: Let_def closed_pieces_def del: id_ranges.simps)
  qed
qed


text \<open>
  A request to the identifier partitioner: the two ends of the range, the estimated record
  count and the size bound. It is in range when the length of the interval does not overflow
  and the largest identifier is not the largest 64-bit integer (then \<open>end + 1\<close> would wrap).
\<close>

record id_request =
  q_min :: int
  q_max :: int
  q_total :: int
  q_size :: int

definition id_request_ok :: "id_request \<Rightarrow> bool" where
  "id_request_ok q \<longleftrightarrow> q_min q \<le> q_max q \<and> in_i64 (q_min q) \<and> q_max q < 2 ^ 63 - 1
     \<and> q_max q - q_min q + 1 < 2 ^ 63"

definition id_pieces :: "id_request \<Rightarrow> (int \<times> int) list" where
  "id_pieces q = closed_pieces (id_range_bounds (q_min q) (q_max q) (q_total q) (q_size q))"

lemma id_pieces_tile:
  assumes "id_request_ok q"
  shows "tiles (q_min q) (id_pieces q) (q_max q + 1)"
proof -
  let ?n = "num_partitions (q_total q) (q_size q)"
  let ?len = "q_max q - q_min q + 1"
  let ?r = "range_per_partition (q_min q) (q_max q) ?n"
  obtain k where k: "nat ?n = Suc k"
    using num_partitions_pos [of "q_total q" "q_size q"] by (cases "nat ?n") auto
  then have n: "?n = int (Suc k)" using num_partitions_pos [of "q_total q" "q_size q"] by linarith
  have len: "wrap64 (wrap64 (q_max q - q_min q) + 1) = ?len"
    using assms by (simp add: id_request_ok_def wrap64_id in_i64_def)
  have "0 \<le> ?len" using assms by (simp add: id_request_ok_def)
  then have r: "?r = (if ?len div ?n < 1 then 1 else ?len div ?n)"
    using n by (simp add: range_per_partition_def len Let_def sdiv_nonneg)
  have "?n * (?len div ?n) \<le> ?len" 
    using n mult_div_mod_eq [of ?n ?len] pos_mod_sign [of ?n ?len] by linarith
  then have "?r = 1 \<or> q_min q + ?n * ?r \<le> q_max q + 1"
    unfolding r by (cases "?len div ?n < 1") auto
  then have "?r = 1 \<or> q_min q + int (Suc k) * ?r \<le> q_max q + 1"
    by (simp only: n)
  with assms r show ?thesis
    unfolding id_pieces_def id_range_bounds_def Let_def k
    by (intro id_ranges_tile) (auto simp: id_request_ok_def)
qed

interpretation id_tiling: tiling id_request_ok q_min "\<lambda>q. q_max q + 1" id_pieces
  by unfold_locales (rule id_pieces_tile)

text \<open>What the printed bounds of a partition stand for.\<close>

definition partition_ids :: "partition \<Rightarrow> int list" where
  "partition_ids p = (case (read_int (p_start p), read_int (p_end p)) of
     (Some a, Some b) \<Rightarrow> [a..b] | _ \<Rightarrow> [])"

lemma partition_ids_id [simp]: "partition_ids (id_partition (i, a, b)) = [a..b]"
  by (simp add: partition_ids_def id_partition_def read_show_int)

lemma partition_ids_offset [simp]: "partition_ids (offset_partition (i, a, b)) = [a..b]"
  by (simp add: partition_ids_def offset_partition_def read_show_int)

lemma concat_partition_ids_id:
  "concat (map partition_ids (map id_partition rs)) = concat (map (\<lambda>(s, e). [s..e - 1]) (closed_pieces rs))"
  by (induction rs) (auto simp: closed_pieces_def)

lemma concat_partition_ids_offset:
  "concat (map partition_ids (map offset_partition rs)) = concat (map (\<lambda>(s, e). [s..e - 1]) (closed_pieces rs))"
  by (induction rs) (auto simp: closed_pieces_def)

section \<open>Offset ranges tile the record offsets\<close>

definition offsets_fit :: "int \<Rightarrow> int \<Rightarrow> nat \<Rightarrow> int \<Rightarrow> int \<Rightarrow> int \<Rightarrow> bool" where
  "offsets_fit r rm k i off tot \<longleftrightarrow> 0 \<le> r \<and> 0 \<le> off \<and> in_i64 tot
     \<and> off + int k * r + max 0 (min (int k) (rm - i)) = tot"

lemma offset_ranges_step:
  fixes r rm i off defines "s \<equiv> (if i < rm then r + 1 else r)"
  assumes "offsets_fit r rm (Suc k) i off tot"
  shows "closed_pieces (offset_ranges r rm (Suc k) i off)
       = (off, off + s) # closed_pieces (offset_ranges r rm k (i + 1) (off + s))"
    and "offsets_fit r rm k (i + 1) (off + s) tot" and "0 \<le> s"
proof -
  have a: "0 \<le> r" "0 \<le> off" "in_i64 tot"
      "off + int (Suc k) * r + max 0 (min (int (Suc k)) (rm - i)) = tot"
    using assms by (auto simp: offsets_fit_def)
  show "0 \<le> s" using a by (simp add: s_def)
  have rest: "off + s + int k * r + max 0 (min (int k) (rm - (i + 1))) = tot"
    using a(4) by (auto simp: s_def distrib_right)
  with a \<open>0 \<le> s\<close> show "offsets_fit r rm k (i + 1) (off + s) tot"
    by (simp add: offsets_fit_def)
  have "0 \<le> int k * r" using a by simp
  with rest have le: "off + s \<le> tot" by linarith
  have "wrap64 (r + 1) = r + 1" if "i < rm"
    using le a that by (intro wrap64_id) (auto simp: in_i64_def s_def)
  then have sz: "(if i < rm then wrap64 (r + 1) else r) = s" by (simp add: s_def)
  have "wrap64 (off + s) = off + s" "wrap64 (off + s - 1) = off + s - 1"
    using le a \<open>0 \<le> s\<close> by (auto simp: in_i64_def intro!: wrap64_id)
  then show "closed_pieces (offset_ranges r rm (Suc k) i off)
       = (off, off + s) # closed_pieces (offset_ranges r rm k (i + 1) (off + s))"
    unfolding offset_ranges.simps Let_def sz by (simp add: closed_pieces_def)
qed

lemma offset_ranges_tile:
  "offsets_fit r rm k i off tot \<Longrightarrow> tiles off (closed_pieces (offset_ranges r rm k i off)) tot"
proof (induction k arbitrary: i off)
  case (Suc k)
  note st = offset_ranges_step [OF Suc.prems]
  show ?case unfolding st(1) using Suc.IH [OF st(2)] st(3) by simp
qed (simp add: closed_pieces_def offsets_fit_def)

lemma offset_ranges_size:
  "offsets_fit r rm k i off tot \<Longrightarrow> p \<in> set (closed_pieces (offset_ranges r rm k i off)) \<Longrightarrow>
   snd p - fst p = r \<or> snd p - fst p = r + 1 \<and> i < rm"
proof (induction k arbitrary: i off)
  case (Suc k)
  note st = offset_ranges_step [OF Suc.prems(1)]
  from Suc.prems(2) show ?case
    unfolding st(1) using Suc.IH [OF st(2)] by (auto split: if_splits)
qed (simp add: closed_pieces_def)

lemma length_offset_ranges [simp]: "length (offset_ranges r rm k i off) = k"
  by (induction k arbitrary: i off) (simp_all add: Let_def)

record offset_request =
  o_total :: int
  o_size :: int

definition offset_request_ok :: "offset_request \<Rightarrow> bool" where
  "offset_request_ok q \<longleftrightarrow> 0 \<le> o_total q \<and> in_i64 (o_total q)"

definition offset_pieces :: "offset_request \<Rightarrow> (int \<times> int) list" where
  "offset_pieces q = closed_pieces (offset_bounds (o_total q) (o_size q))"

lemma offset_bounds_fit:
  assumes "offset_request_ok q" defines "n \<equiv> num_partitions (o_total q) (o_size q)"
  shows "offset_bounds (o_total q) (o_size q)
      = offset_ranges (o_total q div n) (o_total q mod n) (nat n) 0 0"
    and "offsets_fit (o_total q div n) (o_total q mod n) (nat n) 0 0 (o_total q)"
proof -
  have n: "1 \<le> n" unfolding n_def by (rule num_partitions_pos)
  have t: "0 \<le> o_total q" "in_i64 (o_total q)" using assms by (auto simp: offset_request_ok_def)
  have m: "o_total q mod n < n" "0 \<le> o_total q mod n" using n by simp_all
  show "offset_bounds (o_total q) (o_size q)
      = offset_ranges (o_total q div n) (o_total q mod n) (nat n) 0 0"
    using t n by (simp add: offset_bounds_def Let_def sdiv_nonneg smod_nonneg n_def)
  show "offsets_fit (o_total q div n) (o_total q mod n) (nat n) 0 0 (o_total q)"
    using n t m by (simp add: offsets_fit_def pos_imp_zdiv_nonneg_iff)
qed

lemma offset_pieces_tile:
  "offset_request_ok q \<Longrightarrow> tiles 0 (offset_pieces q) (o_total q)"
  unfolding offset_pieces_def using offset_bounds_fit by (metis offset_ranges_tile)

interpretation offset_tiling: tiling offset_request_ok "\<lambda>q. 0" o_total offset_pieces
  by unfold_locales (rule offset_pieces_tile)

lemma offset_pieces_bounded:
  assumes "offset_request_ok q" "0 < o_size q" "p \<in> set (offset_pieces q)"
  shows "snd p - fst p \<le> o_size q"
proof -
  let ?n = "num_partitions (o_total q) (o_size q)"
  let ?t = "o_total q"
  have n: "1 \<le> ?n" by (rule num_partitions_pos)
  have cover: "?t \<le> ?n * o_size q"
    using assms num_partitions_ceiling(1) [of ?t "o_size q"] by (simp add: offset_request_ok_def)
  have decomp: "?t = ?n * (?t div ?n) + ?t mod ?n" by simp
  have "?t div ?n \<le> o_size q"
    using cover n by (metis div_by_0 mult.commute nonzero_mult_div_cancel_right zdiv_mono1
        not_one_le_zero zero_less_one order_less_le_trans)
  moreover have "?t div ?n + 1 \<le> o_size q" if "0 < ?t mod ?n"
  proof (rule ccontr)
    assume "\<not> ?thesis"
    then have "?n * o_size q \<le> ?n * (?t div ?n)" using n by (intro mult_left_mono) auto
    with decomp cover that show False by linarith
  qed
  ultimately show ?thesis
    using offset_ranges_size [OF offset_bounds_fit(2) [OF assms(1)]] assms(3)
    by (fastforce simp: offset_pieces_def offset_bounds_fit(1) [OF assms(1)])
qed

section \<open>Time ranges tile the time interval\<close>

definition time_pieces_of :: "(int \<times> time \<times> time) list \<Rightarrow> (int \<times> int) list" where
  "time_pieces_of rs = map snd rs"

lemma time_ranges_tile:
  "0 < d \<Longrightarrow> cur \<le> e \<Longrightarrow> tiles cur (time_pieces_of (time_ranges d e (Suc k) i cur)) e"
proof (induction k arbitrary: i cur)
  case (Suc k)
  show ?case
    using Suc.IH [OF Suc.prems(1), of e "i + 1"] Suc.IH [OF Suc.prems(1), of "cur + d" "i + 1"]
      Suc.prems
    by (auto simp: time_pieces_of_def Let_def)
qed (simp add: time_pieces_of_def Let_def)

lemma length_time_ranges [simp]: "length (time_ranges d e k i cur) = k"
  by (induction k arbitrary: i cur) (simp_all add: Let_def)

record time_request =
  t_start :: time
  t_end :: time
  t_total :: int
  t_size :: int

definition time_request_ok :: "time_request \<Rightarrow> bool" where
  "time_request_ok q \<longleftrightarrow> t_start q \<le> t_end q"

definition time_pieces :: "time_request \<Rightarrow> (int \<times> int) list" where
  "time_pieces q = time_pieces_of (time_bounds (t_start q) (t_end q) (t_total q) (t_size q))"

lemma partition_duration_pos: "0 < partition_duration s e n"
  by (simp add: partition_duration_def Let_def second_def)

lemma time_pieces_tile:
  assumes "time_request_ok q" shows "tiles (t_start q) (time_pieces q) (t_end q)"
proof -
  obtain k where "nat (num_partitions (t_total q) (t_size q)) = Suc k"
    using num_partitions_pos [of "t_total q" "t_size q"]
    by (cases "nat (num_partitions (t_total q) (t_size q))") auto
  with assms show ?thesis
    by (simp only: time_pieces_def time_bounds_def Let_def time_request_ok_def)
      (simp only: time_ranges_tile partition_duration_pos)
qed

interpretation time_tiling: tiling time_request_ok t_start t_end time_pieces
  by unfold_locales (rule time_pieces_tile)

lemma length_id_ranges_le: "length (id_ranges r mx k i cur) \<le> k"
  by (induction k arbitrary: i cur) (auto simp: Let_def)

section \<open>Properties of the partitioners\<close>

text \<open>
  C5: the identifier partitioner covers its range exactly once. Whatever the estimated count
  and the size bound are, the printed bounds of the partitions, read back and enumerated in
  order, are exactly the identifiers from \<open>MinID\<close> to \<open>MaxID\<close>, none missing and none twice,
  and there are at most \<open>numPartitions\<close> of them. The length of the range must not overflow and
  \<open>MaxID\<close> must not be the largest 64-bit integer.
\<close>

theorem id_partitions_cover_range:
  assumes "minID \<le> maxID" "- (2 ^ 63) \<le> minID" "maxID < 2 ^ 63 - 1" "maxID - minID + 1 < 2 ^ 63"
  shows "concat (map partition_ids (IDRange_Partition minID maxID totalRecords maxPartitionSize))
       = [minID..maxID]
     \<and> length (IDRange_Partition minID maxID totalRecords maxPartitionSize)
       \<le> nat (num_partitions totalRecords maxPartitionSize)"
proof (intro conjI)
  let ?q = "\<lparr>q_min = minID, q_max = maxID, q_total = totalRecords, q_size = maxPartitionSize\<rparr>"
  have "id_request_ok ?q" using assms by (auto simp: id_request_ok_def in_i64_def)
  from id_tiling.enumerates [OF this]
  show "concat (map partition_ids (IDRange_Partition minID maxID totalRecords maxPartitionSize))
      = [minID..maxID]"
    unfolding IDRange_Partition_def concat_partition_ids_id id_pieces_def by simp
  show "length (IDRange_Partition minID maxID totalRecords maxPartitionSize)
      \<le> nat (num_partitions totalRecords maxPartitionSize)"
    by (simp add: IDRange_Partition_def id_range_bounds_def Let_def length_id_ranges_le)
qed

theorem id_partitions_cover_range_witness:
  "concat (map partition_ids (IDRange_Partition (-3) 10 25 4)) = [-3..10]"
  using id_partitions_cover_range [of "-3" 10 25 4] by simp

text \<open>
  Offset partitions cover the record offsets \<open>0 .. total-1\<close> exactly once, there are
  exactly \<open>numPartitions\<close> of them, and none holds more than \<open>maxPartitionSize\<close> records.
\<close>

theorem offset_partitions_cover_and_bounded:
  assumes "0 \<le> totalRecords" "totalRecords < 2 ^ 63" "0 < maxSize"
  shows "concat (map partition_ids (CalculatePartitions totalRecords maxSize)) = [0..totalRecords - 1]
       \<and> length (CalculatePartitions totalRecords maxSize) = nat (num_partitions totalRecords maxSize)
       \<and> list_all (\<lambda>p. int (length (partition_ids p)) \<le> maxSize) (CalculatePartitions totalRecords maxSize)"
proof (intro conjI)
  let ?q = "\<lparr>o_total = totalRecords, o_size = maxSize\<rparr>"
  have ok: "offset_request_ok ?q" using assms by (auto simp: offset_request_ok_def in_i64_def)
  from offset_tiling.enumerates [OF ok]
  show "concat (map partition_ids (CalculatePartitions totalRecords maxSize)) = [0..totalRecords - 1]"
    unfolding CalculatePartitions_def concat_partition_ids_offset offset_pieces_def by simp
  show "length (CalculatePartitions totalRecords maxSize) = nat (num_partitions totalRecords maxSize)"
    by (simp add: CalculatePartitions_def offset_bounds_def Let_def)
  have "int (length [a..b]) \<le> maxSize" if "(i, a, b) \<in> set (offset_bounds totalRecords maxSize)" for i a b
  proof -
    from that have "(a, b + 1) \<in> set (offset_pieces ?q)"
      by (force simp: offset_pieces_def closed_pieces_def)
    from offset_pieces_bounded [OF ok _ this] assms(3) show ?thesis by simp
  qed
  then show "list_all (\<lambda>p. int (length (partition_ids p)) \<le> maxSize) (CalculatePartitions totalRecords maxSize)"
    by (auto simp: CalculatePartitions_def list_all_iff)
qed

theorem offset_partitions_cover_and_bounded_witness:
  "concat (map partition_ids (CalculatePartitions 10 4)) = [0..9]
   \<and> list_all (\<lambda>p. int (length (partition_ids p)) \<le> 4) (CalculatePartitions 10 4)"
  using offset_partitions_cover_and_bounded [of 10 4] by simp

text \<open>
  Time partitions are contiguous. There are exactly \<open>numPartitions\<close> of them, the first
  starts at \<open>Start\<close>, the last ends at \<open>End\<close>, each starts (as printed, whatever the layout)
  where the one before it ends, and every instant of \<open>[Start, End)\<close> lies in exactly one.
\<close>

theorem time_partitions_contiguous:
  fixes fmt timeFormat start end_time totalRecords maxSize
  defines "ps \<equiv> TimeRange_Partition fmt timeFormat start end_time totalRecords maxSize"
    and "layout \<equiv> (if timeFormat = [] then RFC3339 else timeFormat)"
  assumes "start \<le> end_time"
  shows "length ps = nat (num_partitions totalRecords maxSize)
    \<and> p_start (hd ps) = fmt layout start \<and> p_end (last ps) = fmt layout end_time
    \<and> (\<forall>i. Suc i < length ps \<longrightarrow> p_end (ps ! i) = p_start (ps ! Suc i))
    \<and> (\<forall>x. start \<le> x \<and> x < end_time \<longrightarrow>
         length (filter (in_piece x) (map snd (time_bounds start end_time totalRecords maxSize))) = 1)"
proof (intro conjI allI impI)
  let ?q = "\<lparr>t_start = start, t_end = end_time, t_total = totalRecords, t_size = maxSize\<rparr>"
  let ?bs = "time_bounds start end_time totalRecords maxSize"
  have ok: "time_request_ok ?q" using assms(3) by (simp add: time_request_ok_def)
  have pieces: "time_pieces ?q = map snd ?bs" by (simp add: time_pieces_def time_pieces_of_def)
  have len: "length ?bs = nat (num_partitions totalRecords maxSize)" by (simp add: time_bounds_def Let_def)
  then have ne: "?bs \<noteq> []" using num_partitions_pos [of totalRecords maxSize] by fastforce
  have ps: "ps = map (\<lambda>(i, a, b). \<lparr>p_id = i, p_type = ''time_range'', p_start = fmt layout a,
      p_end = fmt layout b\<rparr>) ?bs"
    by (simp add: ps_def layout_def TimeRange_Partition_def)
  show "length ps = nat (num_partitions totalRecords maxSize)" by (simp add: ps len)
  from time_tiling.ends [OF ok] ne
  show "p_start (hd ps) = fmt layout start" and "p_end (last ps) = fmt layout end_time"
    by (auto simp: ps pieces hd_map last_map split: prod.split)
  show "p_end (ps ! i) = p_start (ps ! Suc i)" if "Suc i < length ps" for i
    using time_tiling.adjacent [OF ok, of i] that by (auto simp: ps pieces split: prod.split)
  show "length (filter (in_piece x) (map snd ?bs)) = 1" if "start \<le> x \<and> x < end_time" for x
    using time_tiling.exactly_once [OF ok, of x] that by (simp add: pieces)
qed

theorem time_partitions_contiguous_witness:
  "p_end (TimeRange_Partition (\<lambda>l t. show_int t) [] 0 100 10 4 ! 0)
   = p_start (TimeRange_Partition (\<lambda>l t. show_int t) [] 0 100 10 4 ! Suc 0)"
  using time_partitions_contiguous [of 0 100 "\<lambda>l t. show_int t" "[]" 10 4]
  by (simp add: TimeRange_Partition_def time_bounds_def num_partitions_def Let_def
      sdiv_nonneg smod_nonneg wrap64_def numeral_eq_Suc)

end
