(* ===== verification/Pool.thy ===== *)
theory Pool
  imports Errors
begin

text \<open>
  \<open>internal/worker/pool/pool.go\<close>: the bounded worker pool. The pool's fields are the record
  \<open>pool\<close>; the goroutines that call its methods are submitters and workers, each with its
  position in the code, and \<open>pool_step\<close> interleaves their atomic actions: one load, store,
  swap or add of an atomic variable, one channel operation. The processor function is the
  choice between the two ways a call of it returns. Whether a context is done is decided
  outside the pool, so a worker may find its context done at any time.
\<close>

record 'a pool =
  p_name :: string
  p_concurrency :: int
  p_bufSize :: int
  p_input :: "'a list"
  p_inputClosed :: bool
  p_doneClosed :: bool
  p_cancelled :: bool
  p_active :: int
  p_pending :: int
  p_completed :: int
  p_failed :: int
  p_started :: bool
  p_stopped :: bool

record pool_stats =
  ps_active :: int
  ps_pending :: int
  ps_completed :: int
  ps_failed :: int

definition NewPool :: "string \<Rightarrow> int \<Rightarrow> 'a pool" where
  "NewPool name concurrency =
    (let concurrency = (if concurrency < 1 then 1 else concurrency);
         bufSize = wrap64 (concurrency * 2)
     in \<lparr>p_name = name, p_concurrency = concurrency, p_bufSize = bufSize, p_input = [],
         p_inputClosed = False, p_doneClosed = False, p_cancelled = False,
         p_active = 0, p_pending = 0, p_completed = 0, p_failed = 0,
         p_started = False, p_stopped = False\<rparr>)"

definition Stats :: "'a pool \<Rightarrow> pool_stats" where
  "Stats p = \<lparr>ps_active = p_active p, ps_pending = p_pending p, ps_completed = p_completed p,
     ps_failed = p_failed p\<rparr>"

definition pool_Name :: "'a pool \<Rightarrow> string" where
  "pool_Name p = p_name p"

definition Concurrency :: "'a pool \<Rightarrow> int" where
  "Concurrency p = p_concurrency p"

definition QueueDepth :: "'a pool \<Rightarrow> int" where
  "QueueDepth p = p_pending p"

section \<open>Goroutines\<close>

text \<open>
  A worker is at the \<open>select\<close> of its loop, has received an item, has decremented \<open>pending\<close>, has
  incremented \<open>active\<close> and runs the processor, or has counted the outcome and is about to
  decrement \<open>active\<close>. The flag says whether it is in the inner loop that drains the channel
  after its context was done. A submitter has passed the two checks, is blocked in \<open>select\<close>,
  or leaves through one of the other cases; the flag says whether it has a context.
\<close>

datatype 'a worker_stage = AtSelect | Received 'a | Dequeued 'a | Processing 'a | Counted

datatype 'a submit_stage = Checked 'a | Waiting 'a | Leaving 'a

type_synonym 'a worker = "bool \<times> 'a worker_stage"

type_synonym 'a submitter = "bool \<times> 'a submit_stage"

text \<open>
  The pool with its goroutines, and a record of what has happened: the items sent to the
  channel, the items whose processing was counted, the number of workers ever started, how
  many of them returned because the channel was closed and empty, how many because their
  context was done and the channel empty, and whether a send met a closed channel.
\<close>

record 'a pool_sys =
  sy_pool :: "'a pool"
  sy_workers :: "'a worker multiset"
  sy_submitters :: "'a submitter multiset"
  sy_sent :: "'a multiset"
  sy_processed :: "'a multiset"
  sy_spawned :: nat
  sy_exit_closed :: nat
  sy_exit_drained :: nat
  sy_panicked :: bool

definition spawn :: "nat \<Rightarrow> 'a pool_sys \<Rightarrow> 'a pool_sys" where
  "spawn n s = s\<lparr>sy_workers := sy_workers s + replicate_mset n (False, AtSelect),
     sy_spawned := sy_spawned s + n\<rparr>"

definition pool_Start :: "'a pool_sys \<Rightarrow> 'a pool_sys" where
  "pool_Start s =
    (if p_started (sy_pool s) then s
     else spawn (nat (p_concurrency (sy_pool s))) (s\<lparr>sy_pool := (sy_pool s)\<lparr>p_started := True\<rparr>\<rparr>))"

definition Resize :: "int \<Rightarrow> 'a pool_sys \<Rightarrow> 'a pool_sys" where
  "Resize newConcurrency s =
    (let n = (if newConcurrency < 1 then 1 else newConcurrency);
         p = sy_pool s;
         s = (if n > p_concurrency p then spawn (nat (n - p_concurrency p)) s else s)
     in s\<lparr>sy_pool := p\<lparr>p_concurrency := n\<rparr>\<rparr>)"

text \<open>The two checks at the head of \<open>Submit\<close> and \<open>SubmitWithContext\<close>.\<close>

definition submit_check :: "'a pool \<Rightarrow> go_error option" where
  "submit_check p =
    (if p_stopped p then Some (NewError ''pool is shut down'')
     else if \<not> p_started p then Some (NewError ''pool not started'')
     else None)"

text \<open>
  The steps of \<open>Submit\<close> and \<open>SubmitWithContext\<close>. A send on the closed channel panics; a \<open>select\<close>
  whose cases are both ready takes either.
\<close>

inductive submit_step :: "'a pool_sys \<Rightarrow> 'a pool_sys \<Rightarrow> bool" where
  submit_checked: "submit_check (sy_pool s) = None \<Longrightarrow>
    submit_step s (s\<lparr>sy_submitters := add_mset (ctx, Checked x) (sy_submitters s)\<rparr>)"
| submit_pending: "sy_submitters s = add_mset (ctx, Checked x) S \<Longrightarrow>
    submit_step s (s\<lparr>sy_submitters := add_mset (ctx, Waiting x) S,
      sy_pool := (sy_pool s)\<lparr>p_pending := p_pending (sy_pool s) + 1\<rparr>\<rparr>)"
| submit_send: "sy_submitters s = add_mset (ctx, Waiting x) S \<Longrightarrow> \<not> p_inputClosed (sy_pool s) \<Longrightarrow>
    int (length (p_input (sy_pool s))) < p_bufSize (sy_pool s) \<Longrightarrow>
    submit_step s (s\<lparr>sy_submitters := S, sy_sent := add_mset x (sy_sent s),
      sy_pool := (sy_pool s)\<lparr>p_input := p_input (sy_pool s) @ [x]\<rparr>\<rparr>)"
| submit_panic: "sy_submitters s = add_mset (ctx, Waiting x) S \<Longrightarrow> p_inputClosed (sy_pool s) \<Longrightarrow>
    submit_step s (s\<lparr>sy_panicked := True\<rparr>)"
| submit_leave: "sy_submitters s = add_mset (ctx, Waiting x) S \<Longrightarrow> p_doneClosed (sy_pool s) \<or> ctx \<Longrightarrow>
    submit_step s (s\<lparr>sy_submitters := add_mset (ctx, Leaving x) S\<rparr>)"
| submit_left: "sy_submitters s = add_mset (ctx, Leaving x) S \<Longrightarrow>
    submit_step s (s\<lparr>sy_submitters := S,
      sy_pool := (sy_pool s)\<lparr>p_pending := p_pending (sy_pool s) - 1\<rparr>\<rparr>)"

text \<open>
  The steps of \<open>worker\<close> and \<open>processItem\<close>.
\<close>

inductive worker_step :: "'a pool_sys \<Rightarrow> 'a pool_sys \<Rightarrow> bool" where
  worker_ctx_done: "sy_workers s = add_mset (False, AtSelect) W \<Longrightarrow>
    worker_step s (s\<lparr>sy_workers := add_mset (True, AtSelect) W\<rparr>)"
| worker_receive: "sy_workers s = add_mset (d, AtSelect) W \<Longrightarrow> p_input (sy_pool s) = x # xs \<Longrightarrow>
    worker_step s (s\<lparr>sy_workers := add_mset (d, Received x) W,
      sy_pool := (sy_pool s)\<lparr>p_input := xs\<rparr>\<rparr>)"
| worker_closed: "sy_workers s = add_mset (d, AtSelect) W \<Longrightarrow> p_input (sy_pool s) = [] \<Longrightarrow>
    p_inputClosed (sy_pool s) \<Longrightarrow>
    worker_step s (s\<lparr>sy_workers := W, sy_exit_closed := Suc (sy_exit_closed s)\<rparr>)"
| worker_drained: "sy_workers s = add_mset (True, AtSelect) W \<Longrightarrow> p_input (sy_pool s) = [] \<Longrightarrow>
    \<not> p_inputClosed (sy_pool s) \<Longrightarrow>
    worker_step s (s\<lparr>sy_workers := W, sy_exit_drained := Suc (sy_exit_drained s)\<rparr>)"
| worker_dequeue: "sy_workers s = add_mset (d, Received x) W \<Longrightarrow>
    worker_step s (s\<lparr>sy_workers := add_mset (d, Dequeued x) W,
      sy_pool := (sy_pool s)\<lparr>p_pending := p_pending (sy_pool s) - 1\<rparr>\<rparr>)"
| worker_activate: "sy_workers s = add_mset (d, Dequeued x) W \<Longrightarrow>
    worker_step s (s\<lparr>sy_workers := add_mset (d, Processing x) W,
      sy_pool := (sy_pool s)\<lparr>p_active := p_active (sy_pool s) + 1\<rparr>\<rparr>)"
| worker_failed: "sy_workers s = add_mset (d, Processing x) W \<Longrightarrow>
    worker_step s (s\<lparr>sy_workers := add_mset (d, Counted) W, sy_processed := add_mset x (sy_processed s),
      sy_pool := (sy_pool s)\<lparr>p_failed := p_failed (sy_pool s) + 1\<rparr>\<rparr>)"
| worker_completed: "sy_workers s = add_mset (d, Processing x) W \<Longrightarrow>
    worker_step s (s\<lparr>sy_workers := add_mset (d, Counted) W, sy_processed := add_mset x (sy_processed s),
      sy_pool := (sy_pool s)\<lparr>p_completed := p_completed (sy_pool s) + 1\<rparr>\<rparr>)"
| worker_deactivate: "sy_workers s = add_mset (d, Counted) W \<Longrightarrow>
    worker_step s (s\<lparr>sy_workers := add_mset (d, AtSelect) W,
      sy_pool := (sy_pool s)\<lparr>p_active := p_active (sy_pool s) - 1\<rparr>\<rparr>)"

text \<open>
  The steps of \<open>Shutdown\<close>: only the call that finds \<open>stopped\<close> unset goes on to close the channels.
\<close>

inductive shutdown_step :: "'a pool_sys \<Rightarrow> 'a pool_sys \<Rightarrow> bool" where
  shutdown_swap: "\<not> p_stopped (sy_pool s) \<Longrightarrow>
    shutdown_step s (s\<lparr>sy_pool := (sy_pool s)\<lparr>p_stopped := True\<rparr>\<rparr>)"
| shutdown_done: "p_stopped (sy_pool s) \<Longrightarrow> \<not> p_doneClosed (sy_pool s) \<Longrightarrow>
    shutdown_step s (s\<lparr>sy_pool := (sy_pool s)\<lparr>p_doneClosed := True\<rparr>\<rparr>)"
| shutdown_close: "p_doneClosed (sy_pool s) \<Longrightarrow> \<not> p_inputClosed (sy_pool s) \<Longrightarrow>
    shutdown_step s (s\<lparr>sy_pool := (sy_pool s)\<lparr>p_inputClosed := True\<rparr>\<rparr>)"
| shutdown_timeout: "p_inputClosed (sy_pool s) \<Longrightarrow> p_started (sy_pool s) \<Longrightarrow>
    shutdown_step s (s\<lparr>sy_pool := (sy_pool s)\<lparr>p_cancelled := True\<rparr>\<rparr>)"

inductive pool_step :: "'a pool_sys \<Rightarrow> 'a pool_sys \<Rightarrow> bool" where
  start: "pool_step s (pool_Start s)"
| resize: "pool_step s (Resize n s)"
| by_submitter: "submit_step s t \<Longrightarrow> pool_step s t"
| by_worker: "worker_step s t \<Longrightarrow> pool_step s t"
| by_shutdown: "shutdown_step s t \<Longrightarrow> pool_step s t"

definition pool_init :: "string \<Rightarrow> int \<Rightarrow> 'a pool_sys \<Rightarrow> bool" where
  "pool_init name concurrency s \<longleftrightarrow> s = \<lparr>sy_pool = NewPool name concurrency, sy_workers = {#},
     sy_submitters = {#}, sy_sent = {#}, sy_processed = {#}, sy_spawned = 0, sy_exit_closed = 0,
     sy_exit_drained = 0, sy_panicked = False\<rparr>"

text \<open>
  What \<open>Shutdown\<close> returns: nil for a second call or when every worker has returned, otherwise
  the error of its context.
\<close>

definition Shutdown_result :: "bool \<Rightarrow> go_error option \<Rightarrow> 'a pool \<Rightarrow> go_error option" where
  "Shutdown_result alreadyStopped ctxErr p =
    (if alreadyStopped then None
     else case ctxErr of None \<Rightarrow> None
          | Some e \<Rightarrow> Some (Wrapped (''pool '' @ p_name p @ '': shutdown timed out: '') e))"

text \<open>
  \<open>WaitIdle\<close> over the observations of its polls: the pool when the counters are read and the
  context's error, if it is done. \<open>None\<close> when the observations end before it returns.
\<close>

fun WaitIdle :: "('a pool \<times> go_error option) list \<Rightarrow> go_error option option" where
  "WaitIdle [] = None"
| "WaitIdle ((p, ctxErr) # polls) =
    (if p_active p = 0 \<and> p_pending p = 0 then Some None
     else case ctxErr of Some e \<Rightarrow> Some (Some e) | None \<Rightarrow> WaitIdle polls)"

section \<open>Invariant\<close>

definition occupied :: "'a worker \<Rightarrow> bool" where
  "occupied w \<longleftrightarrow> (case snd w of Processing _ \<Rightarrow> True | Counted \<Rightarrow> True | _ \<Rightarrow> False)"

definition holding_pending :: "'a worker \<Rightarrow> bool" where
  "holding_pending w \<longleftrightarrow> (case snd w of Received _ \<Rightarrow> True | _ \<Rightarrow> False)"

definition submit_pending_counted :: "'a submitter \<Rightarrow> bool" where
  "submit_pending_counted w \<longleftrightarrow> (case snd w of Checked _ \<Rightarrow> False | _ \<Rightarrow> True)"

definition in_hand :: "'a worker \<Rightarrow> 'a multiset" where
  "in_hand w = (case snd w of Received x \<Rightarrow> {#x#} | Dequeued x \<Rightarrow> {#x#} | Processing x \<Rightarrow> {#x#} | _ \<Rightarrow> {#})"

lemmas pool_stage_defs = occupied_def holding_pending_def submit_pending_counted_def in_hand_def

definition pool_inv :: "'a pool_sys \<Rightarrow> bool" where
  "pool_inv s \<longleftrightarrow> (let p = sy_pool s in
     p_pending p = int (length (p_input p)) + int (size (filter_mset submit_pending_counted (sy_submitters s)))
        + int (size (filter_mset holding_pending (sy_workers s)))
   \<and> p_active p = int (size (filter_mset occupied (sy_workers s)))
   \<and> sy_sent s = mset (p_input p) + (\<Sum>\<^sub># (image_mset in_hand (sy_workers s))) + sy_processed s
   \<and> p_completed p + p_failed p = int (size (sy_processed s))
   \<and> 0 \<le> p_completed p \<and> 0 \<le> p_failed p
   \<and> 1 \<le> p_concurrency p
   \<and> (p_input p = [] \<or> int (length (p_input p)) \<le> p_bufSize p)
   \<and> sy_spawned s = size (sy_workers s) + sy_exit_closed s + sy_exit_drained s
   \<and> (p_started p \<longrightarrow> 0 < sy_spawned s)
   \<and> (0 < sy_exit_closed s \<longrightarrow> p_input p = [] \<and> p_inputClosed p)
   \<and> (p_inputClosed p \<longrightarrow> p_doneClosed p) \<and> (p_doneClosed p \<longrightarrow> p_stopped p))"

lemma pool_init_inv: "pool_init name n s \<Longrightarrow> pool_inv s"
  by (auto simp: pool_init_def pool_inv_def NewPool_def Let_def)

lemma filter_replicate: "filter_mset P (replicate_mset n x) = (if P x then replicate_mset n x else {#})"
  by (induction n) auto

lemma sum_replicate_empty: "\<Sum>\<^sub># (replicate_mset n {#}) = {#}"
  by (induction n) auto

lemma spawn_inv: "pool_inv s \<Longrightarrow> pool_inv (spawn n s)"
  by (auto simp: pool_inv_def spawn_def Let_def pool_stage_defs filter_replicate sum_replicate_empty)

lemma spawn_pool [simp]: "sy_pool (spawn n s) = sy_pool s"
  by (simp add: spawn_def)

lemma spawn_update: "spawn n (s\<lparr>sy_pool := p\<rparr>) = (spawn n s)\<lparr>sy_pool := p\<rparr>"
  by (cases s) (simp add: spawn_def)

lemma started_inv:
  "pool_inv s \<Longrightarrow> 0 < sy_spawned s \<Longrightarrow> pool_inv (s\<lparr>sy_pool := (sy_pool s)\<lparr>p_started := True\<rparr>\<rparr>)"
  by (simp add: pool_inv_def Let_def)

lemma concurrency_inv:
  "pool_inv s \<Longrightarrow> 1 \<le> m \<Longrightarrow> pool_inv (s\<lparr>sy_pool := (sy_pool s)\<lparr>p_concurrency := m\<rparr>\<rparr>)"
  by (auto simp: pool_inv_def Let_def)

lemma pool_Start_inv: "pool_inv s \<Longrightarrow> pool_inv (pool_Start s)"
proof (cases "p_started (sy_pool s)")
  case False
  assume inv: "pool_inv s"
  then have "0 < sy_spawned (spawn (nat (p_concurrency (sy_pool s))) s)"
    by (simp add: pool_inv_def Let_def spawn_def)
  from started_inv [OF spawn_inv [OF inv] this] False show ?thesis
    by (simp add: pool_Start_def spawn_update)
qed (simp add: pool_Start_def)

lemma Resize_inv: "pool_inv s \<Longrightarrow> pool_inv (Resize n s)"
  using concurrency_inv [of s] concurrency_inv [OF spawn_inv [of s]]
  by (simp add: Resize_def Let_def)

lemma submit_step_inv: "submit_step s t \<Longrightarrow> pool_inv s \<Longrightarrow> pool_inv t"
  by (induction rule: submit_step.induct) (auto simp: pool_inv_def Let_def pool_stage_defs)

lemma worker_step_inv: "worker_step s t \<Longrightarrow> pool_inv s \<Longrightarrow> pool_inv t"
  by (induction rule: worker_step.induct) (auto simp: pool_inv_def Let_def pool_stage_defs)

lemma shutdown_step_inv: "shutdown_step s t \<Longrightarrow> pool_inv s \<Longrightarrow> pool_inv t"
  by (induction rule: shutdown_step.induct) (auto simp: pool_inv_def Let_def)

lemma pool_step_inv: "pool_step s t \<Longrightarrow> pool_inv s \<Longrightarrow> pool_inv t"
  by (induction rule: pool_step.induct)
    (auto intro: pool_Start_inv Resize_inv submit_step_inv worker_step_inv shutdown_step_inv)

interpretation pool: step_invariant "pool_init name n" pool_step pool_inv for name n
  by unfold_locales (auto intro: pool_init_inv pool_step_inv)

interpretation pool_workers: step_invariant "\<lambda>s. pool_inv s" worker_step pool_inv
  by unfold_locales (auto intro: worker_step_inv)

section \<open>Draining\<close>

definition stage_weight :: "'a worker \<Rightarrow> nat" where
  "stage_weight w = (if fst w then 1 else 2) + (case snd w of
     AtSelect \<Rightarrow> 0 | Received _ \<Rightarrow> 4 | Dequeued _ \<Rightarrow> 3 | Processing _ \<Rightarrow> 2 | Counted \<Rightarrow> 1)"

definition work_left :: "'a pool_sys \<Rightarrow> nat" where
  "work_left s = 5 * length (p_input (sy_pool s)) + (\<Sum>w\<in>#sy_workers s. stage_weight w)"

lemma worker_step_work: "worker_step s t \<Longrightarrow> work_left t < work_left s"
  by (induction rule: worker_step.induct) (auto simp: work_left_def stage_weight_def)

lemma worker_step_progress:
  assumes "p_inputClosed (sy_pool s)" "sy_workers s \<noteq> {#}"
  shows "\<exists>t. worker_step s t"
proof -
  obtain d st W where w: "sy_workers s = add_mset (d, st) W"
    using assms(2) by (metis multiset_cases surj_pair)
  show ?thesis
  proof (cases st)
    case AtSelect
    with w assms(1) show ?thesis
      by (cases "p_input (sy_pool s)") (auto intro: worker_step.intros)
  qed (use w in \<open>auto intro: worker_step.intros\<close>)
qed

lemma worker_step_frame:
  "worker_step s t \<Longrightarrow> p_inputClosed (sy_pool s) \<Longrightarrow>
   p_inputClosed (sy_pool t) \<and> sy_sent t = sy_sent s \<and> sy_spawned t = sy_spawned s
   \<and> sy_exit_drained t = sy_exit_drained s"
  by (induction rule: worker_step.induct) auto

lemma worker_steps_frame:
  "worker_step\<^sup>*\<^sup>* s t \<Longrightarrow> p_inputClosed (sy_pool s) \<Longrightarrow>
   p_inputClosed (sy_pool t) \<and> sy_sent t = sy_sent s \<and> sy_spawned t = sy_spawned s
   \<and> sy_exit_drained t = sy_exit_drained s"
  by (induction rule: rtranclp_induct) (auto dest: worker_step_frame)

lemma worker_steps_end: "\<exists>t. worker_step\<^sup>*\<^sup>* s t \<and> \<not> (\<exists>u. worker_step t u)"
proof (induction "work_left s" arbitrary: s rule: less_induct)
  case less
  show ?case
  proof (cases "\<exists>u. worker_step s u")
    case True
    then obtain u where u: "worker_step s u" by blast
    from less [OF worker_step_work [OF u]] u show ?thesis
      by (meson converse_rtranclp_into_rtranclp)
  qed blast
qed

section \<open>Properties of the pool\<close>

text \<open>
  C6: the pool's counters are exact in every reachable state, whatever the interleaving of
  submitters, workers, \<open>Resize\<close> and \<open>Shutdown\<close>. \<open>pending\<close> counts the items in the channel, the
  submitters between their increment and the channel, and the workers between receiving an
  item and decrementing; \<open>active\<close> counts the workers inside \<open>processItem\<close>; every item sent is in
  the channel, in a worker's hand or has been counted once as completed or failed; and the
  channel never holds more than its buffer.
\<close>

theorem pool_accounting:
  assumes "reach (pool_init name concurrency) pool_step s"
  shows "QueueDepth (sy_pool s) = int (length (p_input (sy_pool s)))
       + int (size (filter_mset submit_pending_counted (sy_submitters s)))
       + int (size (filter_mset holding_pending (sy_workers s)))
     \<and> ps_active (Stats (sy_pool s)) = int (size (filter_mset occupied (sy_workers s)))
     \<and> sy_sent s = mset (p_input (sy_pool s)) + (\<Sum>\<^sub># (image_mset in_hand (sy_workers s))) + sy_processed s
     \<and> ps_completed (Stats (sy_pool s)) + ps_failed (Stats (sy_pool s)) = int (size (sy_processed s))
     \<and> (p_input (sy_pool s) = [] \<or> int (length (p_input (sy_pool s))) \<le> p_bufSize (sy_pool s))
     \<and> 1 \<le> Concurrency (sy_pool s)"
  using pool.reach_inv [OF assms]
  by (simp add: pool_inv_def Let_def QueueDepth_def Stats_def Concurrency_def)

text \<open>A run used as an example: one item is submitted to a started pool of one worker.\<close>

definition fresh :: "'a pool_sys" where
  "fresh = \<lparr>sy_pool = NewPool ''p'' 1, sy_workers = {#}, sy_submitters = {#}, sy_sent = {#},
     sy_processed = {#}, sy_spawned = 0, sy_exit_closed = 0, sy_exit_drained = 0, sy_panicked = False\<rparr>"

definition running :: "'a pool_sys" where
  "running = fresh\<lparr>sy_pool := (NewPool ''p'' 1)\<lparr>p_started := True\<rparr>,
     sy_workers := {#(False, AtSelect)#}, sy_spawned := 1\<rparr>"

definition waiting_submit :: "'a \<Rightarrow> 'a pool_sys" where
  "waiting_submit x = running\<lparr>sy_submitters := {#(False, Waiting x)#},
     sy_pool := (sy_pool running)\<lparr>p_pending := 1\<rparr>\<rparr>"

definition item_sent :: "'a \<Rightarrow> 'a pool_sys" where
  "item_sent x = running\<lparr>sy_sent := {#x#},
     sy_pool := (sy_pool running)\<lparr>p_pending := 1, p_input := [x]\<rparr>\<rparr>"

lemmas example_defs = fresh_def running_def waiting_submit_def item_sent_def NewPool_def Let_def

lemma reach_running: "reach (pool_init ''p'' 1) pool_step running"
proof -
  have "reach (pool_init ''p'' 1) pool_step fresh"
    by (rule reach_init) (simp add: pool_init_def fresh_def)
  then show ?thesis
    by (rule reach_step)
      (use start [of fresh] in \<open>simp add: pool_Start_def spawn_def example_defs\<close>)
qed

lemma reach_waiting_submit: "reach (pool_init ''p'' 1) pool_step (waiting_submit x)"
proof -
  let ?s = "running\<lparr>sy_submitters := {#(False, Checked x)#}\<rparr>"
  have a: "submit_step running ?s"
    using submit_checked [of running False x] by (simp add: example_defs submit_check_def)
  have b: "submit_step ?s (waiting_submit x)"
    using submit_pending [of ?s False x "{#}"] by (simp add: example_defs)
  show ?thesis
    by (rule reach_step [OF reach_step [OF reach_running by_submitter [OF a]] by_submitter [OF b]])
qed

lemma reach_item_sent: "reach (pool_init ''p'' 1) pool_step (item_sent x)"
proof -
  have "submit_step (waiting_submit x) (item_sent x)"
    using submit_send [of "waiting_submit x" False x "{#}"] by (simp add: example_defs wrap64_def)
  then show ?thesis by (rule reach_step [OF reach_waiting_submit by_submitter])
qed

theorem pool_accounting_witness:
  "QueueDepth (sy_pool (item_sent (7 :: nat))) = 1
   \<and> int (length (p_input (sy_pool (item_sent (7 :: nat))))) \<le> p_bufSize (sy_pool (item_sent (7 :: nat)))"
  using pool_accounting [OF reach_item_sent [of "7 :: nat"]] by (simp add: example_defs pool_stage_defs)

text \<open>
  C36: a shut down pool drains. In any reachable state in which \<open>Shutdown\<close> has closed the channel
  and a worker is alive, the workers always reach the end of their loops after finitely many
  steps of their own, and however they get there, at that point no worker is left, every item
  ever sent has been processed and counted, and no worker is active: this is when \<open>Shutdown\<close>
  returns nil.
\<close>

theorem pool_shutdown_drains:
  assumes "reach (pool_init name concurrency) pool_step (s :: 'a pool_sys)"
    and "p_inputClosed (sy_pool s)" and "sy_workers s \<noteq> {#}"
  shows "(\<exists>t. worker_step\<^sup>*\<^sup>* s t \<and> \<not> (\<exists>u. worker_step t u))
     \<and> (\<forall>t u :: 'a pool_sys. worker_step t u \<longrightarrow> work_left u < work_left t)
     \<and> (\<forall>t. worker_step\<^sup>*\<^sup>* s t \<longrightarrow> \<not> (\<exists>u. worker_step t u) \<longrightarrow>
          sy_workers t = {#} \<and> sy_processed t = sy_sent s \<and> p_active (sy_pool t) = 0
          \<and> p_completed (sy_pool t) + p_failed (sy_pool t) = int (size (sy_sent s)))"
proof (intro conjI allI impI)
  show "\<exists>t. worker_step\<^sup>*\<^sup>* s t \<and> \<not> (\<exists>u. worker_step t u)" by (rule worker_steps_end)
  show "work_left u < work_left t" if "worker_step t u" for t u :: "'a pool_sys"
    using that by (rule worker_step_work)
  fix t assume t: "worker_step\<^sup>*\<^sup>* s t" "\<not> (\<exists>u. worker_step t u)"
  note inv = pool.reach_inv [OF assms(1)] pool_workers.steps_inv [OF t(1) pool.reach_inv [OF assms(1)]]
  note frame = worker_steps_frame [OF t(1) assms(2)]
  show none: "sy_workers t = {#}" using worker_step_progress [of t] frame t(2) by blast
  have "0 < sy_exit_closed t"
    using inv frame none assms(3) by (simp add: pool_inv_def Let_def)
      (metis add_gr_0 not_gr_zero size_eq_0_iff_empty)
  then show "sy_processed t = sy_sent s" "p_active (sy_pool t) = 0"
    "p_completed (sy_pool t) + p_failed (sy_pool t) = int (size (sy_sent s))"
    using inv(2) frame none by (auto simp: pool_inv_def Let_def)
qed

definition closing :: "'a pool_sys \<Rightarrow> 'a pool_sys" where
  "closing s = s\<lparr>sy_pool := (sy_pool s)\<lparr>p_stopped := True, p_doneClosed := True, p_inputClosed := True\<rparr>\<rparr>"

lemma reach_closing:
  assumes "reach init pool_step s" "\<not> p_stopped (sy_pool s)" "\<not> p_doneClosed (sy_pool s)"
    "\<not> p_inputClosed (sy_pool s)"
  shows "reach init pool_step (closing s)"
proof -
  let ?s1 = "s\<lparr>sy_pool := (sy_pool s)\<lparr>p_stopped := True\<rparr>\<rparr>"
  let ?s2 = "s\<lparr>sy_pool := (sy_pool s)\<lparr>p_stopped := True, p_doneClosed := True\<rparr>\<rparr>"
  have "shutdown_step s ?s1" using shutdown_swap [of s] assms by simp
  moreover have "shutdown_step ?s1 ?s2" using shutdown_done [of ?s1] assms by simp
  moreover have "shutdown_step ?s2 (closing s)" using shutdown_close [of ?s2] assms by (simp add: closing_def)
  ultimately show ?thesis using assms(1) by (blast intro: reach_step by_shutdown)
qed

theorem pool_shutdown_drains_witness:
  "\<exists>t. worker_step\<^sup>*\<^sup>* (closing (item_sent (7 :: nat))) t \<and> sy_workers t = {#} \<and> sy_processed t = {#7#}"
proof -
  have r: "reach (pool_init ''p'' 1) pool_step (closing (item_sent (7 :: nat)))"
    by (rule reach_closing [OF reach_item_sent]) (simp_all add: example_defs)
  have c: "p_inputClosed (sy_pool (closing (item_sent (7 :: nat))))"
    "sy_workers (closing (item_sent (7 :: nat))) \<noteq> {#}" "sy_sent (closing (item_sent (7 :: nat))) = {#7#}"
    by (simp_all add: closing_def example_defs)
  from pool_shutdown_drains [OF r c(1,2)] c(3) show ?thesis by metis
qed

text \<open>
  \<open>Submit\<close> can panic when it races with \<open>Shutdown\<close>. There is a run in which a submitter passes
  the check of \<open>stopped\<close> and increments \<open>pending\<close>, \<open>Shutdown\<close> then closes both channels, and the
  submitter's \<open>select\<close>, with both cases ready, takes the send on the closed channel, although the
  method's comment promises an error.
\<close>

theorem submit_shutdown_race_panics:
  "\<exists>s. reach (pool_init ''p'' 1) pool_step (s :: 'a pool_sys) \<and> sy_panicked s"
proof -
  fix x :: 'a
  let ?s = "closing (waiting_submit x)"
  have "reach (pool_init ''p'' 1) pool_step ?s"
    by (rule reach_closing [OF reach_waiting_submit]) (simp_all add: example_defs)
  moreover have "submit_step ?s (?s\<lparr>sy_panicked := True\<rparr>)"
    by (rule submit_panic [of _ False x "{#}"]) (simp_all add: closing_def example_defs)
  ultimately show ?thesis by (intro exI [of _ "?s\<lparr>sy_panicked := True\<rparr>"]) (auto intro: reach_step by_submitter)
qed

text \<open>
  \<open>WaitIdle\<close> can return before all submitted items have been processed. Between a worker's
  decrement of \<open>pending\<close> and its increment of \<open>active\<close> both counters are zero, so a poll at that
  moment reports an idle pool although the item has been sent and not processed.
\<close>

theorem wait_idle_misses_dequeued_item:
  "\<exists>s. reach (pool_init ''p'' 1) pool_step (s :: 'a pool_sys)
     \<and> WaitIdle [(sy_pool s, None)] = Some None \<and> sy_processed s = {#} \<and> size (sy_sent s) = 1"
proof -
  fix x :: 'a
  let ?s1 = "(item_sent x)\<lparr>sy_workers := {#(False, Received x)#},
    sy_pool := (sy_pool (item_sent x))\<lparr>p_input := []\<rparr>\<rparr>"
  let ?s2 = "?s1\<lparr>sy_workers := {#(False, Dequeued x)#}, sy_pool := (sy_pool ?s1)\<lparr>p_pending := 0\<rparr>\<rparr>"
  have a: "worker_step (item_sent x) ?s1"
    using worker_receive [of "item_sent x" False "{#}" x "[]"] by (simp add: example_defs)
  have b: "worker_step ?s1 ?s2"
    using worker_dequeue [of ?s1 False x "{#}"] by (simp add: example_defs)
  have "reach (pool_init ''p'' 1) pool_step ?s2"
    by (rule reach_step [OF reach_step [OF reach_item_sent by_worker [OF a]] by_worker [OF b]])
  then show ?thesis by (intro exI [of _ ?s2]) (simp add: example_defs)
qed

text \<open>
  Reducing the concurrency stops no worker. \<open>Resize\<close> to a smaller number changes the recorded
  concurrency only; the comment says that excess workers finish their current item and exit.
  Resizing down and up again therefore leaves more workers than the recorded concurrency.
\<close>

theorem resize_down_keeps_workers:
  assumes "n < p_concurrency (sy_pool s)" "1 \<le> n" "n < m"
  shows "sy_workers (Resize n s) = sy_workers s
     \<and> size (sy_workers (Resize m (Resize n s))) = size (sy_workers s) + nat (m - n)
     \<and> Concurrency (sy_pool (Resize m (Resize n s))) = m"
  using assms by (simp add: Resize_def spawn_def Concurrency_def Let_def)

theorem resize_down_keeps_workers_witness:
  "size (sy_workers (Resize 4 (Resize 1 (Resize 4 (running :: nat pool_sys))))) = 7
   \<and> Concurrency (sy_pool (Resize 4 (Resize 1 (Resize 4 (running :: nat pool_sys))))) = 4"
  using resize_down_keeps_workers [of 1 "Resize 4 (running :: nat pool_sys)" 4]
  by (simp add: Resize_def spawn_def example_defs)

end
