(* ===== verification/Supervisor.thy ===== *)
theory Supervisor
  imports Pool Protocol
begin

text \<open>
  \<open>internal/worker/pool/supervisor.go\<close>: named pools with health checks, manual scaling and the
  auto-scaler. A managed pool holds the pool with its goroutines in place of the closures the
  Go code makes over it. The iteration order of the Go map matters only for the order of the
  errors \<open>Stop\<close> joins, where it is an argument.
\<close>

datatype health_status = HealthStatusHealthy | HealthStatusDegraded | HealthStatusUnhealthy

record pool_health =
  ph_name :: string
  ph_status :: health_status
  ph_stats :: pool_stats
  ph_queue_depth :: int

record scale_config =
  MinWorkers :: int
  MaxWorkers :: int
  ScaleUpThreshold :: int
  ScaleDownThreshold :: int
  CooldownPeriod :: duration

record 'a managed_pool =
  mp_sys :: "'a pool_sys"
  mp_scaleConfig :: "scale_config option"
  mp_lastScale :: time

record 'a supervisor =
  sv_pools :: "string \<rightharpoonup> 'a managed_pool"
  sv_ctx :: bool
  sv_cancelled :: bool
  sv_autoScaleInterval :: duration
  sv_running :: bool

definition NewSupervisor :: "duration \<Rightarrow> 'a supervisor" where
  "NewSupervisor autoScaleInterval =
    \<lparr>sv_pools = Map.empty, sv_ctx = False, sv_cancelled = False,
     sv_autoScaleInterval = (if autoScaleInterval \<le> 0 then 5000000000 else autoScaleInterval),
     sv_running = False\<rparr>"

definition mp_concurrency :: "'a managed_pool \<Rightarrow> int" where
  "mp_concurrency mp = Concurrency (sy_pool (mp_sys mp))"

definition mp_queueDepth :: "'a managed_pool \<Rightarrow> int" where
  "mp_queueDepth mp = QueueDepth (sy_pool (mp_sys mp))"

definition Register :: "'a pool_sys \<Rightarrow> scale_config option \<Rightarrow> 'a supervisor
    \<Rightarrow> go_error option \<times> 'a supervisor" where
  "Register p scaleConfig s =
    (let name = pool_Name (sy_pool p)
     in if name \<in> dom (sv_pools s)
        then (Some (NewError (''pool '' @ quoted name @ '' already registered'')), s)
        else (None, s\<lparr>sv_pools := (sv_pools s)(name \<mapsto>
                \<lparr>mp_sys = p, mp_scaleConfig = scaleConfig, mp_lastScale = zero_time\<rparr>)\<rparr>))"

definition map_pools :: "(string \<Rightarrow> 'a managed_pool \<Rightarrow> 'a managed_pool) \<Rightarrow> 'a supervisor \<Rightarrow> 'a supervisor" where
  "map_pools f s = s\<lparr>sv_pools := (\<lambda>name. map_option (f name) (sv_pools s name))\<rparr>"

definition sup_Start :: "'a supervisor \<Rightarrow> 'a supervisor" where
  "sup_Start s =
    (if sv_running s then s
     else map_pools (\<lambda>_ mp. mp\<lparr>mp_sys := pool_Start (mp_sys mp)\<rparr>)
            (s\<lparr>sv_ctx := True, sv_cancelled := False, sv_running := True\<rparr>))"

text \<open>\<open>shutdownFn\<close> is the pool's \<open>Shutdown\<close>: its error, and the pool after it.\<close>

definition sup_Stop :: "(string \<Rightarrow> 'a pool_sys \<Rightarrow> go_error option \<times> 'a pool_sys) \<Rightarrow> string list
    \<Rightarrow> 'a supervisor \<Rightarrow> go_error option \<times> 'a supervisor" where
  "sup_Stop shutdownFn order s =
    (if \<not> sv_running s then (None, s)
     else let errs = concat (map (\<lambda>name. case sv_pools s name of None \<Rightarrow> []
                 | Some mp \<Rightarrow> (case fst (shutdownFn name (mp_sys mp)) of None \<Rightarrow> []
                     | Some err \<Rightarrow> [Wrapped (''pool '' @ name @ '': '') err])) order)
          in (if errs = [] then None else Some (Joined errs),
              map_pools (\<lambda>name mp. mp\<lparr>mp_sys := snd (shutdownFn name (mp_sys mp))\<rparr>)
                (s\<lparr>sv_running := False, sv_cancelled := True\<rparr>)))"

text \<open>
  \<open>resizeFunc(s.ctx, n)\<close>: before \<open>Start\<close> the supervisor's context is nil, and a worker started
  with it panics in \<open>ctx.Done()\<close>: \<open>None\<close>.
\<close>

definition resizeFunc :: "bool \<Rightarrow> int \<Rightarrow> time \<Rightarrow> 'a managed_pool \<Rightarrow> 'a managed_pool option" where
  "resizeFunc ctx n now mp =
    (if \<not> ctx \<and> n > mp_concurrency mp then None
     else Some (mp\<lparr>mp_sys := Resize n (mp_sys mp), mp_lastScale := now\<rparr>))"

definition ScaleUp :: "string \<Rightarrow> int \<Rightarrow> time \<Rightarrow> 'a supervisor \<Rightarrow> (go_error option \<times> 'a supervisor) option" where
  "ScaleUp name delta now s = (case sv_pools s name of
     None \<Rightarrow> Some (Some (NewError (''pool '' @ quoted name @ '' not found'')), s)
   | Some mp \<Rightarrow>
      let newSize = wrap64 (mp_concurrency mp + delta);
          newSize = (case mp_scaleConfig mp of
              Some sc \<Rightarrow> if newSize > MaxWorkers sc then MaxWorkers sc else newSize
            | None \<Rightarrow> newSize)
      in map_option (\<lambda>mp. (None, s\<lparr>sv_pools := (sv_pools s)(name \<mapsto> mp)\<rparr>))
           (resizeFunc (sv_ctx s) newSize now mp))"

definition ScaleDown :: "string \<Rightarrow> int \<Rightarrow> time \<Rightarrow> 'a supervisor \<Rightarrow> (go_error option \<times> 'a supervisor) option" where
  "ScaleDown name delta now s = (case sv_pools s name of
     None \<Rightarrow> Some (Some (NewError (''pool '' @ quoted name @ '' not found'')), s)
   | Some mp \<Rightarrow>
      let newSize = wrap64 (mp_concurrency mp - delta);
          newSize = (case mp_scaleConfig mp of
              Some sc \<Rightarrow> if newSize < MinWorkers sc then MinWorkers sc else newSize
            | None \<Rightarrow> newSize);
          newSize = (if newSize < 1 then 1 else newSize)
      in map_option (\<lambda>mp. (None, s\<lparr>sv_pools := (sv_pools s)(name \<mapsto> mp)\<rparr>))
           (resizeFunc (sv_ctx s) newSize now mp))"

text \<open>
  The status of one pool. The failure rate is a \<open>float64\<close> quotient compared with 0.5 and 0.1;
  for fewer than \<open>2 ^ 49\<close> items the rounded quotient is above the constant exactly when the
  quotient is above one half, one tenth, so the comparisons are written on the integers.
\<close>

definition depth_status :: "scale_config option \<Rightarrow> int \<Rightarrow> int \<Rightarrow> health_status" where
  "depth_status scaleConfig concurrency depth = (case scaleConfig of
     Some sc \<Rightarrow>
       if depth > wrap64 (ScaleUpThreshold sc * 2) then HealthStatusUnhealthy
       else if depth > ScaleUpThreshold sc then HealthStatusDegraded
       else HealthStatusHealthy
   | None \<Rightarrow>
       if concurrency > 0 \<and> depth > wrap64 (concurrency * 4) then HealthStatusUnhealthy
       else if concurrency > 0 \<and> depth > wrap64 (concurrency * 2) then HealthStatusDegraded
       else HealthStatusHealthy)"

definition rate_status :: "pool_stats \<Rightarrow> health_status \<Rightarrow> health_status" where
  "rate_status stats status =
    (if ps_failed stats > 0 \<and> ps_completed stats > 0
     then (let count = wrap64 (ps_failed stats + ps_completed stats)
           in if 2 * ps_failed stats > count then HealthStatusUnhealthy
              else if 10 * ps_failed stats > count then HealthStatusDegraded
              else status)
     else status)"

definition pool_health_of :: "string \<Rightarrow> 'a managed_pool \<Rightarrow> pool_health" where
  "pool_health_of name mp =
    (let stats = Stats (sy_pool (mp_sys mp));
         depth = mp_queueDepth mp
     in \<lparr>ph_name = name,
         ph_status = rate_status stats (depth_status (mp_scaleConfig mp) (mp_concurrency mp) depth),
         ph_stats = stats, ph_queue_depth = depth\<rparr>)"

definition HealthCheck :: "'a supervisor \<Rightarrow> string \<rightharpoonup> pool_health" where
  "HealthCheck s = (\<lambda>name. map_option (pool_health_of name) (sv_pools s name))"


text \<open>One pool's turn in \<open>evaluateScaling\<close>; the loop runs only after \<open>Start\<close>, so the context is set.\<close>

definition scaled_size :: "scale_config \<Rightarrow> int \<Rightarrow> int \<Rightarrow> int option" where
  "scaled_size sc depth current =
    (if depth > ScaleUpThreshold sc \<and> current < MaxWorkers sc
     then (let increase = current sdiv 2;
               increase = (if increase < 1 then 1 else increase);
               newSize = wrap64 (current + increase)
           in Some (if newSize > MaxWorkers sc then MaxWorkers sc else newSize))
     else if depth < ScaleDownThreshold sc \<and> current > MinWorkers sc
     then (let decrease = current sdiv 4;
               decrease = (if decrease < 1 then 1 else decrease);
               newSize = wrap64 (current - decrease)
           in Some (if newSize < MinWorkers sc then MinWorkers sc else newSize))
     else None)"

definition evaluate_pool :: "time \<Rightarrow> 'a managed_pool \<Rightarrow> 'a managed_pool" where
  "evaluate_pool now mp = (case mp_scaleConfig mp of
     None \<Rightarrow> mp
   | Some sc \<Rightarrow>
       if time_sub now (mp_lastScale mp) < CooldownPeriod sc then mp
       else (case scaled_size sc (mp_queueDepth mp) (mp_concurrency mp) of
               None \<Rightarrow> mp
             | Some n \<Rightarrow> mp\<lparr>mp_sys := Resize n (mp_sys mp), mp_lastScale := now\<rparr>))"



section \<open>Lemmas\<close>

lemma map_pools_lookup [simp]: "sv_pools (map_pools f s) name = map_option (f name) (sv_pools s name)"
  by (simp add: map_pools_def)

lemma Resize_concurrency [simp]:
  "Concurrency (sy_pool (Resize n s)) = (if n < 1 then 1 else n)"
  by (simp add: Resize_def Concurrency_def Let_def)

lemma Resize_depth [simp]: "QueueDepth (sy_pool (Resize n s)) = QueueDepth (sy_pool s)"
  by (simp add: Resize_def QueueDepth_def Let_def)

text \<open>A scale configuration that makes sense, and a pool whose size respects it.\<close>

definition sc_wf :: "scale_config \<Rightarrow> bool" where
  "sc_wf sc \<longleftrightarrow> 1 \<le> MinWorkers sc \<and> MinWorkers sc \<le> MaxWorkers sc \<and> MaxWorkers sc < 2 ^ 61"



lemma scaled_size_spec:
  assumes "sc_wf sc" "MinWorkers sc \<le> current" "current \<le> MaxWorkers sc"
  shows "scaled_size sc depth current =
    (if depth > ScaleUpThreshold sc \<and> current < MaxWorkers sc
     then Some (min (MaxWorkers sc) (current + max 1 (current div 2)))
     else if depth < ScaleDownThreshold sc \<and> current > MinWorkers sc
     then Some (max (MinWorkers sc) (current - max 1 (current div 4)))
     else None)"
proof -
  have c: "0 \<le> current" "current < 2 ^ 61" using assms by (auto simp: sc_wf_def)
  define i d where "i = max 1 (current div 2)" and "d = max 1 (current div 4)"
  have at_least_one: "1 \<le> max 1 q \<and> max 1 q \<le> c + 1" if "0 \<le> q \<and> q \<le> c" for q c :: int
    using that by (simp add: max_def)
  have sizes: "1 \<le> i" "i \<le> current + 1" "1 \<le> d" "d \<le> current + 1"
    using at_least_one [OF int_div_le [OF c(1), of 2]] at_least_one [OF int_div_le [OF c(1), of 4]]
    unfolding i_def d_def by simp_all
  then have wraps: "wrap64 (current + i) = current + i" "wrap64 (current - d) = current - d"
    using c by (auto intro!: wrap64_id simp: in_i64_def)
  have ifs: "(if x < (1::int) then 1 else x) = max 1 x" "(if x > y then y else x) = min y x"
    "(if x < y then y else x) = max y x" for x y :: int by auto
  show ?thesis
    unfolding scaled_size_def Let_def sdiv_nonneg [OF c(1) zero_less_numeral] ifs
      i_def [symmetric] d_def [symmetric] wraps ..
qed




section \<open>Properties of the supervisor\<close>


definition small_config :: scale_config where
  "small_config = \<lparr>MinWorkers = 2, MaxWorkers = 6, ScaleUpThreshold = 10, ScaleDownThreshold = 3,
     CooldownPeriod = 1000\<rparr>"

text \<open>A pool of \<open>n\<close> workers with \<open>depth\<close> items counted as pending.\<close>

definition loaded_pool :: "int \<Rightarrow> int \<Rightarrow> scale_config option \<Rightarrow> nat managed_pool" where
  "loaded_pool n depth sc = \<lparr>mp_sys = fresh\<lparr>sy_pool := (NewPool ''p'' n)\<lparr>p_pending := depth\<rparr>\<rparr>,
     mp_scaleConfig = sc, mp_lastScale = zero_time\<rparr>"


lemma loaded_pool_simps [simp]:
  "mp_scaleConfig (loaded_pool n d sc) = sc" "mp_lastScale (loaded_pool n d sc) = zero_time"
  "mp_queueDepth (loaded_pool n d sc) = d" "mp_concurrency (loaded_pool n d sc) = max 1 n"
  by (simp_all add: loaded_pool_def mp_queueDepth_def mp_concurrency_def QueueDepth_def
      Concurrency_def NewPool_def Let_def)


text \<open>
  Under sustained load a pool reaches its maximum. If a pool's queue stays above the upper
  threshold and evaluations are at least a cooldown period apart, then after at most
  \<open>MaxWorkers\<close> minus its current size evaluations it has \<open>MaxWorkers\<close> workers, and it stays there.
\<close>

fun spaced :: "duration \<Rightarrow> time \<Rightarrow> time list \<Rightarrow> bool" where
  "spaced c u [] = True"
| "spaced c u (t # ts) = (c \<le> time_sub t u \<and> spaced c t ts)"

lemma evaluate_pool_up:
  assumes "mp_scaleConfig mp = Some sc" "sc_wf sc" "mp_queueDepth mp > ScaleUpThreshold sc"
    and "MinWorkers sc \<le> mp_concurrency mp" "mp_concurrency mp < MaxWorkers sc"
    and "CooldownPeriod sc \<le> time_sub now (mp_lastScale mp)"
  shows "mp_concurrency (evaluate_pool now mp)
         = min (MaxWorkers sc) (mp_concurrency mp + max 1 (mp_concurrency mp div 2))
     \<and> mp_lastScale (evaluate_pool now mp) = now
     \<and> mp_scaleConfig (evaluate_pool now mp) = Some sc
     \<and> mp_queueDepth (evaluate_pool now mp) = mp_queueDepth mp"
proof -
  define n where "n = min (MaxWorkers sc) (mp_concurrency mp + max 1 (mp_concurrency mp div 2))"
  have "scaled_size sc (mp_queueDepth mp) (mp_concurrency mp) = Some n"
    using scaled_size_spec [OF assms(2,4), of "mp_queueDepth mp"] assms(3,5) by (simp add: n_def)
  moreover have "1 \<le> n" using assms(2,4) by (auto simp: n_def sc_wf_def)
  ultimately show ?thesis using assms(1,6) unfolding n_def [symmetric]
    by (simp add: evaluate_pool_def mp_concurrency_def mp_queueDepth_def)
qed

lemma evaluate_pool_at_max:
  assumes "mp_scaleConfig mp = Some sc" "mp_queueDepth mp > ScaleUpThreshold sc"
    and "ScaleDownThreshold sc \<le> ScaleUpThreshold sc" "mp_concurrency mp = MaxWorkers sc"
  shows "evaluate_pool now mp = mp"
  using assms by (simp add: evaluate_pool_def scaled_size_def)

lemma fold_at_max:
  assumes "mp_scaleConfig mp = Some sc" "mp_queueDepth mp > ScaleUpThreshold sc"
    and "ScaleDownThreshold sc \<le> ScaleUpThreshold sc" "mp_concurrency mp = MaxWorkers sc"
  shows "fold evaluate_pool ts mp = mp"
  using evaluate_pool_at_max [OF assms] by (induction ts) auto

theorem autoscale_reaches_max:
  assumes "mp_scaleConfig mp = Some sc" "sc_wf sc" "mp_queueDepth mp > ScaleUpThreshold sc"
    and "ScaleDownThreshold sc \<le> ScaleUpThreshold sc"
    and "MinWorkers sc \<le> mp_concurrency mp" "mp_concurrency mp \<le> MaxWorkers sc"
    and "spaced (CooldownPeriod sc) (mp_lastScale mp) ts"
    and "MaxWorkers sc - mp_concurrency mp \<le> int (length ts)"
  shows "mp_concurrency (fold evaluate_pool ts mp) = MaxWorkers sc"
  using assms
proof (induction ts arbitrary: mp)
  case (Cons t ts)
  show ?case
  proof (cases "mp_concurrency mp = MaxWorkers sc")
    case True
    with Cons.prems show ?thesis using fold_at_max [of mp sc "t # ts"] by simp
  next
    case False
    let ?mp = "evaluate_pool t mp"
    have up: "mp_concurrency ?mp = min (MaxWorkers sc) (mp_concurrency mp + max 1 (mp_concurrency mp div 2))"
      "mp_lastScale ?mp = t" "mp_scaleConfig ?mp = Some sc" "mp_queueDepth ?mp = mp_queueDepth mp"
      using evaluate_pool_up [OF Cons.prems(1-3,5), of t] False Cons.prems(6,7) by auto
    have "mp_concurrency (fold evaluate_pool ts ?mp) = MaxWorkers sc"
      by (rule Cons.IH) (use up Cons.prems False in auto)
    then show ?thesis by simp
  qed
qed simp

theorem autoscale_reaches_max_witness:
  "mp_concurrency (fold evaluate_pool [0, 5000, 10000, 15000] (loaded_pool 2 50 (Some small_config))) = 6"
  using autoscale_reaches_max [of "loaded_pool 2 50 (Some small_config)" small_config "[0, 5000, 10000, 15000]"]
  by (simp add: small_config_def sc_wf_def time_sub_def zero_time_def)

text \<open>
  The health status. While the pool has no failures, or no completions, it follows the queue
  depth alone; a failure rate above one half always makes the pool unhealthy; but a failure rate
  between one tenth and one half reports it as degraded even when its queue alone would make it
  unhealthy, so more failures can make the reported status better.
\<close>

theorem health_check_statuses:
  assumes "sv_pools s name = Some mp"
    and "stats = Stats (sy_pool (mp_sys mp))"
    and "0 \<le> ps_failed stats" "0 \<le> ps_completed stats" "ps_failed stats + ps_completed stats < 2 ^ 49"
  shows "\<exists>h. HealthCheck s name = Some h \<and> ph_queue_depth h = mp_queueDepth mp
     \<and> (ps_failed stats = 0 \<or> ps_completed stats = 0 \<longrightarrow>
          ph_status h = depth_status (mp_scaleConfig mp) (mp_concurrency mp) (mp_queueDepth mp))
     \<and> (0 < ps_completed stats \<and> ps_failed stats > ps_completed stats \<longrightarrow> ph_status h = HealthStatusUnhealthy)
     \<and> (0 < ps_completed stats \<and> ps_failed stats \<le> ps_completed stats
          \<and> 9 * ps_failed stats > ps_completed stats \<longrightarrow> ph_status h = HealthStatusDegraded)"
proof -
  have "wrap64 (ps_failed stats + ps_completed stats) = ps_failed stats + ps_completed stats"
    using assms(3-5) by (intro wrap64_id) (simp add: in_i64_def)
  with assms show ?thesis
    by (auto simp: HealthCheck_def pool_health_of_def rate_status_def Let_def)
qed

definition failing_pool :: "nat managed_pool" where
  "failing_pool = (loaded_pool 2 50 (Some small_config))\<lparr>mp_sys := fresh\<lparr>sy_pool :=
     (NewPool ''p'' 2)\<lparr>p_pending := 50, p_completed := 80, p_failed := 20\<rparr>\<rparr>\<rparr>"

definition failing_supervisor :: "nat supervisor" where
  "failing_supervisor = (NewSupervisor 0)\<lparr>sv_pools := [''p'' \<mapsto> failing_pool]\<rparr>"

theorem health_check_statuses_witness:
  "depth_status (Some small_config) 2 50 = HealthStatusUnhealthy
   \<and> (\<exists>h. HealthCheck failing_supervisor ''p'' = Some h \<and> ph_status h = HealthStatusDegraded)"
  using health_check_statuses [of failing_supervisor "''p''" failing_pool "Stats (sy_pool (mp_sys failing_pool))"]
  by (auto simp: failing_supervisor_def failing_pool_def Stats_def depth_status_def small_config_def
      wrap64_def)

end
