(* ===== verification/Rbac.thy ===== *)
theory Rbac
  imports Errors
begin

text \<open>
  \<open>internal/security/rbac\<close>: roles and their permissions, the store of role assignments with its
  in-memory implementation, the permission check with tenant isolation and scopes, and the
  built-in policies. The store is used through the interface \<open>role_store\<close>.
\<close>

section \<open>Resources, actions, roles\<close>

definition ResourceConnector :: string where "ResourceConnector = ''connector''"
definition ResourceConnection :: string where "ResourceConnection = ''connection''"
definition ResourceSync :: string where "ResourceSync = ''sync''"
definition ResourceTenant :: string where "ResourceTenant = ''tenant''"
definition ResourceSchema :: string where "ResourceSchema = ''schema''"
definition ResourceMCPServer :: string where "ResourceMCPServer = ''mcp_server''"
definition ResourceAuditLog :: string where "ResourceAuditLog = ''audit_log''"

definition ActionCreate :: string where "ActionCreate = ''create''"
definition ActionRead :: string where "ActionRead = ''read''"
definition ActionUpdate :: string where "ActionUpdate = ''update''"
definition ActionDelete :: string where "ActionDelete = ''delete''"
definition ActionExecute :: string where "ActionExecute = ''execute''"
definition ActionManage :: string where "ActionManage = ''manage''"

lemmas resource_defs = ResourceConnector_def ResourceConnection_def ResourceSync_def ResourceTenant_def
  ResourceSchema_def ResourceMCPServer_def ResourceAuditLog_def

lemmas action_defs = ActionCreate_def ActionRead_def ActionUpdate_def ActionDelete_def
  ActionExecute_def ActionManage_def

record permission =
  perm_resource :: string
  perm_actions :: "string list"

record role =
  role_name :: string
  role_description :: string
  role_permissions :: "permission list"

definition HasPermission :: "role \<Rightarrow> string \<Rightarrow> string \<Rightarrow> bool" where
  "HasPermission r resource action =
    list_ex (\<lambda>perm. (perm_resource perm = resource \<or> perm_resource perm = ''*'')
               \<and> list_ex (\<lambda>a. a = action \<or> a = ''*'') (perm_actions perm))
      (role_permissions r)"

section \<open>The store of role assignments\<close>

record role_assignment =
  ra_principal :: string
  ra_tenant :: string
  ra_role :: string

type_synonym assignments = "role_assignment list"

definition NewInMemoryRoleStore :: assignments where
  "NewInMemoryRoleStore = []"

definition GetRoleAssignments :: "assignments \<Rightarrow> string \<Rightarrow> string \<Rightarrow> role_assignment list result" where
  "GetRoleAssignments s principalID tenantID =
     Inr (filter (\<lambda>a. ra_principal a = principalID \<and> ra_tenant a = tenantID) s)"

definition store_AssignRole :: "role_assignment \<Rightarrow> assignments \<Rightarrow> go_error option \<times> assignments" where
  "store_AssignRole assignment s =
    (if list_ex (\<lambda>a. ra_principal a = ra_principal assignment \<and> ra_tenant a = ra_tenant assignment
                    \<and> ra_role a = ra_role assignment) s
     then (None, s) else (None, s @ [assignment]))"

definition is_assignment :: "string \<Rightarrow> string \<Rightarrow> string \<Rightarrow> role_assignment \<Rightarrow> bool" where
  "is_assignment principalID tenantID roleName a \<longleftrightarrow>
     ra_principal a = principalID \<and> ra_tenant a = tenantID \<and> ra_role a = roleName"

text \<open>The loop of \<open>RevokeRole\<close>: the assignments kept and whether one was found.\<close>

fun revoke_loop :: "string \<Rightarrow> string \<Rightarrow> string \<Rightarrow> assignments \<Rightarrow> assignments \<Rightarrow> bool \<Rightarrow> assignments \<times> bool" where
  "revoke_loop principalID tenantID roleName filtered [] found = (filtered, found)"
| "revoke_loop principalID tenantID roleName filtered (a # rest) found =
    (if is_assignment principalID tenantID roleName a
     then revoke_loop principalID tenantID roleName filtered rest True
     else revoke_loop principalID tenantID roleName (filtered @ [a]) rest found)"

definition store_RevokeRole :: "string \<Rightarrow> string \<Rightarrow> string \<Rightarrow> assignments \<Rightarrow> go_error option \<times> assignments" where
  "store_RevokeRole principalID tenantID roleName s =
    (case revoke_loop principalID tenantID roleName [] s False of
       (filtered, found) \<Rightarrow> (if found then None else Some (Sentinel ErrNotFound), filtered))"

section \<open>The service\<close>

datatype principal_type = PrincipalAPIKey | PrincipalJWT | PrincipalService

record principal =
  pr_id :: string
  pr_tenant :: string
  pr_user :: string
  pr_scopes :: "string list"
  pr_type :: principal_type

text \<open>\<open>strings.SplitN(s, ":", 2)\<close>: one part, or the text before and after the first colon.\<close>

definition split_colon :: "string \<Rightarrow> string list" where
  "split_colon s = (let pre = takeWhile (\<lambda>c. c \<noteq> CHR '':'') s
     in if length pre = length s then [s] else [pre, drop (length pre + 1) s])"

definition scope_matches :: "string \<Rightarrow> string \<Rightarrow> string \<Rightarrow> bool" where
  "scope_matches resource action scope =
    (scope = ''*'' \<or> scope = resource @ '':'' @ action \<or>
     (case split_colon scope of
        [a, b] \<Rightarrow> a = resource \<and> b = ''*'' \<or> a = ''*'' \<and> b = action
      | _ \<Rightarrow> False))"

definition checkScopes :: "principal \<Rightarrow> string \<Rightarrow> string \<Rightarrow> bool" where
  "checkScopes p resource action = list_ex (scope_matches resource action) (pr_scopes p)"

text \<open>
  \<open>CheckPermission\<close>: \<open>ctxTenant\<close> is the tenant of the context, empty when it has none; a nil
  principal and a nil role store are \<open>None\<close>; \<open>None\<close> as the result is the nil error.
\<close>

definition CheckPermission :: "(string \<rightharpoonup> role) \<Rightarrow> (string \<Rightarrow> string \<Rightarrow> role_assignment list result) option
    \<Rightarrow> string \<Rightarrow> principal option \<Rightarrow> string \<Rightarrow> string \<Rightarrow> go_error option" where
  "CheckPermission roles roleStore ctxTenant who resource action = (case who of
     None \<Rightarrow> Some (Wrapped ''no principal provided: '' (Sentinel ErrUnauthorized))
   | Some p \<Rightarrow>
      if ctxTenant \<noteq> [] \<and> pr_tenant p \<noteq> ctxTenant
      then Some (Wrapped ''tenant mismatch: '' (Sentinel ErrForbidden))
      else if checkScopes p resource action then None
      else let denied = Some (Wrapped (''principal '' @ pr_id p @ '' lacks '' @ action @ '' permission on ''
                          @ resource @ '': '') (Sentinel ErrForbidden))
           in case roleStore of
                None \<Rightarrow> denied
              | Some get \<Rightarrow> (case get (pr_id p) (pr_tenant p) of
                   Inl err \<Rightarrow> Some (Wrapped ''fetching role assignments: '' err)
                 | Inr as \<Rightarrow>
                    if list_ex (\<lambda>a. case roles (ra_role a) of
                          None \<Rightarrow> False | Some r \<Rightarrow> HasPermission r resource action) as
                    then None else denied))"

definition rbac_AssignRole :: "(string \<rightharpoonup> role) \<Rightarrow> (role_assignment \<Rightarrow> 'st \<Rightarrow> go_error option \<times> 'st)
    \<Rightarrow> string \<Rightarrow> string \<Rightarrow> string \<Rightarrow> 'st \<Rightarrow> go_error option \<times> 'st" where
  "rbac_AssignRole roles assign principalID tenantID roleName s =
    (case roles roleName of
       None \<Rightarrow> (Some (Wrapped (''unknown role '' @ quoted roleName @ '': '') (Sentinel ErrNotFound)), s)
     | Some _ \<Rightarrow> assign \<lparr>ra_principal = principalID, ra_tenant = tenantID, ra_role = roleName\<rparr> s)"

definition rbac_RevokeRole :: "(string \<Rightarrow> string \<Rightarrow> string \<Rightarrow> 'st \<Rightarrow> go_error option \<times> 'st)
    \<Rightarrow> string \<Rightarrow> string \<Rightarrow> string \<Rightarrow> 'st \<Rightarrow> go_error option \<times> 'st" where
  "rbac_RevokeRole revoke principalID tenantID roleName s = revoke principalID tenantID roleName s"

section \<open>The built-in policies\<close>

definition allActions :: "string list" where
  "allActions = [ActionCreate, ActionRead, ActionUpdate, ActionDelete, ActionExecute, ActionManage]"

definition readOnly :: "string list" where
  "readOnly = [ActionRead]"

definition crudActions :: "string list" where
  "crudActions = [ActionCreate, ActionRead, ActionUpdate, ActionDelete]"

definition adminRole :: role where
  "adminRole = \<lparr>role_name = ''admin'',
     role_description = ''Full administrative access to all resources and actions'',
     role_permissions = [\<lparr>perm_resource = ''*'', perm_actions = [''*'']\<rparr>]\<rparr>"

definition editorRole :: role where
  "editorRole = \<lparr>role_name = ''editor'',
     role_description = ''Create, read, update, and delete connectors, connections, syncs, schemas, and MCP servers'',
     role_permissions =
       [\<lparr>perm_resource = ResourceConnector, perm_actions = crudActions\<rparr>,
        \<lparr>perm_resource = ResourceConnection, perm_actions = crudActions\<rparr>,
        \<lparr>perm_resource = ResourceSync, perm_actions = crudActions @ [ActionExecute]\<rparr>,
        \<lparr>perm_resource = ResourceSchema, perm_actions = crudActions\<rparr>,
        \<lparr>perm_resource = ResourceMCPServer, perm_actions = crudActions\<rparr>]\<rparr>"

definition viewerRole :: role where
  "viewerRole = \<lparr>role_name = ''viewer'', role_description = ''Read-only access to all resources'',
     role_permissions =
       [\<lparr>perm_resource = ResourceConnector, perm_actions = readOnly\<rparr>,
        \<lparr>perm_resource = ResourceConnection, perm_actions = readOnly\<rparr>,
        \<lparr>perm_resource = ResourceSync, perm_actions = readOnly\<rparr>,
        \<lparr>perm_resource = ResourceTenant, perm_actions = readOnly\<rparr>,
        \<lparr>perm_resource = ResourceSchema, perm_actions = readOnly\<rparr>,
        \<lparr>perm_resource = ResourceMCPServer, perm_actions = readOnly\<rparr>,
        \<lparr>perm_resource = ResourceAuditLog, perm_actions = readOnly\<rparr>]\<rparr>"

definition connectorManagerRole :: role where
  "connectorManagerRole = \<lparr>role_name = ''connector_manager'',
     role_description = ''Manage connectors and connections with full lifecycle control'',
     role_permissions =
       [\<lparr>perm_resource = ResourceConnector, perm_actions = allActions\<rparr>,
        \<lparr>perm_resource = ResourceConnection, perm_actions = allActions\<rparr>,
        \<lparr>perm_resource = ResourceSchema, perm_actions = readOnly\<rparr>]\<rparr>"

definition syncOperatorRole :: role where
  "syncOperatorRole = \<lparr>role_name = ''sync_operator'',
     role_description = ''Manage and execute syncs, view connectors and connections'',
     role_permissions =
       [\<lparr>perm_resource = ResourceSync, perm_actions = allActions\<rparr>,
        \<lparr>perm_resource = ResourceConnector, perm_actions = readOnly\<rparr>,
        \<lparr>perm_resource = ResourceConnection, perm_actions = readOnly\<rparr>,
        \<lparr>perm_resource = ResourceSchema, perm_actions = readOnly\<rparr>]\<rparr>"

definition DefaultPolicies :: "string \<rightharpoonup> role" where
  "DefaultPolicies = [''admin'' \<mapsto> adminRole, ''editor'' \<mapsto> editorRole, ''viewer'' \<mapsto> viewerRole,
     ''connector_manager'' \<mapsto> connectorManagerRole, ''sync_operator'' \<mapsto> syncOperatorRole]"

section \<open>The interface of a role store\<close>

text \<open>The roles a store reports for a principal in a tenant.\<close>

definition held :: "(string \<Rightarrow> string \<Rightarrow> role_assignment list result) \<Rightarrow> string \<Rightarrow> string \<Rightarrow> string set" where
  "held get p t = (case get p t of Inl _ \<Rightarrow> {} | Inr as \<Rightarrow> ra_role ` set as)"

definition roles_grant :: "(string \<rightharpoonup> role) \<Rightarrow> string set \<Rightarrow> string \<Rightarrow> string \<Rightarrow> bool" where
  "roles_grant roles names resource action \<longleftrightarrow>
     (\<exists>n \<in> names. \<exists>r. roles n = Some r \<and> HasPermission r resource action)"

locale role_store =
  fixes get :: "'st \<Rightarrow> string \<Rightarrow> string \<Rightarrow> role_assignment list result"
    and assign :: "role_assignment \<Rightarrow> 'st \<Rightarrow> go_error option \<times> 'st"
    and revoke :: "string \<Rightarrow> string \<Rightarrow> string \<Rightarrow> 'st \<Rightarrow> go_error option \<times> 'st"
  assumes get_total: "\<exists>as. get s p t = Inr as"
    and assign_ok: "fst (assign a s) = None"
    and held_assign: "held (get (snd (assign a s))) p t
      = held (get s) p t \<union> (if p = ra_principal a \<and> t = ra_tenant a then {ra_role a} else {})"
    and held_revoke: "held (get (snd (revoke p r n s))) p' r'
      = held (get s) p' r' - (if p' = p \<and> r' = r then {n} else {})"
    and revoke_found: "fst (revoke p r n s) = None \<longleftrightarrow> n \<in> held (get s) p r"
begin

lemma check_permission_held:
  "CheckPermission roles (Some (get s)) ct (Some p) resource action = None \<longleftrightarrow>
     (ct = [] \<or> pr_tenant p = ct) \<and>
     (checkScopes p resource action \<or> roles_grant roles (held (get s) (pr_id p) (pr_tenant p)) resource action)"
proof -
  obtain as where as: "get s (pr_id p) (pr_tenant p) = Inr as" using get_total by blast
  have "list_ex (\<lambda>a. case roles (ra_role a) of None \<Rightarrow> False | Some r \<Rightarrow> HasPermission r resource action) as
      \<longleftrightarrow> roles_grant roles (held (get s) (pr_id p) (pr_tenant p)) resource action"
    by (auto simp: list_ex_iff roles_grant_def held_def as split: option.splits)
  with as show ?thesis by (auto simp: CheckPermission_def Let_def)
qed

lemma assigned_role_grants:
  assumes "roles n = Some r" "HasPermission r resource action" "ct = [] \<or> pr_tenant p = ct"
  shows "fst (rbac_AssignRole roles assign (pr_id p) (pr_tenant p) n s) = None \<and>
    CheckPermission roles (Some (get (snd (rbac_AssignRole roles assign (pr_id p) (pr_tenant p) n s)))) ct
      (Some p) resource action = None"
  using assms by (auto simp: check_permission_held rbac_AssignRole_def assign_ok held_assign roles_grant_def)

lemma others_unaffected:
  assumes "pr_id q \<noteq> i \<or> pr_tenant q \<noteq> t"
  shows "CheckPermission roles (Some (get (snd (rbac_AssignRole roles assign i t n s)))) ct (Some q) resource action = None
      \<longleftrightarrow> CheckPermission roles (Some (get s)) ct (Some q) resource action = None"
    and "CheckPermission roles (Some (get (snd (rbac_RevokeRole revoke i t n s)))) ct (Some q) resource action = None
      \<longleftrightarrow> CheckPermission roles (Some (get s)) ct (Some q) resource action = None"
  using assms by (auto simp: check_permission_held rbac_AssignRole_def rbac_RevokeRole_def held_assign
      held_revoke split: option.splits)

lemma revoke_after_assign:
  assumes "n \<notin> held (get s) i t" "roles n \<noteq> None"
  shows "fst (rbac_RevokeRole revoke i t n (snd (rbac_AssignRole roles assign i t n s))) = None
    \<and> held (get (snd (rbac_RevokeRole revoke i t n (snd (rbac_AssignRole roles assign i t n s))))) = held (get s)"
  using assms by (auto simp: rbac_AssignRole_def rbac_RevokeRole_def held_assign held_revoke revoke_found
      fun_eq_iff)

end

lemma revoke_loop_filter:
  "revoke_loop p t n kept as found
     = (kept @ filter (\<lambda>a. \<not> is_assignment p t n a) as, found \<or> (\<exists>a \<in> set as. is_assignment p t n a))"
  by (induction as arbitrary: kept found) auto

lemma held_in_memory:
  "held (GetRoleAssignments s) p t = {ra_role a |a. a \<in> set s \<and> ra_principal a = p \<and> ra_tenant a = t}"
  by (auto simp: held_def GetRoleAssignments_def)

interpretation in_memory: role_store GetRoleAssignments store_AssignRole store_RevokeRole
proof
  fix s :: assignments and p t n p' t' :: string and a
  show "\<exists>as. GetRoleAssignments s p t = Inr as" by (simp add: GetRoleAssignments_def)
  show "fst (store_AssignRole a s) = None" by (simp add: store_AssignRole_def)
  show "held (GetRoleAssignments (snd (store_AssignRole a s))) p t = held (GetRoleAssignments s) p t
      \<union> (if p = ra_principal a \<and> t = ra_tenant a then {ra_role a} else {})"
    by (auto simp: held_in_memory store_AssignRole_def list_ex_iff) (metis (no_types))
  show "held (GetRoleAssignments (snd (store_RevokeRole p t n s))) p' t'
      = held (GetRoleAssignments s) p' t' - (if p' = p \<and> t' = t then {n} else {})"
    by (auto simp: held_in_memory store_RevokeRole_def revoke_loop_filter is_assignment_def)
  show "fst (store_RevokeRole p t n s) = None \<longleftrightarrow> n \<in> held (GetRoleAssignments s) p t"
    by (auto simp: held_in_memory store_RevokeRole_def revoke_loop_filter is_assignment_def)
qed

text \<open>The in-memory store never holds an assignment twice.\<close>

lemma store_distinct:
  "distinct s \<Longrightarrow> distinct (snd (store_AssignRole a s)) \<and> distinct (snd (store_RevokeRole p t n s))"
  by (auto simp: store_AssignRole_def store_RevokeRole_def revoke_loop_filter list_ex_iff)

section \<open>Properties\<close>

lemma split_colon_pair:
  "CHR '':'' \<notin> set a \<Longrightarrow> split_colon s = [a, b] \<longleftrightarrow> s = a @ '':'' @ b"
proof
  assume a: "CHR '':'' \<notin> set a" and s: "s = a @ '':'' @ b"
  have "takeWhile (\<lambda>c. c \<noteq> CHR '':'') s = a" unfolding s by (subst takeWhile_append2) (use a in auto)
  with s show "split_colon s = [a, b]" by (simp add: split_colon_def Let_def)
next
  assume h: "split_colon s = [a, b]"
  let ?pre = "takeWhile (\<lambda>c. c \<noteq> CHR '':'') s"
  have ab: "a = ?pre" "b = drop (length ?pre + 1) s" "length ?pre \<noteq> length s"
    using h by (auto simp: split_colon_def Let_def split: if_splits)
  have "length ?pre < length s" using ab(3) length_takeWhile_le [of "\<lambda>c. c \<noteq> CHR '':''" s] by linarith
  with nth_length_takeWhile [OF this] have "drop (length ?pre) s = CHR '':'' # drop (length ?pre + 1) s"
    using Cons_nth_drop_Suc [OF \<open>length ?pre < length s\<close>] by simp
  with ab show "s = a @ '':'' @ b"
    by (metis append_Cons append_Nil append_take_drop_id takeWhile_eq_take)
qed

lemma scope_matches_iff:
  assumes "CHR '':'' \<notin> set resource"
  shows "scope_matches resource action scope \<longleftrightarrow>
    scope \<in> {''*'', resource @ '':'' @ action, resource @ '':*'', ''*:'' @ action}"
proof -
  have "(case split_colon scope of [a, b] \<Rightarrow> a = resource \<and> b = ''*'' \<or> a = ''*'' \<and> b = action | _ \<Rightarrow> False)
      \<longleftrightarrow> split_colon scope = [resource, ''*''] \<or> split_colon scope = [''*'', action]"
    by (auto split: list.splits)
  then show ?thesis using assms by (auto simp: scope_matches_def split_colon_pair)
qed

text \<open>
  C16: the permission check, exactly. For a resource name without a colon, access is allowed if and
  only if a principal is given, the tenant of the context is absent or the principal's own, and
  either one of the principal's scopes is \<open>*\<close>, \<open>resource:action\<close>, \<open>resource:*\<close> or \<open>*:action\<close>, or the
  store assigns the principal, in its own tenant, a defined role with the permission.
\<close>

theorem check_permission_iff:
  assumes "CHR '':'' \<notin> set resource"
  shows "CheckPermission roles (Some (GetRoleAssignments s)) ctxTenant who resource action = None \<longleftrightarrow>
    (\<exists>p. who = Some p \<and> (ctxTenant = [] \<or> pr_tenant p = ctxTenant) \<and>
      ((\<exists>scope \<in> set (pr_scopes p).
          scope \<in> {''*'', resource @ '':'' @ action, resource @ '':*'', ''*:'' @ action}) \<or>
       (\<exists>a \<in> set s. ra_principal a = pr_id p \<and> ra_tenant a = pr_tenant p \<and>
          (\<exists>r. roles (ra_role a) = Some r \<and> HasPermission r resource action))))"
proof (cases who)
  case None
  then show ?thesis by (simp add: CheckPermission_def)
next
  case (Some p)
  have "checkScopes p resource action \<longleftrightarrow> (\<exists>scope \<in> set (pr_scopes p).
      scope \<in> {''*'', resource @ '':'' @ action, resource @ '':*'', ''*:'' @ action})"
    by (simp add: checkScopes_def list_ex_iff scope_matches_iff [OF assms])
  moreover have "roles_grant roles (held (GetRoleAssignments s) (pr_id p) (pr_tenant p)) resource action \<longleftrightarrow>
      (\<exists>a \<in> set s. ra_principal a = pr_id p \<and> ra_tenant a = pr_tenant p \<and>
        (\<exists>r. roles (ra_role a) = Some r \<and> HasPermission r resource action))"
    by (auto simp: roles_grant_def held_in_memory)
  ultimately show ?thesis by (simp add: Some in_memory.check_permission_held)
qed

definition alice :: principal where
  "alice = \<lparr>pr_id = ''alice'', pr_tenant = ''t1'', pr_user = ''u1'', pr_scopes = [''schema:*''],
     pr_type = PrincipalJWT\<rparr>"

definition alice_editor :: assignments where
  "alice_editor = [\<lparr>ra_principal = ''alice'', ra_tenant = ''t1'', ra_role = ''editor''\<rparr>]"

theorem check_permission_iff_witness:
  "CheckPermission DefaultPolicies (Some (GetRoleAssignments alice_editor)) ''t1'' (Some alice) ''sync'' ''execute'' = None
   \<and> CheckPermission DefaultPolicies (Some (GetRoleAssignments alice_editor)) ''t2'' (Some alice) ''sync'' ''execute'' \<noteq> None"
proof -
  have s: "CHR '':'' \<notin> set ''sync''" by simp
  have "HasPermission editorRole ''sync'' ''execute''"
    by (simp add: HasPermission_def editorRole_def resource_defs action_defs)
  then show ?thesis unfolding check_permission_iff [OF s]
    by (simp add: alice_def alice_editor_def DefaultPolicies_def)
qed

text \<open>
  Assigning and revoking roles over the in-memory store. Assigning a defined role that has a
  permission succeeds and gives the principal that access in its tenant; neither assigning nor
  revoking changes any decision about another principal or another tenant; and revoking a role
  that was newly assigned succeeds and restores exactly the roles everyone held before.
\<close>

theorem role_assignment_effects:
  assumes "roles n = Some r"
  shows "(HasPermission r resource action \<longrightarrow> ctxTenant = [] \<or> pr_tenant p = ctxTenant \<longrightarrow>
      fst (rbac_AssignRole roles store_AssignRole (pr_id p) (pr_tenant p) n s) = None \<and>
      CheckPermission roles (Some (GetRoleAssignments
        (snd (rbac_AssignRole roles store_AssignRole (pr_id p) (pr_tenant p) n s)))) ctxTenant (Some p) resource action = None)
    \<and> (pr_id q \<noteq> pr_id p \<or> pr_tenant q \<noteq> pr_tenant p \<longrightarrow>
       (CheckPermission roles (Some (GetRoleAssignments
          (snd (rbac_AssignRole roles store_AssignRole (pr_id p) (pr_tenant p) n s)))) ctxTenant (Some q) resource action = None
        \<longleftrightarrow> CheckPermission roles (Some (GetRoleAssignments s)) ctxTenant (Some q) resource action = None) \<and>
       (CheckPermission roles (Some (GetRoleAssignments
          (snd (rbac_RevokeRole store_RevokeRole (pr_id p) (pr_tenant p) n s)))) ctxTenant (Some q) resource action = None
        \<longleftrightarrow> CheckPermission roles (Some (GetRoleAssignments s)) ctxTenant (Some q) resource action = None))
    \<and> (n \<notin> held (GetRoleAssignments s) i t \<longrightarrow>
       (let s' = snd (rbac_AssignRole roles store_AssignRole i t n s) in
        fst (rbac_RevokeRole store_RevokeRole i t n s') = None \<and>
        held (GetRoleAssignments (snd (rbac_RevokeRole store_RevokeRole i t n s'))) = held (GetRoleAssignments s)))"
  using in_memory.assigned_role_grants [of roles n r resource action ctxTenant p s]
    in_memory.others_unaffected [of q "pr_id p" "pr_tenant p"] in_memory.revoke_after_assign [of n s i t roles] assms
  by (simp add: Let_def)

theorem role_assignment_effects_witness:
  "CheckPermission DefaultPolicies (Some (GetRoleAssignments (snd (rbac_AssignRole DefaultPolicies store_AssignRole
     (pr_id alice) (pr_tenant alice) ''admin'' NewInMemoryRoleStore)))) ''t1'' (Some alice) ''tenant'' ''manage'' = None"
proof -
  have a: "DefaultPolicies ''admin'' = Some adminRole" by (simp add: DefaultPolicies_def)
  have "HasPermission adminRole ''tenant'' ''manage''" by (simp add: HasPermission_def adminRole_def)
  with role_assignment_effects [of DefaultPolicies "''admin''" adminRole "''tenant''" "''manage''" "''t1''" alice NewInMemoryRoleStore]
  show ?thesis using a by (simp add: alice_def)
qed

text \<open>
  What the built-in roles allow, for every resource and action name: the administrator
  everything; the editor create, read, update and delete on connectors, connections, syncs,
  schemas and MCP servers, and execute on syncs, so nothing on tenants and audit logs; the viewer
  exactly reading the seven resources; the connector manager the six actions on connectors and
  connections and reading schemas; the sync operator the six actions on syncs and reading
  connectors, connections and schemas.
\<close>

theorem builtin_role_permissions:
  "HasPermission adminRole resource action
   \<and> (HasPermission editorRole resource action \<longleftrightarrow>
        resource \<in> {ResourceConnector, ResourceConnection, ResourceSync, ResourceSchema, ResourceMCPServer}
          \<and> action \<in> {ActionCreate, ActionRead, ActionUpdate, ActionDelete}
        \<or> resource = ResourceSync \<and> action = ActionExecute)
   \<and> (HasPermission viewerRole resource action \<longleftrightarrow>
        resource \<in> {ResourceConnector, ResourceConnection, ResourceSync, ResourceTenant, ResourceSchema,
          ResourceMCPServer, ResourceAuditLog} \<and> action = ActionRead)
   \<and> (HasPermission connectorManagerRole resource action \<longleftrightarrow>
        resource \<in> {ResourceConnector, ResourceConnection} \<and> action \<in> set allActions
        \<or> resource = ResourceSchema \<and> action = ActionRead)
   \<and> (HasPermission syncOperatorRole resource action \<longleftrightarrow>
        resource = ResourceSync \<and> action \<in> set allActions
        \<or> resource \<in> {ResourceConnector, ResourceConnection, ResourceSchema} \<and> action = ActionRead)"
proof (intro conjI)
  show "HasPermission adminRole resource action" by (simp add: HasPermission_def adminRole_def)
qed (auto simp: HasPermission_def editorRole_def viewerRole_def connectorManagerRole_def
    syncOperatorRole_def readOnly_def crudActions_def allActions_def resource_defs action_defs)

end
