(* ===== verification/Json.thy ===== *)
theory Json
  imports Errors "HOL-Library.List_Lexorder" "HOL-Library.Char_ord" "HOL-Library.AList"
begin

text \<open>
  What the components use of \<open>encoding/json\<close>: JSON documents, the parser, and the rule by which
  object keys meet struct fields. Strings are lists of bytes. A parsed string has its escapes
  resolved into UTF-8, lone surrogates and invalid bytes replaced by U+FFFD; a number keeps its
  text; an object keeps its members in order, repeated keys included. Go refuses documents
  nested deeper than 10000 levels.
\<close>

datatype json =
    JNull
  | JBool bool
  | JNum string
  | JStr string
  | JArr "json list"
  | JObj "(string \<times> json) list"

section \<open>Characters\<close>

definition byte :: "char \<Rightarrow> nat" where
  "byte c = of_char c"

fun skip_ws :: "string \<Rightarrow> string" where
  "skip_ws [] = []"
| "skip_ws (c # s) = (if byte c \<in> {32, 9, 10, 13} then skip_ws s else c # s)"

lemma length_skip_ws: "length (skip_ws s) \<le> length s"
  by (induction s) auto

definition is_digit :: "char \<Rightarrow> bool" where
  "is_digit c \<longleftrightarrow> 48 \<le> byte c \<and> byte c \<le> 57"

definition hex_value :: "char \<Rightarrow> nat option" where
  "hex_value c =
    (if is_digit c then Some (byte c - 48)
     else if 97 \<le> byte c \<and> byte c \<le> 102 then Some (byte c - 87)
     else if 65 \<le> byte c \<and> byte c \<le> 70 then Some (byte c - 55)
     else None)"

definition hex4 :: "string \<Rightarrow> (nat \<times> string) option" where
  "hex4 s = (case s of
     a # b # c # d # r \<Rightarrow> (case (hex_value a, hex_value b, hex_value c, hex_value d) of
        (Some a, Some b, Some c, Some d) \<Rightarrow> Some (((a * 16 + b) * 16 + c) * 16 + d, r)
      | _ \<Rightarrow> None)
   | _ \<Rightarrow> None)"

definition char_byte :: "nat \<Rightarrow> char" where
  "char_byte n = char_of n"

definition utf8_encode :: "nat \<Rightarrow> string" where
  "utf8_encode n =
    (if n < 128 then [char_byte n]
     else if n < 2048 then [char_byte (192 + n div 64), char_byte (128 + n mod 64)]
     else if n < 65536 then [char_byte (224 + n div 4096), char_byte (128 + n div 64 mod 64), char_byte (128 + n mod 64)]
     else [char_byte (240 + n div 262144), char_byte (128 + n div 4096 mod 64), char_byte (128 + n div 64 mod 64),
           char_byte (128 + n mod 64)])"

text \<open>The number of bytes of the valid UTF-8 sequence at the head, zero when there is none.\<close>

definition continuation :: "nat \<Rightarrow> nat \<Rightarrow> string \<Rightarrow> nat \<Rightarrow> bool" where
  "continuation lo hi s i \<longleftrightarrow> i < length s \<and> lo \<le> byte (s ! i) \<and> byte (s ! i) \<le> hi"

definition utf8_len :: "string \<Rightarrow> nat" where
  "utf8_len s = (case s of [] \<Rightarrow> 0 | c # _ \<Rightarrow>
    let b = byte c in
    if b < 128 then 1
    else if 194 \<le> b \<and> b \<le> 223 then (if continuation 128 191 s 1 then 2 else 0)
    else if 224 \<le> b \<and> b \<le> 239 then
      (if continuation (if b = 224 then 160 else 128) (if b = 237 then 159 else 191) s 1
          \<and> continuation 128 191 s 2 then 3 else 0)
    else if 240 \<le> b \<and> b \<le> 244 then
      (if continuation (if b = 240 then 144 else 128) (if b = 244 then 143 else 191) s 1
          \<and> continuation 128 191 s 2 \<and> continuation 128 191 s 3 then 4 else 0)
    else 0)"

text \<open>\<open>utf8_fix k s\<close>: \<open>k\<close> bytes of a valid sequence are still to be copied.\<close>

fun utf8_fix :: "nat \<Rightarrow> string \<Rightarrow> string" where
  "utf8_fix k [] = []"
| "utf8_fix (Suc k) (c # s) = c # utf8_fix k s"
| "utf8_fix 0 (c # s) =
    (if utf8_len (c # s) = 0 then utf8_encode 65533 @ utf8_fix 0 s
     else c # utf8_fix (utf8_len (c # s) - 1) s)"

section \<open>The parser\<close>

text \<open>The rest of a string literal after its opening quote: its bytes and what follows it.\<close>

definition simple_escape :: "char \<Rightarrow> char option" where
  "simple_escape e =
    (if e \<in> {CHR 0x22, CHR 0x5C, CHR 0x2F} then Some e
     else if e = CHR ''b'' then Some (CHR 0x08) else if e = CHR ''f'' then Some (CHR 0x0C)
     else if e = CHR ''n'' then Some (CHR 0x0A) else if e = CHR ''r'' then Some (CHR 0x0D)
     else if e = CHR ''t'' then Some (CHR 0x09) else None)"

text \<open>The code point of a \<open>\u\<close> escape, joined with a low surrogate that follows a high one.\<close>

definition unicode_escape :: "string \<Rightarrow> (nat \<times> string) option" where
  "unicode_escape s = (case hex4 s of None \<Rightarrow> None
   | Some (n, r) \<Rightarrow>
      if 55296 \<le> n \<and> n < 56320 then
        (case r of b # u # r2 \<Rightarrow>
           if b = CHR 0x5C \<and> u = CHR ''u'' then
             (case hex4 r2 of Some (m, r3) \<Rightarrow>
                if 56320 \<le> m \<and> m < 57344 then Some (65536 + (n - 55296) * 1024 + (m - 56320), r3)
                else Some (65533, r)
              | None \<Rightarrow> Some (65533, r))
           else Some (65533, r)
         | _ \<Rightarrow> Some (65533, r))
      else if 56320 \<le> n \<and> n < 57344 then Some (65533, r)
      else Some (n, r))"

lemma hex4_length: "hex4 s = Some (n, r) \<Longrightarrow> length r < length s"
  by (auto simp: hex4_def split: list.splits option.splits)

lemma unicode_escape_length: "unicode_escape s = Some (n, r) \<Longrightarrow> length r < length s"
  unfolding unicode_escape_def
  by (auto split: option.splits prod.splits list.splits if_splits dest!: hex4_length)

function parse_str :: "string \<Rightarrow> (string \<times> string) option" where
  "parse_str s = (case s of
     [] \<Rightarrow> None
   | c # r \<Rightarrow>
      if c = CHR 0x22 then Some ([], r)
      else if c = CHR 0x5C then
        (case r of [] \<Rightarrow> None
         | e # r2 \<Rightarrow>
            if e = CHR ''u'' then
              (case unicode_escape r2 of None \<Rightarrow> None
               | Some (n, r3) \<Rightarrow> map_option (\<lambda>(t, q). (utf8_encode n @ t, q)) (parse_str r3))
            else (case simple_escape e of None \<Rightarrow> None
                  | Some c2 \<Rightarrow> map_option (\<lambda>(t, q). (c2 # t, q)) (parse_str r2)))
      else if byte c < 32 then None
      else map_option (\<lambda>(t, q). (c # t, q)) (parse_str r))"
  by pat_completeness auto
termination
  by (relation "measure length") (auto dest: unicode_escape_length)

declare parse_str.simps [simp del]

definition parse_string :: "string \<Rightarrow> (string \<times> string) option" where
  "parse_string s = map_option (\<lambda>(t, r). (utf8_fix 0 t, r)) (parse_str s)"

text \<open>A number: optional sign, integer part, optional fraction, optional exponent.\<close>

definition digits :: "string \<Rightarrow> (string \<times> string) option" where
  "digits s = (let d = takeWhile is_digit s in if d = [] then None else Some (d, drop (length d) s))"

definition parse_int_part :: "string \<Rightarrow> (string \<times> string) option" where
  "parse_int_part s = (case s of [] \<Rightarrow> None
   | c # r \<Rightarrow> if c = CHR ''0'' then Some ([c], r) else digits s)"

definition parse_fraction :: "string \<Rightarrow> (string \<times> string) option" where
  "parse_fraction s = (case s of
     c # r \<Rightarrow> if c = CHR ''.'' then map_option (\<lambda>(d, q). (c # d, q)) (digits r) else Some ([], s)
   | [] \<Rightarrow> Some ([], []))"

definition parse_exponent :: "string \<Rightarrow> (string \<times> string) option" where
  "parse_exponent s = (case s of
     c # r \<Rightarrow>
       if c = CHR ''e'' \<or> c = CHR ''E'' then
         (case r of
            g # q \<Rightarrow> if g = CHR ''+'' \<or> g = CHR ''-'' then map_option (\<lambda>(d, q). (c # g # d, q)) (digits q)
                     else map_option (\<lambda>(d, q). (c # d, q)) (digits r)
          | [] \<Rightarrow> None)
       else Some ([], s)
   | [] \<Rightarrow> Some ([], []))"

definition parse_number :: "string \<Rightarrow> (string \<times> string) option" where
  "parse_number s =
    (let sign = (if s \<noteq> [] \<and> hd s = CHR ''-'' then [CHR ''-''] else []) in
     case parse_int_part (drop (length sign) s) of None \<Rightarrow> None
     | Some (i, s) \<Rightarrow> (case parse_fraction s of None \<Rightarrow> None
       | Some (f, s) \<Rightarrow> (case parse_exponent s of None \<Rightarrow> None
         | Some (e, s) \<Rightarrow> Some (sign @ i @ f @ e, s))))"

definition parse_literal :: "string \<Rightarrow> (json \<times> string) option" where
  "parse_literal s =
    (if take 4 s = ''null'' then Some (JNull, drop 4 s)
     else if take 4 s = ''true'' then Some (JBool True, drop 4 s)
     else if take 5 s = ''false'' then Some (JBool False, drop 5 s)
     else map_option (\<lambda>(n, r). (JNum n, r)) (parse_number s))"

definition max_depth :: nat where
  "max_depth = 10000"

function parse_value :: "nat \<Rightarrow> string \<Rightarrow> (json \<times> string) option"
  and parse_elems :: "nat \<Rightarrow> string \<Rightarrow> (json list \<times> string) option"
  and parse_members :: "nat \<Rightarrow> string \<Rightarrow> ((string \<times> json) list \<times> string) option" where
  "parse_value d s = (case skip_ws s of
     [] \<Rightarrow> None
   | c # r \<Rightarrow>
      if c = CHR 0x22 then map_option (\<lambda>(t, q). (JStr t, q)) (parse_string r)
      else if c = CHR ''['' then
        (if d \<ge> max_depth then None
         else if take 1 (skip_ws r) = '']'' then Some (JArr [], drop 1 (skip_ws r))
         else map_option (\<lambda>(vs, q). (JArr vs, q)) (parse_elems (Suc d) r))
      else if c = CHR ''{'' then
        (if d \<ge> max_depth then None
         else if take 1 (skip_ws r) = ''}'' then Some (JObj [], drop 1 (skip_ws r))
         else map_option (\<lambda>(ms, q). (JObj ms, q)) (parse_members (Suc d) r))
      else parse_literal (c # r))"
| "parse_elems d s = (case parse_value d s of None \<Rightarrow> None
   | Some (v, r) \<Rightarrow>
      (case skip_ws r of [] \<Rightarrow> None
       | c # q \<Rightarrow>
          if c = CHR '']'' then Some ([v], q)
          else if c = CHR '','' \<and> length q < length s
          then map_option (\<lambda>(vs, p). (v # vs, p)) (parse_elems d q)
          else None))"
| "parse_members d s = (case skip_ws s of [] \<Rightarrow> None
   | c # r \<Rightarrow>
      if c \<noteq> CHR 0x22 then None
      else case parse_string r of None \<Rightarrow> None
      | Some (k, r) \<Rightarrow>
         (case skip_ws r of [] \<Rightarrow> None
          | c # r \<Rightarrow>
             if c \<noteq> CHR '':'' \<or> \<not> length r < length s then None
             else case parse_value d r of None \<Rightarrow> None
             | Some (v, r) \<Rightarrow>
                (case skip_ws r of [] \<Rightarrow> None
                 | c # q \<Rightarrow>
                    if c = CHR ''}'' then Some ([(k, v)], q)
                    else if c = CHR '','' \<and> length q < length s
                    then map_option (\<lambda>(ms, p). ((k, v) # ms, p)) (parse_members d q)
                    else None)))"
  by pat_completeness auto
termination
proof (relation "measure (\<lambda>x. case x of Inl (d, s) \<Rightarrow> 2 * length s | Inr (Inl (d, s)) \<Rightarrow> 2 * length s + 1
      | Inr (Inr (d, s)) \<Rightarrow> 2 * length s + 1)", goal_cases)
  case (2 d s c r)
  then show ?case using length_skip_ws [of s] by simp
next
  case (3 d s c r)
  then show ?case using length_skip_ws [of s] by simp
qed auto

declare parse_value.simps [simp del] parse_elems.simps [simp del] parse_members.simps [simp del]

definition json_parse :: "string \<Rightarrow> json option" where
  "json_parse s = (case parse_value 0 s of
     None \<Rightarrow> None
   | Some (v, r) \<Rightarrow> if skip_ws r = [] then Some v else None)"

section \<open>Decoding into structs and maps\<close>

text \<open>
  A key meets the struct field with the same name up to case folding: ASCII letters, and the two
  non-ASCII characters that fold to ASCII, the long s (C5 BF) and the Kelvin sign (E2 84 AA).
\<close>

definition to_lower :: "char \<Rightarrow> char" where
  "to_lower c = (if 65 \<le> byte c \<and> byte c \<le> 90 then char_byte (byte c + 32) else c)"

fun fold_name :: "string \<Rightarrow> string" where
  "fold_name (a # b # s) =
    (if a = CHR 0xC5 \<and> b = CHR 0xBF then CHR ''s'' # fold_name s
     else if a = CHR 0xE2 \<and> b = CHR 0x84 \<and> take 1 s = [CHR 0xAA] then CHR ''k'' # fold_name (drop 1 s)
     else to_lower a # fold_name (b # s))"
| "fold_name [a] = [to_lower a]"
| "fold_name [] = []"

text \<open>The values given to the field \<open>name\<close> (in lower case) by an object, in order.\<close>

definition field_values :: "string \<Rightarrow> (string \<times> json) list \<Rightarrow> json list" where
  "field_values name members = map snd (filter (\<lambda>(k, _). fold_name k = name) members)"

text \<open>Decoding members into a map: later members replace earlier ones with the same key.\<close>

definition decode_members :: "(string \<times> 'v) list \<Rightarrow> (string \<times> 'v) list \<Rightarrow> (string \<times> 'v) list" where
  "decode_members members m = fold (\<lambda>(k, v). AList.update k v) members m"

lemma map_of_decode_members: "map_of (decode_members ms m) = map_of m ++ map_of (rev ms)"
proof (induction ms arbitrary: m)
  case (Cons kv ms)
  obtain k v where kv: "kv = (k, v)" by (cases kv)
  have "map_of (decode_members (kv # ms) m) = map_of (AList.update k v m) ++ map_of (rev ms)"
    using Cons.IH by (simp add: decode_members_def kv)
  then show ?case by (simp add: kv update_conv' map_add_upd_left flip: fun_upd_def)
qed (simp add: decode_members_def)

text \<open>Decoding into a map from strings, of raw messages or of arbitrary values.\<close>

definition unmarshal_map :: "json \<Rightarrow> (string \<times> json) list option" where
  "unmarshal_map doc = (case doc of
     JObj members \<Rightarrow> Some (decode_members members [])
   | JNull \<Rightarrow> Some []
   | _ \<Rightarrow> None)"

section \<open>Encoding\<close>

text \<open>
  The string encoder of \<open>json.Marshal\<close>: the two-letter escapes, \<open>\u00xx\<close> for other control
  characters and for \<open><\<close>, \<open>>\<close> and \<open>&\<close>, \<open>\ufffd\<close> for invalid bytes and escapes for the two Unicode
  line separators (E2 80 A8, E2 80 A9). \<open>k\<close> bytes of a valid sequence are still to be copied.
\<close>

definition hex_digit :: "nat \<Rightarrow> char" where
  "hex_digit n = char_byte (if n < 10 then 48 + n else 87 + n)"

definition escape_byte :: "char \<Rightarrow> string" where
  "escape_byte c =
    (if c = CHR 0x22 \<or> c = CHR 0x5C then [CHR 0x5C, c]
     else if c = CHR 0x08 then [CHR 0x5C, CHR ''b''] else if c = CHR 0x0C then [CHR 0x5C, CHR ''f'']
     else if c = CHR 0x0A then [CHR 0x5C, CHR ''n''] else if c = CHR 0x0D then [CHR 0x5C, CHR ''r'']
     else if c = CHR 0x09 then [CHR 0x5C, CHR ''t'']
     else if byte c < 32 \<or> c = CHR ''<'' \<or> c = CHR ''>'' \<or> c = CHR ''&''
     then [CHR 0x5C, CHR ''u'', CHR ''0'', CHR ''0'', hex_digit (byte c div 16), hex_digit (byte c mod 16)]
     else [c])"

fun escape_string :: "nat \<Rightarrow> string \<Rightarrow> string" where
  "escape_string k [] = []"
| "escape_string (Suc k) (c # s) = c # escape_string k s"
| "escape_string 0 (c # s) =
    (if byte c < 128 then escape_byte c @ escape_string 0 s
     else if utf8_len (c # s) = 0 then CHR 0x5C # ''ufffd'' @ escape_string 0 s
     else if c = CHR 0xE2 \<and> take 2 s = [CHR 0x80, CHR 0xA8] then CHR 0x5C # ''u2028'' @ escape_string 0 (drop 2 s)
     else if c = CHR 0xE2 \<and> take 2 s = [CHR 0x80, CHR 0xA9] then CHR 0x5C # ''u2029'' @ escape_string 0 (drop 2 s)
     else c # escape_string (utf8_len (c # s) - 1) s)"

definition encode_string :: "string \<Rightarrow> string" where
  "encode_string s = [CHR 0x22] @ escape_string 0 s @ [CHR 0x22]"

text \<open>
  \<open>json.Marshal\<close> of a decoded value: objects are maps, written in the order of their keys, and of
  equal keys the last one counts. A number is a \<open>float64\<close>; \<open>num\<close> gives the text Go writes for the
  number that a text stands for.
\<close>

fun marshal :: "(string \<Rightarrow> string) \<Rightarrow> json \<Rightarrow> string" where
  "marshal num JNull = ''null''"
| "marshal num (JBool b) = (if b then ''true'' else ''false'')"
| "marshal num (JNum n) = num n"
| "marshal num (JStr s) = encode_string s"
| "marshal num (JArr vs) = ''['' @ join_with '','' (map (marshal num) vs) @ '']''"
| "marshal num (JObj ms) = ''{'' @ join_with '',''
     (map (\<lambda>(k, t). encode_string k @ '':'' @ t)
       (sort_key fst (decode_members (map (\<lambda>(k, v). (k, marshal num v)) ms) []))) @ ''}''"

text \<open>\<open>fmt.Sprintf("%v", val)\<close> of a decoded value.\<close>

fun sprint_v :: "(string \<Rightarrow> string) \<Rightarrow> json \<Rightarrow> string" where
  "sprint_v num JNull = ''<nil>''"
| "sprint_v num (JBool b) = (if b then ''true'' else ''false'')"
| "sprint_v num (JNum n) = num n"
| "sprint_v num (JStr s) = s"
| "sprint_v num (JArr vs) = ''['' @ join_with '' '' (map (sprint_v num) vs) @ '']''"
| "sprint_v num (JObj ms) = ''map['' @ join_with '' ''
     (map (\<lambda>(k, t). k @ '':'' @ t)
       (sort_key fst (decode_members (map (\<lambda>(k, v). (k, sprint_v num v)) ms) []))) @ '']''"

text \<open>The equations that evaluate the parser on a concrete document.\<close>

lemmas json_eval = json_parse_def parse_value.simps parse_elems.simps parse_members.simps
  parse_str.simps parse_string_def parse_literal_def parse_number_def parse_int_part_def digits_def
  parse_fraction_def parse_exponent_def is_digit_def byte_def utf8_len_def hex4_def hex_value_def
  unicode_escape_def simple_escape_def max_depth_def

end
