(* ===== verification/SchemaManager.thy ===== *)
theory SchemaManager
  imports Json Protocol
begin

text \<open>
  \<open>internal/controlplane/schema/manager.go\<close>: comparing the schemas of a stream, storing the
  streams of a discovered catalog with a new schema version when something changed, and reading
  a schema through a cache. The repository and the cache are interfaces in the Go code; here
  they are records of functions on the state \<open>'w\<close> of the world. \<open>jsonErr\<close> is the error
  \<open>encoding/json\<close> reports for a document it cannot decode. Numbers in schemas are taken to fit
  \<open>float64\<close>.
\<close>

datatype change_type = ChangeAddedField | ChangeRemovedField | ChangeTypeChange | ChangeNullable

record schema_change =
  ch_type :: change_type
  ch_field :: string
  ch_old :: string
  ch_new :: string
  ch_breaking :: bool

record schema_diff =
  sd_changes :: "schema_change list"
  sd_compatible :: bool

record property_info =
  pi_type :: string
  pi_nullable :: bool

type_synonym properties = "(string \<times> property_info) list"

section \<open>Reading a schema\<close>

text \<open>
  The field \<open>Type\<close> of \<open>parsePropertyType\<close>: the last value given to it, nil (here null) when there
  is none. A property that is not an object or null does not decode.
\<close>

definition property_type_value :: "json \<Rightarrow> json option" where
  "property_type_value prop = (case prop of
     JObj members \<Rightarrow> (case rev (field_values ''type'' members) of [] \<Rightarrow> Some JNull | v # _ \<Rightarrow> Some v)
   | JNull \<Rightarrow> Some JNull
   | _ \<Rightarrow> None)"

fun scan_types :: "json list \<Rightarrow> bool \<Rightarrow> string \<Rightarrow> property_info" where
  "scan_types [] nullable primaryType = \<lparr>pi_type = primaryType, pi_nullable = nullable\<rparr>"
| "scan_types (v # vs) nullable primaryType = (case v of
     JStr s \<Rightarrow> if s = ''null'' then scan_types vs True primaryType else scan_types vs nullable s
   | _ \<Rightarrow> scan_types vs nullable primaryType)"

definition parsePropertyType :: "json \<Rightarrow> property_info" where
  "parsePropertyType prop = (case property_type_value prop of
     None \<Rightarrow> \<lparr>pi_type = ''unknown'', pi_nullable = False\<rparr>
   | Some t \<Rightarrow> (case t of
       JStr s \<Rightarrow> \<lparr>pi_type = s, pi_nullable = False\<rparr>
     | JArr vs \<Rightarrow> scan_types vs False ''unknown''
     | _ \<Rightarrow> \<lparr>pi_type = ''unknown'', pi_nullable = False\<rparr>))"

definition schema_keywords :: "string list" where
  "schema_keywords = [''type'', ''$schema'', ''$id'', ''title'', ''description'', ''required'',
     ''additionalProperties'', ''definitions'', ''$defs'']"

definition extractFlatProperties :: "(string \<times> json) list \<Rightarrow> properties" where
  "extractFlatProperties flat =
     map (\<lambda>(name, v). (name, parsePropertyType v)) (filter (\<lambda>(name, _). name \<notin> set schema_keywords) flat)"

text \<open>
  Decoding into the struct with the field \<open>Properties\<close>: \<open>None\<close> is a decoding error, \<open>Some None\<close> the
  nil map. Each value given to the field is decoded into the map in turn: an object adds its
  members, null resets it, anything else is an error.
\<close>

fun decode_properties :: "json list \<Rightarrow> (string \<times> json) list option \<Rightarrow> (string \<times> json) list option option" where
  "decode_properties [] m = Some m"
| "decode_properties (v # vs) m = (case v of
     JNull \<Rightarrow> decode_properties vs None
   | JObj ms \<Rightarrow> decode_properties vs (Some (decode_members ms (case m of None \<Rightarrow> [] | Some m \<Rightarrow> m)))
   | _ \<Rightarrow> None)"

definition unmarshal_properties :: "json \<Rightarrow> (string \<times> json) list option option" where
  "unmarshal_properties doc = (case doc of
     JObj members \<Rightarrow> decode_properties (field_values ''properties'' members) None
   | JNull \<Rightarrow> Some None
   | _ \<Rightarrow> None)"

definition extractProperties :: "(raw_message \<Rightarrow> go_error) \<Rightarrow> raw_message \<Rightarrow> properties result" where
  "extractProperties jsonErr schema =
    (if length schema = 0 then Inr []
     else case json_parse schema of
       None \<Rightarrow> Inl (Wrapped ''unable to parse schema: '' (jsonErr schema))
     | Some doc \<Rightarrow> (case unmarshal_properties doc of
         None \<Rightarrow> (case unmarshal_map doc of
             None \<Rightarrow> Inl (Wrapped ''unable to parse schema: '' (jsonErr schema))
           | Some flat \<Rightarrow>
               if ''properties'' \<notin> fst ` set flat then Inr (extractFlatProperties flat)
               else Inl (jsonErr schema))
       | Some None \<Rightarrow> Inr []
       | Some (Some props) \<Rightarrow> Inr (map (\<lambda>(name, v). (name, parsePropertyType v)) props)))"

section \<open>Comparing two schemas\<close>

definition nullable_text :: "bool \<Rightarrow> string" where
  "nullable_text b = ''nullable='' @ (if b then ''true'' else ''false'')"

definition field_changes :: "properties \<Rightarrow> properties \<Rightarrow> string \<Rightarrow> schema_change list" where
  "field_changes oldProps newProps field = (case (map_of oldProps field, map_of newProps field) of
     (Some oldProp, None) \<Rightarrow> [\<lparr>ch_type = ChangeRemovedField, ch_field = field, ch_old = pi_type oldProp,
        ch_new = [], ch_breaking = True\<rparr>]
   | (None, Some newProp) \<Rightarrow> [\<lparr>ch_type = ChangeAddedField, ch_field = field, ch_old = [],
        ch_new = pi_type newProp, ch_breaking = False\<rparr>]
   | (Some oldProp, Some newProp) \<Rightarrow>
       (if pi_type oldProp \<noteq> pi_type newProp
        then [\<lparr>ch_type = ChangeTypeChange, ch_field = field, ch_old = pi_type oldProp,
               ch_new = pi_type newProp, ch_breaking = True\<rparr>] else []) @
       (if pi_nullable oldProp \<noteq> pi_nullable newProp
        then [\<lparr>ch_type = ChangeNullable, ch_field = field, ch_old = nullable_text (pi_nullable oldProp),
               ch_new = nullable_text (pi_nullable newProp),
               ch_breaking = pi_nullable oldProp \<and> \<not> pi_nullable newProp\<rparr>] else [])
   | (None, None) \<Rightarrow> [])"

definition sorted_fields :: "properties \<Rightarrow> properties \<Rightarrow> string list" where
  "sorted_fields oldProps newProps = sort (remdups (map fst oldProps @ map fst newProps))"

definition detect_changes :: "properties \<Rightarrow> properties \<Rightarrow> schema_change list" where
  "detect_changes oldProps newProps =
     concat (map (field_changes oldProps newProps) (sorted_fields oldProps newProps))"

definition DetectBreakingChanges ::
    "(raw_message \<Rightarrow> go_error) \<Rightarrow> raw_message \<Rightarrow> raw_message \<Rightarrow> schema_change list result" where
  "DetectBreakingChanges jsonErr oldSchema newSchema = (case extractProperties jsonErr oldSchema of
     Inl err \<Rightarrow> Inl (Wrapped ''failed to parse old schema: '' err)
   | Inr oldProps \<Rightarrow> (case extractProperties jsonErr newSchema of
       Inl err \<Rightarrow> Inl (Wrapped ''failed to parse new schema: '' err)
     | Inr newProps \<Rightarrow> Inr (detect_changes oldProps newProps)))"

text \<open>
  \<open>json.Marshal\<close> of a list of changes, which cannot fail; old and new value are left out when
  empty. The list of a failed comparison is nil.
\<close>

definition change_type_text :: "change_type \<Rightarrow> string" where
  "change_type_text t = (case t of ChangeAddedField \<Rightarrow> ''added_field'' | ChangeRemovedField \<Rightarrow> ''removed_field''
     | ChangeTypeChange \<Rightarrow> ''type_change'' | ChangeNullable \<Rightarrow> ''nullable_change'')"

definition marshal_field :: "string \<Rightarrow> string \<Rightarrow> string" where
  "marshal_field name v = encode_string name @ '':'' @ v"

definition marshal_change :: "schema_change \<Rightarrow> string" where
  "marshal_change c = ''{'' @ join_with '',''
     ([marshal_field ''type'' (encode_string (change_type_text (ch_type c))),
       marshal_field ''field'' (encode_string (ch_field c))]
      @ (if ch_old c = [] then [] else [marshal_field ''old_value'' (encode_string (ch_old c))])
      @ (if ch_new c = [] then [] else [marshal_field ''new_value'' (encode_string (ch_new c))])
      @ [marshal_field ''is_breaking'' (if ch_breaking c then ''true'' else ''false'')]) @ ''}''"

definition marshal_changes :: "schema_change list \<Rightarrow> raw_message" where
  "marshal_changes cs = (if cs = [] then ''null'' else ''['' @ join_with '','' (map marshal_change cs) @ '']'')"

section \<open>The manager\<close>

record stream_record =
  sr_id :: string
  sr_connection_id :: string
  sr_name :: string
  sr_namespace :: string
  sr_schema :: raw_message
  sr_sync_modes :: "string list"

record schema_version =
  sv_id :: string
  sv_stream_id :: string
  sv_version :: int
  sv_schema :: raw_message
  sv_diff :: raw_message

record 'w stream_repository =
  GetStreamByID :: "string \<Rightarrow> 'w \<Rightarrow> stream_record result"
  UpsertStream :: "stream_record \<Rightarrow> 'w \<Rightarrow> stream_record result \<times> 'w"
  CreateSchemaVersion :: "schema_version \<Rightarrow> 'w \<Rightarrow> schema_version result \<times> 'w"
  GetSchemaVersion :: "string \<Rightarrow> int \<Rightarrow> 'w \<Rightarrow> schema_version result"
  GetLatestSchemaVersion :: "string \<Rightarrow> 'w \<Rightarrow> schema_version result"

record 'w schema_cache =
  cache_Get :: "string \<Rightarrow> 'w \<Rightarrow> raw_message option result"
  cache_Set :: "string \<Rightarrow> raw_message \<Rightarrow> 'w \<Rightarrow> go_error option \<times> 'w"
  cache_Invalidate :: "string \<Rightarrow> 'w \<Rightarrow> go_error option \<times> 'w"

record 'w schema_manager =
  sm_repo :: "'w stream_repository"
  sm_cache :: "'w schema_cache option"
  sm_jsonErr :: "raw_message \<Rightarrow> go_error"

definition NewSchemaManager :: "'w stream_repository \<Rightarrow> 'w schema_cache option
    \<Rightarrow> (raw_message \<Rightarrow> go_error) \<Rightarrow> 'w schema_manager" where
  "NewSchemaManager repo cache jsonErr = \<lparr>sm_repo = repo, sm_cache = cache, sm_jsonErr = jsonErr\<rparr>"

definition schema_changed :: "'w schema_manager \<Rightarrow> schema_version result \<Rightarrow> raw_message \<Rightarrow> bool" where
  "schema_changed sm latest schema = (case latest of
     Inl _ \<Rightarrow> True
   | Inr v \<Rightarrow> (case DetectBreakingChanges (sm_jsonErr sm) (sv_schema v) schema of
       Inl _ \<Rightarrow> True | Inr changes \<Rightarrow> changes \<noteq> []))"

text \<open>The diff stored with a version; a repository that reports an error returns no version.\<close>

definition version_diff :: "'w schema_manager \<Rightarrow> schema_version result \<Rightarrow> raw_message \<Rightarrow> raw_message" where
  "version_diff sm latest schema = (case latest of
     Inl _ \<Rightarrow> ''[]''
   | Inr v \<Rightarrow> (case DetectBreakingChanges (sm_jsonErr sm) (sv_schema v) schema of
       Inl _ \<Rightarrow> ''null''
     | Inr changes \<Rightarrow> marshal_changes changes))"

definition sync_mode_text :: "sync_mode \<Rightarrow> string" where
  "sync_mode_text m = (case m of SyncModeFullRefresh \<Rightarrow> ''full_refresh'' | SyncModeIncremental \<Rightarrow> ''incremental''
     | SyncModeOther s \<Rightarrow> s)"

definition store_stream :: "'w schema_manager \<Rightarrow> string \<Rightarrow> stream \<Rightarrow> 'w \<Rightarrow> go_error option \<times> 'w" where
  "store_stream sm connectionID st w =
    (let repo = sm_repo sm;
         record = \<lparr>sr_id = [], sr_connection_id = connectionID, sr_name = s_name st,
           sr_namespace = s_namespace st, sr_schema = s_schema st,
           sr_sync_modes = map sync_mode_text (s_supported_sync_modes st)\<rparr>
     in case UpsertStream repo record w of
          (Inl err, w) \<Rightarrow> (Some (Wrapped (''failed to upsert stream '' @ quoted (s_name st) @ '': '') err), w)
        | (Inr upserted, w) \<Rightarrow>
            let latest = GetLatestSchemaVersion repo (sr_id upserted) w
            in if schema_changed sm latest (s_schema st)
               then (case CreateSchemaVersion repo \<lparr>sv_id = [], sv_stream_id = sr_id upserted, sv_version = 0,
                         sv_schema = s_schema st, sv_diff = version_diff sm latest (s_schema st)\<rparr> w of
                   (Inl err, w) \<Rightarrow> (Some (Wrapped (''failed to create schema version for stream ''
                        @ quoted (s_name st) @ '': '') err), w)
                 | (Inr _, w) \<Rightarrow> (case sm_cache sm of
                       None \<Rightarrow> (None, w)
                     | Some c \<Rightarrow> (None, snd (cache_Invalidate c (sr_id upserted) w))))
               else (None, w))"

fun store_streams :: "'w schema_manager \<Rightarrow> string \<Rightarrow> stream list \<Rightarrow> 'w \<Rightarrow> go_error option \<times> 'w" where
  "store_streams sm connectionID [] w = (None, w)"
| "store_streams sm connectionID (st # sts) w = (case store_stream sm connectionID st w of
     (Some err, w) \<Rightarrow> (Some err, w)
   | (None, w) \<Rightarrow> store_streams sm connectionID sts w)"

definition DiscoverAndStore :: "'w schema_manager \<Rightarrow> string \<Rightarrow> stream list option \<Rightarrow> 'w
    \<Rightarrow> go_error option \<times> 'w" where
  "DiscoverAndStore sm connectionID cat w =
    (if connectionID = [] then (Some (Wrapped ''connectionID is required: '' (Sentinel ErrInvalidConfig)), w)
     else case cat of
       Some (st # sts) \<Rightarrow> store_streams sm connectionID (st # sts) w
     | _ \<Rightarrow> (Some (Wrapped ''catalog is empty: '' (Sentinel ErrInvalidConfig)), w))"

definition GetSchema :: "'w schema_manager \<Rightarrow> string \<Rightarrow> 'w \<Rightarrow> raw_message result \<times> 'w" where
  "GetSchema sm streamID w =
    (if streamID = [] then (Inl (Wrapped ''streamID is required: '' (Sentinel ErrInvalidConfig)), w)
     else case (case sm_cache sm of None \<Rightarrow> None
                | Some c \<Rightarrow> (case cache_Get c streamID w of Inl _ \<Rightarrow> None | Inr found \<Rightarrow> found)) of
       Some cached \<Rightarrow> (Inr cached, w)
     | None \<Rightarrow> (case GetStreamByID (sm_repo sm) streamID w of
           Inl err \<Rightarrow> (Inl (Wrapped (''failed to get stream '' @ streamID @ '': '') err), w)
         | Inr record \<Rightarrow> (case sm_cache sm of
               None \<Rightarrow> (Inr (sr_schema record), w)
             | Some c \<Rightarrow> (Inr (sr_schema record), snd (cache_Set c streamID (sr_schema record) w)))))"

definition CompareSchemas :: "'w schema_manager \<Rightarrow> string \<Rightarrow> int \<Rightarrow> int \<Rightarrow> 'w \<Rightarrow> schema_diff result" where
  "CompareSchemas sm streamID v1 v2 w =
    (if streamID = [] then Inl (Wrapped ''streamID is required: '' (Sentinel ErrInvalidConfig))
     else if v1 = v2 then Inr \<lparr>sd_changes = [], sd_compatible = True\<rparr>
     else case GetSchemaVersion (sm_repo sm) streamID v1 w of
       Inl err \<Rightarrow> Inl (Wrapped (''failed to get schema version '' @ show_int v1 @ '' for stream '' @ streamID @ '': '') err)
     | Inr version1 \<Rightarrow> (case GetSchemaVersion (sm_repo sm) streamID v2 w of
         Inl err \<Rightarrow> Inl (Wrapped (''failed to get schema version '' @ show_int v2 @ '' for stream '' @ streamID @ '': '') err)
       | Inr version2 \<Rightarrow> (case DetectBreakingChanges (sm_jsonErr sm) (sv_schema version1) (sv_schema version2) of
           Inl err \<Rightarrow> Inl (Wrapped ''failed to compare schemas: '' err)
         | Inr changes \<Rightarrow> Inr \<lparr>sd_changes = changes,
             sd_compatible = \<not> list_ex ch_breaking changes\<rparr>)))"

section \<open>Comparing: lemmas\<close>

text \<open>
  The abstract specification of compatibility: every field of the old schema is still there with
  the same type, and a nullable field is still nullable.
\<close>

definition keeps :: "properties \<Rightarrow> properties \<Rightarrow> bool" where
  "keeps old new \<longleftrightarrow> (\<forall>f p. map_of old f = Some p \<longrightarrow>
     (\<exists>q. map_of new f = Some q \<and> pi_type q = pi_type p \<and> (pi_nullable p \<longrightarrow> pi_nullable q)))"

lemma keeps_trans: "keeps a b \<Longrightarrow> keeps b c \<Longrightarrow> keeps a c"
  unfolding keeps_def by metis

lemma sorted_fields_set: "set (sorted_fields old new) = dom (map_of old) \<union> dom (map_of new)"
  by (auto simp: sorted_fields_def dom_map_of_conv_image_fst)

lemma field_changes_field: "c \<in> set (field_changes old new f) \<Longrightarrow> ch_field c = f"
  by (auto simp: field_changes_def split: option.splits if_splits)

lemma field_changes_Nil: "field_changes old new f = [] \<longleftrightarrow> map_of old f = map_of new f"
  by (auto simp: field_changes_def split: option.splits)

lemma field_changes_breaking:
  "list_ex ch_breaking (field_changes old new f) \<longleftrightarrow>
   (\<exists>p. map_of old f = Some p \<and>
      \<not> (\<exists>q. map_of new f = Some q \<and> pi_type q = pi_type p \<and> (pi_nullable p \<longrightarrow> pi_nullable q)))"
  by (auto simp: field_changes_def split: option.splits)

lemma detect_changes_Nil: "detect_changes old new = [] \<longleftrightarrow> map_of old = map_of new"
proof
  assume "detect_changes old new = []"
  then have eq: "map_of old f = map_of new f" if "f \<in> dom (map_of old) \<union> dom (map_of new)" for f
    using that by (auto simp: detect_changes_def field_changes_Nil simp flip: sorted_fields_set)
  show "map_of old = map_of new"
  proof
    show "map_of old f = map_of new f" for f
    proof (cases "f \<in> dom (map_of old) \<union> dom (map_of new)")
      case False
      then show ?thesis unfolding dom_def by (cases "map_of old f"; cases "map_of new f") auto
    qed (rule eq)
  qed
qed (simp add: detect_changes_def field_changes_Nil)

lemma detect_changes_breaking: "list_ex ch_breaking (detect_changes old new) \<longleftrightarrow> \<not> keeps old new"
proof -
  have "list_ex ch_breaking (detect_changes old new) \<longleftrightarrow>
      (\<exists>f \<in> dom (map_of old) \<union> dom (map_of new). list_ex ch_breaking (field_changes old new f))"
    by (force simp: detect_changes_def list_ex_iff sorted_fields_set)
  also have "\<dots> \<longleftrightarrow> \<not> keeps old new"
    unfolding field_changes_breaking keeps_def by (auto simp: dom_def)
  finally show ?thesis .
qed



lemma detect_changes_mem:
  "c \<in> set (detect_changes old new) \<longleftrightarrow> c \<in> set (field_changes old new (ch_field c))"
proof
  assume c: "c \<in> set (field_changes old new (ch_field c))"
  then have "map_of old (ch_field c) \<noteq> map_of new (ch_field c)"
    using field_changes_Nil [of old new "ch_field c"] by force
  then have "ch_field c \<in> set (sorted_fields old new)"
    by (cases "map_of old (ch_field c)") (auto simp: sorted_fields_set)
  with c show "c \<in> set (detect_changes old new)" by (auto simp: detect_changes_def)
qed (auto simp: detect_changes_def dest: field_changes_field)

lemma CompareSchemas_ok:
  assumes "CompareSchemas sm i v1 v2 w = Inr d" "v1 \<noteq> v2"
  shows "\<exists>s1 s2 p1 p2. GetSchemaVersion (sm_repo sm) i v1 w = Inr s1 \<and> GetSchemaVersion (sm_repo sm) i v2 w = Inr s2
     \<and> extractProperties (sm_jsonErr sm) (sv_schema s1) = Inr p1
     \<and> extractProperties (sm_jsonErr sm) (sv_schema s2) = Inr p2
     \<and> d = \<lparr>sd_changes = detect_changes p1 p2, sd_compatible = keeps p1 p2\<rparr>"
  using assms by (auto simp: CompareSchemas_def DetectBreakingChanges_def detect_changes_breaking
      split: sum.splits if_splits)

section \<open>Properties\<close>


text \<open>
  A repository of one stream kept in memory, to run the manager on: its versions, its current
  schema and what the cache holds.
\<close>

type_synonym one_stream = "raw_message list \<times> raw_message \<times> raw_message option"

definition version_record :: "nat \<Rightarrow> raw_message \<Rightarrow> schema_version" where
  "version_record n schema = \<lparr>sv_id = [], sv_stream_id = ''s1'', sv_version = int n, sv_schema = schema, sv_diff = []\<rparr>"

definition one_repo :: "one_stream stream_repository" where
  "one_repo = \<lparr>
     GetStreamByID = (\<lambda>i (vs, cur, c). Inr \<lparr>sr_id = i, sr_connection_id = ''c1'', sr_name = ''users'',
        sr_namespace = [], sr_schema = cur, sr_sync_modes = []\<rparr>),
     UpsertStream = (\<lambda>r (vs, cur, c). (Inr (r\<lparr>sr_id := ''s1''\<rparr>), (vs, sr_schema r, c))),
     CreateSchemaVersion = (\<lambda>v (vs, cur, c). (Inr v, (vs @ [sv_schema v], cur, c))),
     GetSchemaVersion = (\<lambda>i n (vs, cur, c). if 1 \<le> n \<and> n \<le> int (length vs)
        then Inr (version_record (nat n) (vs ! nat (n - 1))) else Inl (Sentinel ErrNotFound)),
     GetLatestSchemaVersion = (\<lambda>i (vs, cur, c). if vs = [] then Inl (Sentinel ErrNotFound)
        else Inr (version_record (length vs) (last vs)))\<rparr>"

definition one_cache :: "one_stream schema_cache" where
  "one_cache = \<lparr>cache_Get = (\<lambda>i (vs, cur, c). Inr c), cache_Set = (\<lambda>i s (vs, cur, c). (None, (vs, cur, Some s))),
     cache_Invalidate = (\<lambda>i (vs, cur, c). (None, (vs, cur, None)))\<rparr>"

definition one_manager :: "one_stream schema_manager" where
  "one_manager = NewSchemaManager one_repo (Some one_cache) (\<lambda>_. NewError ''json'')"

lemmas one_defs = one_manager_def NewSchemaManager_def one_repo_def one_cache_def version_record_def

text \<open>\<open>{"properties":{"id":{"type":"x"}}}\<close> with a title, and with the type nullable.\<close>

definition schema_plain :: raw_message where
  "schema_plain = ''{\"properties\":{\"id\":{\"type\":\"x\"}}}''"

definition schema_titled :: raw_message where
  "schema_titled = ''{\"title\":1,\"properties\":{\"id\":{\"type\":\"x\"}}}''"

definition schema_nullable :: raw_message where
  "schema_nullable = ''{\"properties\":{\"id\":{\"type\":[\"x\",\"null\"]}}}''"

definition schema_flat :: raw_message where
  "schema_flat = ''{\"id\":{\"type\":\"x\"}}''"

lemmas schema_eval = schema_plain_def schema_titled_def schema_nullable_def schema_flat_def
  extractProperties_def unmarshal_properties_def field_values_def to_lower_def char_byte_def byte_def
  decode_members_def parsePropertyType_def property_type_value_def json_eval

lemma plain_properties:
  "extractProperties je schema_plain = Inr [(''id'', \<lparr>pi_type = ''x'', pi_nullable = False\<rparr>)]"
  by (simp add: schema_eval)

lemma titled_properties:
  "extractProperties je schema_titled = Inr [(''id'', \<lparr>pi_type = ''x'', pi_nullable = False\<rparr>)]"
  by (simp add: schema_eval)

lemma nullable_properties:
  "extractProperties je schema_nullable = Inr [(''id'', \<lparr>pi_type = ''x'', pi_nullable = True\<rparr>)]"
  by (simp add: schema_eval)


text \<open>
  Compatibility is transitive. If version \<open>v2\<close> is reported compatible with \<open>v1\<close>, and \<open>v3\<close> with
  \<open>v2\<close>, then comparing \<open>v1\<close> with \<open>v3\<close> returns a diff without an error and reports them compatible:
  checking each new version against its predecessor is enough.
\<close>

theorem compatibility_transitive:
  assumes "CompareSchemas sm streamID v1 v2 w = Inr d12" "sd_compatible d12"
    and "CompareSchemas sm streamID v2 v3 w = Inr d23" "sd_compatible d23"
  shows "\<exists>d13. CompareSchemas sm streamID v1 v3 w = Inr d13 \<and> sd_compatible d13"
proof (cases "v1 = v2 \<or> v2 = v3 \<or> v1 = v3")
  case True
  with assms show ?thesis by (auto simp: CompareSchemas_def split: if_splits)
next
  case False
  from CompareSchemas_ok [OF assms(1)] CompareSchemas_ok [OF assms(3)] False obtain s1 s2 s3 p1 p2 p3 where
    s: "GetSchemaVersion (sm_repo sm) streamID v1 w = Inr s1" "GetSchemaVersion (sm_repo sm) streamID v3 w = Inr s3"
      "extractProperties (sm_jsonErr sm) (sv_schema s1) = Inr p1"
      "extractProperties (sm_jsonErr sm) (sv_schema s3) = Inr p3"
    and k: "keeps p1 p2" "keeps p2 p3"
    using assms(2,4) by auto
  have "streamID \<noteq> []" using assms(1) by (auto simp: CompareSchemas_def)
  with s keeps_trans [OF k] False show ?thesis
    by (simp add: CompareSchemas_def DetectBreakingChanges_def detect_changes_breaking)
qed

theorem compatibility_transitive_witness:
  "\<exists>d13. CompareSchemas one_manager ''s1'' 1 3 ([schema_plain, schema_titled, schema_nullable], [], None) = Inr d13
     \<and> sd_compatible d13"
proof -
  let ?w = "([schema_plain, schema_titled, schema_nullable], [], None)"
  let ?d12 = "\<lparr>sd_changes = [], sd_compatible = True\<rparr>"
  let ?d23 = "\<lparr>sd_changes = [\<lparr>ch_type = ChangeNullable, ch_field = ''id'', ch_old = ''nullable=false'',
     ch_new = ''nullable=true'', ch_breaking = False\<rparr>], sd_compatible = True\<rparr>"
  have "CompareSchemas one_manager ''s1'' 1 2 ?w = Inr ?d12"
    "CompareSchemas one_manager ''s1'' 2 3 ?w = Inr ?d23"
    by (simp_all add: CompareSchemas_def DetectBreakingChanges_def one_defs plain_properties
        nullable_properties titled_properties detect_changes_def sorted_fields_def field_changes_def nullable_text_def)
  from compatibility_transitive [OF this(1) _ this(2)] show ?thesis by simp
qed

text \<open>
  A schema without a \<open>properties\<close> object is read as having no fields. Decoding such an object
  into the struct succeeds with a nil map, so \<open>extractProperties\<close> returns before it reaches the
  flat reading, and the comparison of any two flat schemas finds no change, removed and retyped
  fields included.
\<close>

theorem flat_schemas_never_differ:
  assumes "json_parse old = Some (JObj ms)" "json_parse new = Some (JObj ns)"
    and "\<forall>k \<in> fst ` (set ms \<union> set ns). fold_name k \<noteq> ''properties''"
  shows "extractProperties jsonErr old = Inr [] \<and> DetectBreakingChanges jsonErr old new = Inr []"
proof -
  have "field_values ''properties'' ms = []" "field_values ''properties'' ns = []"
    using assms(3) by (force simp: field_values_def filter_empty_conv)+
  then have "extractProperties jsonErr old = Inr []" "extractProperties jsonErr new = Inr []"
    using assms(1,2) by (simp_all add: extractProperties_def unmarshal_properties_def)
  then show ?thesis by (simp add: DetectBreakingChanges_def detect_changes_def sorted_fields_def)
qed

lemma flat_parses: "json_parse schema_flat = Some (JObj [(''id'', JObj [(''type'', JStr ''x'')])])"
  by (simp add: schema_flat_def json_eval)

theorem flat_schemas_never_differ_witness:
  "DetectBreakingChanges (\<lambda>_. NewError ''json'') schema_flat ''{}'' = Inr []"
  using flat_schemas_never_differ [OF flat_parses, of "''{}''" "[]" "\<lambda>_. NewError ''json''"]
  by (simp add: json_eval to_lower_def char_byte_def)


definition users_stream :: "raw_message \<Rightarrow> stream" where
  "users_stream schema = \<lparr>s_name = ''users'', s_namespace = [], s_display_name = [], s_schema = schema,
     s_supported_sync_modes = [SyncModeFullRefresh], s_default_cursor_field = [], s_source_defined_pk = False,
     s_primary_key = []\<rparr>"

definition users_record :: "raw_message \<Rightarrow> stream_record" where
  "users_record schema = \<lparr>sr_id = ''s1'', sr_connection_id = ''c1'', sr_name = ''users'',
     sr_namespace = [], sr_schema = schema, sr_sync_modes = [''full_refresh'']\<rparr>"

lemma users_fields [simp]: "sr_id (users_record schema) = ''s1''" "s_schema (users_stream schema) = schema"
  by (simp_all add: users_record_def users_stream_def)

lemma one_upsert:
  "UpsertStream (sm_repo one_manager) \<lparr>sr_id = [], sr_connection_id = ''c1'', sr_name = s_name (users_stream schema),
     sr_namespace = s_namespace (users_stream schema), sr_schema = s_schema (users_stream schema),
     sr_sync_modes = map sync_mode_text (s_supported_sync_modes (users_stream schema))\<rparr> (vs, cur, c)
   = (Inr (users_record schema), (vs, schema, c))"
  by (simp add: one_defs users_stream_def users_record_def sync_mode_text_def)

lemma one_latest:
  "GetLatestSchemaVersion (sm_repo one_manager) (sr_id (users_record schema)) ([schema_plain], cur, c)
   = Inr (version_record 1 schema_plain)"
  by (simp add: one_defs)

lemma one_latest_properties:
  "extractProperties (sm_jsonErr one_manager) (sv_schema (version_record 1 schema_plain))
   = Inr [(''id'', \<lparr>pi_type = ''x'', pi_nullable = False\<rparr>)]"
  by (simp add: version_record_def plain_properties)


text \<open>
  \<open>GetSchema\<close> can return an outdated schema. If a stream's schema is in the cache and discovery
  then stores a schema that differs in anything but its fields' types and nullability, the stream
  record gets the new schema but the cache entry is kept, and \<open>GetSchema\<close>, which is to return the
  latest schema, still answers with the old one.
\<close>

theorem get_schema_stale_after_discovery:
  assumes "connectionID \<noteq> []" "sr_id up \<noteq> []"
    and "UpsertStream (sm_repo sm) \<lparr>sr_id = [], sr_connection_id = connectionID, sr_name = s_name st,
           sr_namespace = s_namespace st, sr_schema = s_schema st,
           sr_sync_modes = map sync_mode_text (s_supported_sync_modes st)\<rparr> w = (Inr up, w1)"
    and "GetLatestSchemaVersion (sm_repo sm) (sr_id up) w1 = Inr v"
    and "extractProperties (sm_jsonErr sm) (sv_schema v) = Inr old"
    and "extractProperties (sm_jsonErr sm) (s_schema st) = Inr new" "map_of old = map_of new"
    and "sm_cache sm = Some c" "cache_Get c (sr_id up) w1 = Inr (Some cached)"
  shows "DiscoverAndStore sm connectionID (Some [st]) w = (None, w1)
     \<and> GetSchema sm (sr_id up) w1 = (Inr cached, w1)"
proof -
  have "\<not> schema_changed sm (Inr v) (s_schema st)"
    using assms(5-7) by (simp add: schema_changed_def DetectBreakingChanges_def detect_changes_Nil)
  with assms show ?thesis by (simp add: DiscoverAndStore_def store_stream_def Let_def GetSchema_def)
qed

theorem get_schema_stale_after_discovery_witness:
  "\<exists>w1. DiscoverAndStore one_manager ''c1'' (Some [users_stream schema_titled])
       ([schema_plain], schema_plain, Some schema_plain) = (None, w1)
     \<and> (\<exists>r. GetStreamByID one_repo ''s1'' w1 = Inr r \<and> sr_schema r = schema_titled)
     \<and> GetSchema one_manager ''s1'' w1 = (Inr schema_plain, w1)"
proof -
  have ne: "''c1'' \<noteq> []" "sr_id (users_record schema_titled) \<noteq> []" by (simp_all add: users_record_def)
  have new: "extractProperties (sm_jsonErr one_manager) (s_schema (users_stream schema_titled))
      = Inr [(''id'', \<lparr>pi_type = ''x'', pi_nullable = False\<rparr>)]"
    by (simp add: users_stream_def titled_properties)
  have c: "sm_cache one_manager = Some one_cache"
    "cache_Get one_cache (sr_id (users_record schema_titled)) ([schema_plain], schema_titled, Some schema_plain)
       = Inr (Some schema_plain)"
    by (simp_all add: one_defs)
  from get_schema_stale_after_discovery [OF ne one_upsert one_latest one_latest_properties new refl c, of schema_plain]
  show ?thesis
    by (intro exI [of _ "([schema_plain], schema_titled, Some schema_plain)"])
      (simp add: users_record_def one_repo_def)
qed

end
