(* ===== verification/Registry.thy ===== *)
theory Registry
  imports Protocol
begin

text \<open>
  \<open>pkg/cdk/registry.go\<close>: the process-wide connector registry. The connectors themselves are
  values of the type parameters \<open>'s\<close> (sources) and \<open>'d\<close> (destinations); a bidirectional
  connector is both, here a pair.
\<close>

record connector_meta =
  cm_name :: string
  cm_display_name :: string
  cm_version :: string
  cm_type :: string
  cm_category :: string
  cm_icon :: string

record ('s, 'd) registry =
  reg_sources :: "string \<rightharpoonup> 's"
  reg_destinations :: "string \<rightharpoonup> 'd"
  reg_bidirectional :: "string \<rightharpoonup> ('s \<times> 'd)"
  reg_meta :: "string \<rightharpoonup> connector_meta"

definition empty_registry :: "('s, 'd) registry" where
  "empty_registry = \<lparr>reg_sources = Map.empty, reg_destinations = Map.empty,
     reg_bidirectional = Map.empty, reg_meta = Map.empty\<rparr>"

definition RegisterSource :: "string \<Rightarrow> connector_meta \<Rightarrow> 's \<Rightarrow> ('s, 'd) registry \<Rightarrow> ('s, 'd) registry" where
  "RegisterSource name meta s reg = reg
     \<lparr>reg_sources := (reg_sources reg)(name \<mapsto> s),
      reg_meta := (reg_meta reg)(name \<mapsto> meta\<lparr>cm_type := ''source''\<rparr>)\<rparr>"

definition RegisterDestination :: "string \<Rightarrow> connector_meta \<Rightarrow> 'd \<Rightarrow> ('s, 'd) registry \<Rightarrow> ('s, 'd) registry" where
  "RegisterDestination name meta d reg = reg
     \<lparr>reg_destinations := (reg_destinations reg)(name \<mapsto> d),
      reg_meta := (reg_meta reg)(name \<mapsto> meta\<lparr>cm_type := ''destination''\<rparr>)\<rparr>"

definition RegisterBidirectional ::
    "string \<Rightarrow> connector_meta \<Rightarrow> 's \<times> 'd \<Rightarrow> ('s, 'd) registry \<Rightarrow> ('s, 'd) registry" where
  "RegisterBidirectional name meta b reg = reg
     \<lparr>reg_bidirectional := (reg_bidirectional reg)(name \<mapsto> b),
      reg_sources := (reg_sources reg)(name \<mapsto> fst b),
      reg_destinations := (reg_destinations reg)(name \<mapsto> snd b),
      reg_meta := (reg_meta reg)(name \<mapsto> meta\<lparr>cm_type := ''bidirectional''\<rparr>)\<rparr>"

definition GetSource :: "('s, 'd) registry \<Rightarrow> string \<Rightarrow> 's result" where
  "GetSource reg name = (case reg_sources reg name of
     None \<Rightarrow> Inl (NewError (''source connector '' @ quoted name @ '' not registered''))
   | Some s \<Rightarrow> Inr s)"

definition GetDestination :: "('s, 'd) registry \<Rightarrow> string \<Rightarrow> 'd result" where
  "GetDestination reg name = (case reg_destinations reg name of
     None \<Rightarrow> Inl (NewError (''destination connector '' @ quoted name @ '' not registered''))
   | Some d \<Rightarrow> Inr d)"

definition GetBidirectional :: "('s, 'd) registry \<Rightarrow> string \<Rightarrow> ('s \<times> 'd) result" where
  "GetBidirectional reg name = (case reg_bidirectional reg name of
     None \<Rightarrow> Inl (NewError (''bidirectional connector '' @ quoted name @ '' not registered''))
   | Some b \<Rightarrow> Inr b)"

definition GetMeta :: "('s, 'd) registry \<Rightarrow> string \<Rightarrow> connector_meta result" where
  "GetMeta reg name = (case reg_meta reg name of
     None \<Rightarrow> Inl (NewError (''connector '' @ quoted name @ '' not registered''))
   | Some m \<Rightarrow> Inr m)"

lemmas registry_defs =
  RegisterSource_def RegisterDestination_def RegisterBidirectional_def
  GetSource_def GetDestination_def GetBidirectional_def GetMeta_def

lemma GetDestination_no_retry: "GetDestination reg name = Inl e \<Longrightarrow> \<not> IsRetryable e"
  by (auto simp: GetDestination_def split: option.splits)

text \<open>Every registered connector has metadata, and a bidirectional one is also a source and a destination.\<close>

definition registry_wf :: "('s, 'd) registry \<Rightarrow> bool" where
  "registry_wf reg \<longleftrightarrow> dom (reg_sources reg) \<union> dom (reg_destinations reg) = dom (reg_meta reg)
     \<and> dom (reg_bidirectional reg) \<subseteq> dom (reg_sources reg) \<inter> dom (reg_destinations reg)"

lemma registry_wf_empty: "registry_wf empty_registry"
  by (simp add: registry_wf_def empty_registry_def)

lemma registry_wf_register:
  assumes "registry_wf reg"
  shows "registry_wf (RegisterSource n m s reg)" and "registry_wf (RegisterDestination n m d reg)"
    and "registry_wf (RegisterBidirectional n m b reg)"
  using assms by (auto simp: registry_wf_def registry_defs)

end
