(* ===== verification/Extract.thy ===== *)
theory Extract
  imports Json Registry
begin

text \<open>
  The extract phase: \<open>internal/orchestration/activities/extract_activities.go\<close> (fetching a batch,
  determining partitions) and \<open>internal/orchestration/workflows/extract.go\<close> (the workflow). A
  source connector is a pair of functions on the world \<open>'w\<close>: \<open>Read\<close> is given, besides its Go
  arguments, the number of records after which its reader cancels the context, and returns the
  messages its reader receives until the channel is closed and its error. The workflow runs
  activities through Temporal, whose outcome for an input is an argument. Partition fetches run
  concurrently; here their effects on the world follow one another in the order of the
  partitions.
\<close>

section \<open>Fetching a batch\<close>

record 'w source =
  src_Read :: "raw_message \<Rightarrow> configured_stream list \<Rightarrow> state_map \<Rightarrow> int \<Rightarrow> 'w
    \<Rightarrow> (message list \<times> go_error option) \<times> 'w"
  src_Discover :: "raw_message \<Rightarrow> 'w \<Rightarrow> stream list result \<times> 'w"

record fetch_input =
  fi_connector :: string
  fi_config :: raw_message
  fi_streams :: "configured_stream list"
  fi_state :: state_map
  fi_batch_size :: int
  fi_partition :: "partition_range option"

record fetch_output =
  fo_records :: "rec list"
  fo_new_state :: state_map
  fo_has_more :: bool

definition partition_key :: string where
  "partition_key = ''__partition''"

text \<open>\<open>json.Marshal\<close> of the map that describes a partition, its keys in order.\<close>

definition partition_state :: "partition_range \<Rightarrow> raw_message" where
  "partition_state p = ''{'' @ join_with '',''
     [encode_string ''end_key'' @ '':'' @ encode_string (pr_end_key p),
      encode_string ''limit'' @ '':'' @ show_int (pr_limit p),
      encode_string ''offset'' @ '':'' @ show_int (pr_offset p),
      encode_string ''partition_id'' @ '':'' @ show_int (pr_partition_id p),
      encode_string ''start_key'' @ '':'' @ encode_string (pr_start_key p)] @ ''}''"

text \<open>The loop over the received messages; cancelling the context is reflected in what arrives.\<close>

fun collect :: "int \<Rightarrow> message list \<Rightarrow> rec list \<Rightarrow> state_map \<Rightarrow> bool \<Rightarrow> rec list \<times> state_map \<times> bool" where
  "collect limit [] records newState hasMore = (records, newState, hasMore)"
| "collect limit (msg # msgs) records newState hasMore = (case m_type msg of
     MessageTypeRecord \<Rightarrow> (case m_record msg of
         None \<Rightarrow> collect limit msgs records newState hasMore
       | Some r \<Rightarrow> collect limit msgs (records @ [r]) newState
                      (hasMore \<or> int (length (records @ [r])) \<ge> limit))
   | MessageTypeState \<Rightarrow> (case m_state msg of
         None \<Rightarrow> collect limit msgs records newState hasMore
       | Some st \<Rightarrow>
           if st_stream st \<noteq> [] then collect limit msgs records (newState(st_stream st \<mapsto> st_data st)) hasMore
           else collect limit msgs records (newState(''__global'' \<mapsto> st_data st)) hasMore)
   | _ \<Rightarrow> collect limit msgs records newState hasMore)"

definition batch_limit :: "fetch_input \<Rightarrow> int" where
  "batch_limit input = (if fi_batch_size input \<le> 0 then 1000 else fi_batch_size input)"

text \<open>
  A negative batch size makes the \<open>make\<close> of the output channel panic; the Temporal worker recovers a
  panic of an activity and reports it as the activity's error.
\<close>

definition channel_panic :: go_error where
  "channel_panic = NewError ''makechan: size out of range''"

definition FetchBatchActivity :: "('w source, 'd) registry \<Rightarrow> fetch_input \<Rightarrow> 'w \<Rightarrow> fetch_output result \<times> 'w" where
  "FetchBatchActivity reg input w = (case GetSource reg (fi_connector input) of
     Inl err \<Rightarrow> (Inl (NewConnectorError (fi_connector input) ''fetch_batch'' err), w)
   | Inr src \<Rightarrow>
      if fi_batch_size input < 0 then (Inl channel_panic, w)
      else
      (let state = (case fi_partition input of None \<Rightarrow> fi_state input
             | Some p \<Rightarrow> (fi_state input)(partition_key \<mapsto> partition_state p));
           batchLimit = batch_limit input
       in case src_Read src (fi_config input) (fi_streams input) state batchLimit w of
            ((msgs, readErr), w) \<Rightarrow>
              (case collect batchLimit msgs [] (state(partition_key := None)) False of
                 (records, newState, hasMore) \<Rightarrow>
                   (case readErr of
                      Some err \<Rightarrow>
                        if \<not> hasMore then (Inl (NewConnectorError (fi_connector input) ''read'' err), w)
                        else (Inr \<lparr>fo_records = records, fo_new_state = newState, fo_has_more = hasMore\<rparr>, w)
                    | None \<Rightarrow>
                        (Inr \<lparr>fo_records = records, fo_new_state = newState, fo_has_more = hasMore\<rparr>, w)))))"

section \<open>Determining partitions\<close>

record partitions_input =
  pi_connector :: string
  pi_config :: raw_message
  pi_streams :: "configured_stream list"
  pi_state :: state_map
  pi_total_estimate :: int

definition maxPartitionsLimit :: int where
  "maxPartitionsLimit = 8"

definition partition_count :: "int \<Rightarrow> int" where
  "partition_count totalEstimate =
    (let n = totalEstimate sdiv DefaultBatchSize;
         n = (if n < 1 then 1 else n)
     in if n > maxPartitionsLimit then maxPartitionsLimit else n)"

definition partition_ranges :: "int \<Rightarrow> partition_range list" where
  "partition_ranges totalEstimate =
    (let n = partition_count totalEstimate;
         recordsPerPartition = totalEstimate sdiv n
     in map (\<lambda>i. let offset = wrap64 (int i * recordsPerPartition)
                  in \<lparr>pr_partition_id = int i, pr_start_key = [], pr_end_key = [], pr_offset = offset,
                      pr_limit = (if int i = n - 1 then wrap64 (totalEstimate - offset) else recordsPerPartition)\<rparr>)
          [0..<nat n])"

definition DeterminePartitionsActivity ::
    "('w source, 'd) registry \<Rightarrow> partitions_input \<Rightarrow> 'w \<Rightarrow> partition_range list result \<times> 'w" where
  "DeterminePartitionsActivity reg input w =
    (if pi_total_estimate input \<le> 0
     then (case GetSource reg (pi_connector input) of
         Inl err \<Rightarrow> (Inl (NewConnectorError (pi_connector input) ''determine_partitions'' err), w)
       | Inr src \<Rightarrow> (case src_Discover src (pi_config input) w of
             (Inl err, w) \<Rightarrow> (Inl (NewConnectorError (pi_connector input) ''discover_for_partitions'' err), w)
           | (Inr streams, w) \<Rightarrow> (Inr (partition_ranges (wrap64 (int (length streams) * 10000))), w)))
     else (Inr (partition_ranges (pi_total_estimate input)), w))"

section \<open>The workflow\<close>

record extract_params =
  ep_connector :: string
  ep_config :: raw_message
  ep_streams :: "configured_stream list"
  ep_state :: state_map
  ep_batch_size :: int
  ep_tenant :: string
  ep_sync :: string

record extract_result =
  er_records :: "rec list"
  er_records_count :: int
  er_new_state :: state_map
  er_partitions_used :: int

text \<open>The activities as Temporal runs them for the workflow, retries included.\<close>

record 'w extract_activities =
  xa_partitions :: "partitions_input \<Rightarrow> 'w \<Rightarrow> partition_range list result \<times> 'w"
  xa_fetch :: "fetch_input \<Rightarrow> 'w \<Rightarrow> fetch_output result \<times> 'w"
  xa_save :: "string \<Rightarrow> string \<Rightarrow> state_map \<Rightarrow> 'w \<Rightarrow> go_error option \<times> 'w"

text \<open>State maps are values here, so a copy is the map itself.\<close>

definition copyState :: "state_map \<Rightarrow> state_map" where
  "copyState state = state"

definition mergeStateRaw :: "state_map \<Rightarrow> state_map \<Rightarrow> state_map" where
  "mergeStateRaw target source = target ++ source"

definition batch_input :: "extract_params \<Rightarrow> int \<Rightarrow> state_map \<Rightarrow> partition_range option \<Rightarrow> fetch_input" where
  "batch_input params batchSize state p = \<lparr>fi_connector = ep_connector params, fi_config = ep_config params,
     fi_streams = ep_streams params, fi_state = state, fi_batch_size = batchSize, fi_partition = p\<rparr>"

text \<open>The loop of \<open>extractSequential\<close>; \<open>None\<close> when it does not end.\<close>

partial_function (option) sequential_loop :: "'w extract_activities \<Rightarrow> extract_params \<Rightarrow> int
    \<Rightarrow> rec list \<Rightarrow> state_map \<Rightarrow> 'w \<Rightarrow> ((rec list \<times> state_map) result \<times> 'w) option" where
  "sequential_loop acts params batchSize allRecords currentState w =
    (case xa_fetch acts (batch_input params batchSize currentState None) w of
       (Inl err, w) \<Rightarrow> Some (Inl (Wrapped ''fetch batch failed: '' err), w)
     | (Inr out, w) \<Rightarrow>
         if \<not> fo_has_more out
         then Some (Inr (allRecords @ fo_records out, mergeStateRaw currentState (fo_new_state out)), w)
         else sequential_loop acts params batchSize (allRecords @ fo_records out)
                (mergeStateRaw currentState (fo_new_state out)) w)"

definition extractSequential :: "'w extract_activities \<Rightarrow> extract_params \<Rightarrow> int \<Rightarrow> 'w
    \<Rightarrow> ((rec list \<times> state_map) result \<times> 'w) option" where
  "extractSequential acts params batchSize w =
     sequential_loop acts params batchSize [] (copyState (ep_state params)) w"

fun run_fetches :: "'w extract_activities \<Rightarrow> extract_params \<Rightarrow> int \<Rightarrow> partition_range list \<Rightarrow> 'w
    \<Rightarrow> fetch_output result list \<times> 'w" where
  "run_fetches acts params batchSize [] w = ([], w)"
| "run_fetches acts params batchSize (p # ps) w =
    (case xa_fetch acts (batch_input params batchSize (copyState (ep_state params)) (Some p)) w of
       (r, w) \<Rightarrow> (case run_fetches acts params batchSize ps w of (rs, w) \<Rightarrow> (r # rs, w)))"

fun gather :: "fetch_output result list \<Rightarrow> rec list \<Rightarrow> state_map \<Rightarrow> (rec list \<times> state_map) result" where
  "gather [] allRecords mergedState = Inr (allRecords, mergedState)"
| "gather (f # fs) allRecords mergedState = (case f of
     Inl err \<Rightarrow> Inl (Wrapped ''partition fetch failed: '' err)
   | Inr out \<Rightarrow> gather fs (allRecords @ fo_records out) (mergeStateRaw mergedState (fo_new_state out)))"

definition extractWithPartitions :: "'w extract_activities \<Rightarrow> extract_params \<Rightarrow> partition_range list \<Rightarrow> int
    \<Rightarrow> 'w \<Rightarrow> (rec list \<times> state_map) result \<times> 'w" where
  "extractWithPartitions acts params partitions batchSize w =
    (case run_fetches acts params batchSize partitions w of
       (futures, w) \<Rightarrow> (gather futures [] (copyState (ep_state params)), w))"

definition ExtractWorkflow :: "'w extract_activities \<Rightarrow> extract_params \<Rightarrow> 'w
    \<Rightarrow> (extract_result result \<times> 'w) option" where
  "ExtractWorkflow acts params w =
    (let batchSize = (if ep_batch_size params \<le> 0 then DefaultBatchSize else ep_batch_size params)
     in case xa_partitions acts \<lparr>pi_connector = ep_connector params, pi_config = ep_config params,
            pi_streams = ep_streams params, pi_state = ep_state params, pi_total_estimate = 0\<rparr> w of
          (parts, w) \<Rightarrow>
            let partitions = (case parts of Inl _ \<Rightarrow> [] | Inr ps \<Rightarrow> ps);
                usePartitions = (length partitions > 1);
                extracted = (if usePartitions then Some (extractWithPartitions acts params partitions batchSize w)
                             else extractSequential acts params batchSize w)
            in case extracted of
                 None \<Rightarrow> None
               | Some (Inl err, w) \<Rightarrow> Some (Inl err, w)
               | Some (Inr (allRecords, newState), w) \<Rightarrow>
                   (let currentState = mergeStateRaw (copyState (ep_state params)) newState;
                        w = snd (xa_save acts (ep_tenant params) (ep_sync params) currentState w)
                    in Some (Inr \<lparr>er_records = allRecords, er_records_count = int (length allRecords),
                         er_new_state = currentState,
                         er_partitions_used = (if usePartitions then int (length partitions) else 1)\<rparr>, w)))"

section \<open>Fetching: lemmas\<close>

definition message_records :: "message \<Rightarrow> rec list" where
  "message_records m = (if m_type m = MessageTypeRecord then (case m_record m of None \<Rightarrow> [] | Some r \<Rightarrow> [r]) else [])"

definition records_of :: "message list \<Rightarrow> rec list" where
  "records_of msgs = concat (map message_records msgs)"

definition apply_state :: "message \<Rightarrow> state_map \<Rightarrow> state_map" where
  "apply_state m st = (if m_type m = MessageTypeState then (case m_state m of None \<Rightarrow> st
     | Some s \<Rightarrow> st((if st_stream s \<noteq> [] then st_stream s else ''__global'') \<mapsto> st_data s)) else st)"

lemma records_of_simps [simp]: "records_of [] = []" "records_of (m # ms) = message_records m @ records_of ms"
  by (simp_all add: records_of_def)

lemma collect_step:
  "collect limit (m # ms) rs st hm = collect limit ms (rs @ message_records m) (apply_state m st)
     (hm \<or> message_records m \<noteq> [] \<and> limit \<le> int (length (rs @ message_records m)))"
  by (auto simp: message_records_def apply_state_def add.commute split: message_type.splits option.splits)

lemma collect_spec:
  "collect limit msgs rs st hm = (rs @ records_of msgs, fold apply_state msgs st,
     hm \<or> records_of msgs \<noteq> [] \<and> limit \<le> int (length (rs @ records_of msgs)))"
proof (induction msgs arbitrary: rs st hm)
  case (Cons m ms)
  show ?case unfolding collect_step Cons.IH by auto
qed simp

text \<open>What a connector delivers for a fetch, before the batch is put together.\<close>

definition fetch_read :: "'w source \<Rightarrow> fetch_input \<Rightarrow> 'w \<Rightarrow> (message list \<times> go_error option) \<times> 'w" where
  "fetch_read src input w = src_Read src (fi_config input) (fi_streams input)
     (case fi_partition input of None \<Rightarrow> fi_state input
      | Some p \<Rightarrow> (fi_state input)(partition_key \<mapsto> partition_state p)) (batch_limit input) w"

lemma FetchBatchActivity_eq:
  assumes "reg_sources reg (fi_connector input) = Some src" "0 \<le> fi_batch_size input"
    and "fetch_read src input w = ((msgs, readErr), w')"
  shows "FetchBatchActivity reg input w =
    ((let more = (batch_limit input \<le> int (length (records_of msgs))) in
      case readErr of
        Some err \<Rightarrow> if \<not> more then Inl (NewConnectorError (fi_connector input) ''read'' err)
           else Inr \<lparr>fo_records = records_of msgs,
                  fo_new_state = fold apply_state msgs ((fi_state input)(partition_key := None)),
                  fo_has_more = more\<rparr>
      | None \<Rightarrow> Inr \<lparr>fo_records = records_of msgs,
                  fo_new_state = fold apply_state msgs ((fi_state input)(partition_key := None)),
                  fo_has_more = more\<rparr>), w')"
proof -
  have "(records_of msgs \<noteq> [] \<and> batch_limit input \<le> int (length (records_of msgs)))
      \<longleftrightarrow> batch_limit input \<le> int (length (records_of msgs))"
    by (auto simp: batch_limit_def split: if_splits)
  with assms show ?thesis
    by (auto simp: FetchBatchActivity_def GetSource_def fetch_read_def collect_spec Let_def
        split: option.splits)
qed

section \<open>Partitions: lemmas\<close>

lemma partition_count_bounds: "1 \<le> partition_count t \<and> partition_count t \<le> 8"
  by (auto simp: partition_count_def maxPartitionsLimit_def Let_def)

definition range_piece :: "partition_range \<Rightarrow> int \<times> int" where
  "range_piece p = (pr_offset p, pr_offset p + pr_limit p)"

definition estimate_ok :: "int \<Rightarrow> bool" where
  "estimate_ok t \<longleftrightarrow> 0 \<le> t \<and> t < 2 ^ 63"

lemma tiles_steps: "0 \<le> q \<Longrightarrow> tiles 0 (map (\<lambda>i. (int i * q, int i * q + q)) [0..<m]) (int m * q)"
  by (induction m) (auto simp: tiles_append algebra_simps)

lemma partition_ranges_tile:
  assumes "estimate_ok t"
  shows "tiles 0 (map range_piece (partition_ranges t)) t"
proof -
  define n where "n = partition_count t"
  define q where "q = t sdiv n"
  define m where "m = nat (n - 1)"
  have n: "1 \<le> n" "nat n = Suc m" "int m = n - 1"
    using partition_count_bounds [of t] by (auto simp: n_def m_def)
  have qd: "q = t div n" "0 \<le> q" using assms n(1)
    by (auto simp: q_def estimate_ok_def sdiv_nonneg pos_imp_zdiv_nonneg_iff)
  have bound: "int i * q \<le> t" if "i \<le> m" for i
  proof -
    have "int i * q \<le> n * q" using that n qd(2) by (intro mult_right_mono) auto
    also have "\<dots> \<le> t" unfolding qd(1) using n(1) using mult_div_mod_eq [of n t] pos_mod_sign [of n t] by linarith
    finally show ?thesis .
  qed
  have wr: "wrap64 (int i * q) = int i * q" "wrap64 (t - int i * q) = t - int i * q" if "i \<le> m" for i
  proof -
    have "0 \<le> int i * q" using qd(2) by simp
    with bound [OF that] assms show "wrap64 (int i * q) = int i * q" "wrap64 (t - int i * q) = t - int i * q"
      by (auto intro!: wrap64_id simp: in_i64_def estimate_ok_def)
  qed
  have init: "map (\<lambda>i. range_piece (let offset = wrap64 (int i * q) in
        \<lparr>pr_partition_id = int i, pr_start_key = [], pr_end_key = [], pr_offset = offset,
         pr_limit = (if int i = n - 1 then wrap64 (t - offset) else q)\<rparr>)) [0..<m]
      = map (\<lambda>i. (int i * q, int i * q + q)) [0..<m]"
    using n(3) wr by (auto simp: range_piece_def Let_def)
  have "map range_piece (partition_ranges t) = map (\<lambda>i. (int i * q, int i * q + q)) [0..<m] @ [(int m * q, t)]"
    unfolding partition_ranges_def Let_def n_def [symmetric] q_def [symmetric] n(2) map_map o_def
    using init n(3) wr [of m] by (simp add: range_piece_def Let_def)
  then show ?thesis using tiles_steps [OF qd(2), of m] bound [of m] by (auto simp: tiles_append)
qed

interpretation extract_tiling: tiling estimate_ok "\<lambda>t. 0" "\<lambda>t. t" "\<lambda>t. map range_piece (partition_ranges t)"
  by unfold_locales (rule partition_ranges_tile)

section \<open>Sequential extraction: lemmas\<close>

text \<open>
  A connector that pages through a table by the cursor in its state: at position \<open>n\<close> a fetch
  returns the next \<open>k\<close> records and a state that stands for \<open>n + k\<close>, and reports more exactly when
  \<open>k\<close> reaches the batch size; otherwise the table is exhausted.
\<close>

definition pages :: "(fetch_input \<Rightarrow> 'w \<Rightarrow> fetch_output result \<times> 'w) \<Rightarrow> string \<Rightarrow> rec list
    \<Rightarrow> (state_map \<Rightarrow> nat) \<Rightarrow> bool" where
  "pages fetch connector table pos \<longleftrightarrow> (\<forall>input w. fi_connector input = connector \<longrightarrow>
     fi_partition input = None \<longrightarrow> 0 < fi_batch_size input \<longrightarrow>
     pos (fi_state input) \<le> length table \<longrightarrow>
     (\<exists>k st w'. k \<le> length table - pos (fi_state input)
        \<and> fetch input w = (Inr \<lparr>fo_records = take k (drop (pos (fi_state input)) table), fo_new_state = st,
             fo_has_more = (fi_batch_size input \<le> int k)\<rparr>, w')
        \<and> pos (fi_state input ++ st) = pos (fi_state input) + k
        \<and> (int k < fi_batch_size input \<longrightarrow> pos (fi_state input) + k = length table)))"

lemma sequential_loop_pages:
  assumes "pages (xa_fetch acts) (ep_connector params) table pos" "0 < batchSize" "pos state \<le> length table"
  shows "\<exists>st w'. sequential_loop acts params batchSize acc state w
      = Some (Inr (acc @ drop (pos state) table, st), w') \<and> pos st = length table
      \<and> (\<forall>s0. s0 ++ state = state \<longrightarrow> s0 ++ st = st)"
  using assms(3)
proof (induction "length table - pos state" arbitrary: acc state w rule: less_induct)
  case less
  obtain k st w' where k: "k \<le> length table - pos state"
      "xa_fetch acts (batch_input params batchSize state None) w
        = (Inr \<lparr>fo_records = take k (drop (pos state) table), fo_new_state = st,
             fo_has_more = (batchSize \<le> int k)\<rparr>, w')"
      "pos (state ++ st) = pos state + k" "int k < batchSize \<longrightarrow> pos state + k = length table"
    using assms(1,2) less.prems unfolding pages_def
    by (metis (no_types, lifting) batch_input_def fetch_input.select_convs(1,4-6))
  show ?case
  proof (cases "batchSize \<le> int k")
    case True
    have "length table - pos (state ++ st) < length table - pos state" "pos (state ++ st) \<le> length table"
      using k(1,3) True assms(2) less.prems by auto
    from less.hyps [OF this, of "acc @ take k (drop (pos state) table)" w'] obtain s2 w2 where
      s2: "sequential_loop acts params batchSize (acc @ take k (drop (pos state) table)) (state ++ st) w'
          = Some (Inr (acc @ take k (drop (pos state) table) @ drop (k + pos state) table, s2), w2)"
        "pos s2 = length table" "\<forall>s0. s0 ++ (state ++ st) = state ++ st \<longrightarrow> s0 ++ s2 = s2"
      using k(3) by (auto simp: add.commute)
    have "take k (drop (pos state) table) @ drop (k + pos state) table = drop (pos state) table"
      by (metis append_take_drop_id drop_drop)
    with s2 True k(2) have "sequential_loop acts params batchSize acc state w
        = Some (Inr (acc @ drop (pos state) table, s2), w2)"
      by (subst sequential_loop.simps) (simp add: mergeStateRaw_def)
    with s2(2,3) show ?thesis by (metis map_add_assoc)
  next
    case False
    then show ?thesis using k(2-4) less.prems
      by (subst sequential_loop.simps) (auto simp: mergeStateRaw_def)
  qed
qed

lemma sequential_loop_stuck:
  assumes "\<And>st w. \<exists>rs st' w'. xa_fetch acts (batch_input params batchSize st None) w
      = (Inr \<lparr>fo_records = rs, fo_new_state = st', fo_has_more = True\<rparr>, w')"
  shows "sequential_loop acts params batchSize acc state w = None"
proof -
  have "a = acts \<longrightarrow> p = params \<longrightarrow> b = batchSize \<longrightarrow> False"
    if "sequential_loop a p b acc state w = Some r" for a p b acc state w r
    using that
  proof (rule sequential_loop.raw_induct [rotated])
    fix loop acts' params' b acc st w r
    assume IH: "\<And>a p b acc st w r. loop a p b acc st w = Some r \<Longrightarrow>
        a = acts \<longrightarrow> p = params \<longrightarrow> b = batchSize \<longrightarrow> False"
      and run: "(case xa_fetch acts' (batch_input params' b st None) w of
        (Inl err, w) \<Rightarrow> Some (Inl (Wrapped ''fetch batch failed: '' err), w)
      | (Inr out, w) \<Rightarrow> if \<not> fo_has_more out
          then Some (Inr (acc @ fo_records out, mergeStateRaw st (fo_new_state out)), w)
          else loop acts' params' b (acc @ fo_records out) (mergeStateRaw st (fo_new_state out)) w) = Some r"
    obtain rs st' w' where f: "xa_fetch acts (batch_input params batchSize st None) w
        = (Inr \<lparr>fo_records = rs, fo_new_state = st', fo_has_more = True\<rparr>, w')"
      using assms by blast
    show "acts' = acts \<longrightarrow> params' = params \<longrightarrow> b = batchSize \<longrightarrow> False"
    proof (intro impI)
      assume "acts' = acts" "params' = params" "b = batchSize"
      with run f have "loop acts params batchSize (acc @ rs) (mergeStateRaw st st') w' = Some r" by simp
      from IH [OF this] show False by simp
    qed
  qed
  from this [of acts params batchSize acc state w] show ?thesis
    by (cases "sequential_loop acts params batchSize acc state w") blast+
qed

section \<open>Properties\<close>


text \<open>
  A connector over a table: one stream \<open>t\<close>, whose state is the decimal number of records read. It
  stops when its context is cancelled and then sends its state.
\<close>

definition table_position :: "state_map \<Rightarrow> nat" where
  "table_position st = (case st ''t'' of None \<Rightarrow> 0
     | Some raw \<Rightarrow> (case read_int raw of Some n \<Rightarrow> nat n | None \<Rightarrow> 0))"

definition position_message :: "nat \<Rightarrow> message" where
  "position_message n = \<lparr>m_type = MessageTypeState, m_record = None,
     m_state = Some \<lparr>st_type = StateTypeStream, st_stream = ''t'', st_data = show_int (int n)\<rparr>,
     m_control = None, m_other = None\<rparr>"

definition table_read :: "rec list \<Rightarrow> state_map \<Rightarrow> int \<Rightarrow> message list" where
  "table_read table st limit =
    (let n = table_position st; rs = take (nat limit) (drop n table)
     in map record_message rs @ [position_message (n + length rs)])"

definition table_source :: "rec list \<Rightarrow> 'w source" where
  "table_source table = \<lparr>src_Read = (\<lambda>config cat st limit w. ((table_read table st limit, None), w)),
     src_Discover = (\<lambda>config w. (Inr [], w))\<rparr>"

definition table_registry :: "rec list \<Rightarrow> ('w source, unit) registry" where
  "table_registry table = RegisterSource ''db''
     \<lparr>cm_name = ''db'', cm_display_name = [], cm_version = [], cm_type = [], cm_category = [], cm_icon = []\<rparr>
     (table_source table) empty_registry"

definition sample_record :: "string \<Rightarrow> rec" where
  "sample_record d = \<lparr>r_stream = ''t'', r_namespace = [], r_data = d, r_emitted_at = 0\<rparr>"


lemma records_of_append [simp]: "records_of (ms @ ns) = records_of ms @ records_of ns"
  by (simp add: records_of_def)

lemma records_of_records [simp]: "records_of (map record_message rs) = rs"
  by (induction rs) (simp_all add: message_records_def record_message_def)

lemma fold_records [simp]: "fold apply_state (map record_message rs) st = st"
  by (induction rs) (simp_all add: apply_state_def record_message_def)


text \<open>
  C34: the partitions of an extraction cut the estimated range exactly. For every non-negative
  estimate that fits \<open>int64\<close>, there are between one and eight partitions, and each record position
  below the estimate lies in exactly one of them, no position outside does, and their limits sum up
  to the estimate.
\<close>

theorem extract_partitions_tile:
  assumes "0 \<le> t" "t < 2 ^ 63"
  shows "1 \<le> length (partition_ranges t) \<and> length (partition_ranges t) \<le> 8
     \<and> (\<forall>x. 0 \<le> x \<longrightarrow> x < t \<longrightarrow>
          length (filter (\<lambda>p. pr_offset p \<le> x \<and> x < pr_offset p + pr_limit p) (partition_ranges t)) = 1)
     \<and> (\<forall>p \<in> set (partition_ranges t). 0 \<le> pr_offset p \<and> 0 \<le> pr_limit p \<and> pr_offset p + pr_limit p \<le> t)
     \<and> sum_list (map pr_limit (partition_ranges t)) = t"
proof (intro conjI allI impI ballI)
  have ok: "estimate_ok t" using assms by (simp add: estimate_ok_def)
  show "1 \<le> length (partition_ranges t)" "length (partition_ranges t) \<le> 8"
    using partition_count_bounds [of t] by (simp_all add: partition_ranges_def Let_def nat_le_iff Suc_le_eq)
  show "length (filter (\<lambda>p. pr_offset p \<le> x \<and> x < pr_offset p + pr_limit p) (partition_ranges t)) = 1"
    if "0 \<le> x" "x < t" for x
    using extract_tiling.exactly_once [OF ok that]
    by (simp add: filter_map o_def in_piece_def range_piece_def)
  show "0 \<le> pr_offset p" "0 \<le> pr_limit p" "pr_offset p + pr_limit p \<le> t"
    if "p \<in> set (partition_ranges t)" for p
    using extract_tiling.nothing_outside [OF ok, of "range_piece p"] that by (auto simp: range_piece_def)
  show "sum_list (map pr_limit (partition_ranges t)) = t"
    using extract_tiling.total_size [OF ok] by (simp add: o_def range_piece_def case_prod_beta)
qed

theorem extract_partitions_tile_witness:
  "sum_list (map pr_limit (partition_ranges 10007)) = 10007 \<and> length (partition_ranges 10007) \<le> 8"
  using extract_partitions_tile [of 10007] by simp

text \<open>The table connector pages through its table.\<close>

lemma show_int_position [simp]: "read_int (show_int n) = Some n"
  by (rule read_show_int)

lemma table_fetch_pages: "pages (FetchBatchActivity (table_registry table)) ''db'' table table_position"
  unfolding pages_def
proof (intro allI impI)
  fix input :: fetch_input and w :: 'w
  assume i: "fi_connector input = ''db''" "fi_partition input = None" "0 < fi_batch_size input"
    "table_position (fi_state input) \<le> length table"
  define n where "n = table_position (fi_state input)"
  define rs where "rs = take (nat (fi_batch_size input)) (drop n table)"
  have lim: "batch_limit input = fi_batch_size input" using i(3) by (simp add: batch_limit_def)
  have f: "fetch_read (table_source table) input w = ((map record_message rs @ [position_message (n + length rs)], None), w)"
    using i(2) lim by (simp add: fetch_read_def table_source_def table_read_def n_def rs_def Let_def)
  have o: "records_of (map record_message rs @ [position_message (n + length rs)]) = rs"
    by (simp add: position_message_def message_records_def)
  have st: "fold apply_state (map record_message rs @ [position_message (n + length rs)]) st
      = st(''t'' \<mapsto> show_int (int (n + length rs)))" for st
    by (simp add: position_message_def apply_state_def)
  have reg: "reg_sources (table_registry table) (fi_connector input) = Some (table_source table)"
    using i(1) by (simp add: table_registry_def RegisterSource_def)
  have len: "length rs = min (nat (fi_batch_size input)) (length table - n)" by (simp add: rs_def min.commute)
  have take: "take (length rs) (drop n table) = rs" by (simp add: rs_def min_def)
  show "\<exists>k st w'. k \<le> length table - table_position (fi_state input)
      \<and> FetchBatchActivity (table_registry table) input w
        = (Inr \<lparr>fo_records = take k (drop (table_position (fi_state input)) table), fo_new_state = st,
             fo_has_more = (fi_batch_size input \<le> int k)\<rparr>, w')
      \<and> table_position (fi_state input ++ st) = table_position (fi_state input) + k
      \<and> (int k < fi_batch_size input \<longrightarrow> table_position (fi_state input) + k = length table)"
    using i(3,4) len take FetchBatchActivity_eq [OF reg less_imp_le [OF i(3)] f] unfolding o lim st n_def [symmetric]
    by (intro exI [of _ "length rs"] exI [of _ "(fi_state input)(partition_key := None, ''t'' \<mapsto> show_int (int (n + length rs)))"]
        exI [of _ w]) (auto simp: Let_def table_position_def map_add_def)
qed

text \<open>
  C4: sequential extraction is complete and ends. When partitioning fails or gives at most one
  partition, and the connector pages through a table by the cursor in its state, \<open>ExtractWorkflow\<close>
  terminates and returns exactly the records from the checkpoint's position to the end of the table,
  in order and without duplicates, whatever the batch size; its new state stands for the end of the
  table, and an error of saving the checkpoint does not make it fail.
\<close>

theorem sequential_extraction_complete:
  assumes "pages (xa_fetch acts) (ep_connector params) table pos" "pos (ep_state params) \<le> length table"
    and "\<And>input w. case fst (xa_partitions acts input w) of Inl _ \<Rightarrow> True | Inr ps \<Rightarrow> length ps \<le> 1"
  shows "\<exists>res w'. ExtractWorkflow acts params w = Some (Inr res, w')
     \<and> er_records res = drop (pos (ep_state params)) table
     \<and> er_records_count res = int (length (er_records res))
     \<and> pos (er_new_state res) = length table \<and> er_partitions_used res = 1"
proof -
  define b where "b = (if ep_batch_size params \<le> 0 then DefaultBatchSize else ep_batch_size params)"
  let ?pi = "\<lparr>pi_connector = ep_connector params, pi_config = ep_config params,
            pi_streams = ep_streams params, pi_state = ep_state params, pi_total_estimate = 0\<rparr>"
  obtain parts w1 where p: "xa_partitions acts ?pi w = (parts, w1)" by (metis surj_pair)
  with assms(3) [of ?pi w] have np: "\<not> length (case parts of Inl _ \<Rightarrow> [] | Inr ps \<Rightarrow> ps) > 1"
    by (auto split: sum.splits)
  have "0 < b" by (simp add: b_def DefaultBatchSize_def)
  have self: "ep_state params ++ ep_state params = ep_state params"
    by (auto simp: map_add_def fun_eq_iff split: option.splits)
  from sequential_loop_pages [OF assms(1) \<open>0 < b\<close> assms(2), of "[]" w1] self obtain st w2 where
    s: "extractSequential acts params b w1 = Some (Inr (drop (pos (ep_state params)) table, st), w2)"
      "pos st = length table" "ep_state params ++ st = st"
    by (auto simp: extractSequential_def copyState_def)
  with p np show ?thesis
    unfolding ExtractWorkflow_def b_def [symmetric] by (simp add: Let_def copyState_def mergeStateRaw_def)
qed

definition table_activities :: "rec list \<Rightarrow> unit extract_activities" where
  "table_activities table = \<lparr>xa_partitions = (\<lambda>i w. (Inl DeadlineExceeded, w)),
     xa_fetch = FetchBatchActivity (table_registry table), xa_save = (\<lambda>t s st w. (Some DeadlineExceeded, w))\<rparr>"

definition db_params :: "int \<Rightarrow> state_map \<Rightarrow> extract_params" where
  "db_params n st = \<lparr>ep_connector = ''db'', ep_config = [], ep_streams = [], ep_state = st, ep_batch_size = n,
     ep_tenant = ''t1'', ep_sync = ''s1''\<rparr>"

theorem sequential_extraction_complete_witness:
  "\<exists>res w'. ExtractWorkflow (table_activities (map sample_record [''1'', ''2'', ''3'', ''4'', ''5'']))
       (db_params 2 [''t'' \<mapsto> show_int 1]) () = Some (Inr res, w')
     \<and> er_records res = map sample_record [''2'', ''3'', ''4'', ''5'']"
proof -
  let ?t = "map sample_record [''1'', ''2'', ''3'', ''4'', ''5'']"
  have p: "pages (xa_fetch (table_activities ?t)) (ep_connector (db_params 2 [''t'' \<mapsto> show_int 1])) ?t table_position"
    using table_fetch_pages [of ?t] by (simp add: table_activities_def db_params_def)
  have n: "table_position (ep_state (db_params 2 [''t'' \<mapsto> show_int 1])) = 1"
    by (simp add: table_position_def db_params_def)
  from sequential_extraction_complete [OF p, of "()"] show ?thesis
    unfolding n by (simp add: table_activities_def) blast
qed

text \<open>
  A source without a cursor is read forever. If each read of the registered source delivers at
  least a full batch of records, whatever state it is given, every fetch reports more and the loop
  of \<open>extractSequential\<close> does not end: it asks for the same records again and again.
\<close>

theorem stateless_source_never_ends:
  assumes "xa_fetch acts = FetchBatchActivity reg" "0 < batchSize"
    and "reg_sources reg (ep_connector params) = Some src"
    and full: "\<And>st w. batchSize \<le> int (length (records_of
          (fst (fst (src_Read src (ep_config params) (ep_streams params) st batchSize w)))))"
  shows "extractSequential acts params batchSize w = None"
  unfolding extractSequential_def
proof (rule sequential_loop_stuck)
  fix st w
  let ?i = "batch_input params batchSize st None"
  obtain msgs readErr w' where r: "src_Read src (ep_config params) (ep_streams params) st batchSize w = ((msgs, readErr), w')"
    by (metis surj_pair)
  with full [of st w] have len: "batchSize \<le> int (length (records_of msgs))" by simp
  have reg: "reg_sources reg (fi_connector ?i) = Some src" using assms(3) by (simp add: batch_input_def)
  have f: "fetch_read src ?i w = ((msgs, readErr), w')"
    using r assms(2) by (simp add: fetch_read_def batch_input_def batch_limit_def)
  have nn: "0 \<le> fi_batch_size ?i" using assms(2) by (simp add: batch_input_def)
  from FetchBatchActivity_eq [OF reg nn f] len assms(1,2)
  show "\<exists>rs st' w'. xa_fetch acts ?i w = (Inr \<lparr>fo_records = rs, fo_new_state = st', fo_has_more = True\<rparr>, w')"
    by (auto simp: batch_input_def batch_limit_def Let_def split: option.splits)
qed

definition constant_source :: "unit source" where
  "constant_source = \<lparr>src_Read = (\<lambda>config cat st limit w.
       ((map (\<lambda>_. record_message (sample_record ''x'')) [1..limit], Some ContextCanceled), w)),
     src_Discover = (\<lambda>config w. (Inr [], w))\<rparr>"

definition constant_registry :: "(unit source, unit) registry" where
  "constant_registry = RegisterSource ''db''
     \<lparr>cm_name = ''db'', cm_display_name = [], cm_version = [], cm_type = [], cm_category = [], cm_icon = []\<rparr>
     constant_source empty_registry"

theorem stateless_source_never_ends_witness:
  "extractSequential \<lparr>xa_partitions = (\<lambda>i w. (Inl DeadlineExceeded, w)),
     xa_fetch = FetchBatchActivity constant_registry, xa_save = (\<lambda>t s st w. (None, w))\<rparr>
     (db_params 3 Map.empty) 3 () = None"
proof -
  have n: "records_of (map (\<lambda>_. record_message (sample_record ''x'')) [1..3]) = replicate 3 (sample_record ''x'')"
    by (simp add: upto.simps message_records_def record_message_def numeral_3_eq_3)
  show ?thesis
    by (rule stateless_source_never_ends [where src = constant_source and reg = constant_registry])
      (simp_all add: n constant_source_def constant_registry_def RegisterSource_def db_params_def)
qed

text \<open>
  A connector that honours partitions: for a partition it returns the records of its range, as many
  as fit into one batch.
\<close>

definition partition_slice :: "rec list \<Rightarrow> int \<Rightarrow> partition_range \<Rightarrow> rec list" where
  "partition_slice table batchSize p = take (nat (min batchSize (pr_limit p))) (drop (nat (pr_offset p)) table)"

definition honours :: "(fetch_input \<Rightarrow> 'w \<Rightarrow> fetch_output result \<times> 'w) \<Rightarrow> string \<Rightarrow> rec list \<Rightarrow> bool" where
  "honours fetch connector table \<longleftrightarrow> (\<forall>input p w. fi_connector input = connector \<longrightarrow> fi_partition input = Some p \<longrightarrow>
     0 < fi_batch_size input \<longrightarrow>
     (\<exists>out w'. fetch input w = (Inr out, w') \<and> fo_records out = partition_slice table (fi_batch_size input) p))"

lemma gather_ok:
  assumes "list_all2 (\<lambda>r rs. \<exists>out. r = Inr out \<and> fo_records out = rs) fs rss"
  shows "\<exists>st. gather fs acc s0 = Inr (acc @ concat rss, st)"
  using assms
proof (induction arbitrary: acc s0 rule: list_all2_induct)
  case (Cons f fs rs rss)
  then obtain out where "f = Inr out" "fo_records out = rs" by blast
  with Cons.IH [of "acc @ rs"] show ?case by simp
qed simp

lemma run_fetches_honours:
  assumes "honours (xa_fetch acts) (ep_connector params) table" "0 < batchSize"
    and "run_fetches acts params batchSize ps w = (fs, w')"
  shows "list_all2 (\<lambda>r rs. \<exists>out. r = Inr out \<and> fo_records out = rs) fs (map (partition_slice table batchSize) ps)"
  using assms(3)
proof (induction ps arbitrary: w fs w')
  case (Cons p ps)
  obtain out w1 where f: "xa_fetch acts (batch_input params batchSize (copyState (ep_state params)) (Some p)) w
      = (Inr out, w1)" "fo_records out = partition_slice table batchSize p"
    using assms(1,2) unfolding honours_def
    by (metis (no_types, lifting) batch_input_def fetch_input.select_convs(1,5,6))
  obtain rs w2 where r: "run_fetches acts params batchSize ps w1 = (rs, w2)" by (metis surj_pair)
  from Cons.IH [OF r] Cons.prems f r show ?case by auto
qed simp

text \<open>
  Partitioned extraction reads at most one batch per partition. When the partitions activity
  gives more than one partition and the connector honours partitions, \<open>ExtractWorkflow\<close> returns
  without an error the first \<open>batchSize\<close> records of each partition only, at most
  \<open>batchSize\<close> times the number of partitions in all, because \<open>HasMore\<close> is not looked at; the rest of
  each partition is lost. With the default estimate of one stream, 10000, and the default batch
  size, this is 8000 of 10000 records.
\<close>

theorem partitioned_extraction_truncates:
  assumes "honours (xa_fetch acts) (ep_connector params) table"
    and "\<And>input w. fst (xa_partitions acts input w) = Inr ps" "1 < length ps"
    and "b = (if ep_batch_size params \<le> 0 then DefaultBatchSize else ep_batch_size params)"
  shows "\<exists>res w'. ExtractWorkflow acts params w = Some (Inr res, w')
     \<and> er_records res = concat (map (partition_slice table b) ps)
     \<and> er_records_count res \<le> b * int (length ps)
     \<and> er_partitions_used res = int (length ps)"
proof -
  let ?pi = "\<lparr>pi_connector = ep_connector params, pi_config = ep_config params,
            pi_streams = ep_streams params, pi_state = ep_state params, pi_total_estimate = 0\<rparr>"
  obtain w1 where p: "xa_partitions acts ?pi w = (Inr ps, w1)" using assms(2) by (metis prod.collapse)
  have b: "0 < b" by (simp add: assms(4) DefaultBatchSize_def)
  obtain fs w2 where r: "run_fetches acts params b ps w1 = (fs, w2)" by (metis surj_pair)
  obtain st where g: "gather fs [] (ep_state params) = Inr (concat (map (partition_slice table b) ps), st)"
    using gather_ok [OF run_fetches_honours [OF assms(1) b r], of "[]"] by auto
  have "length (partition_slice table b p) \<le> nat b" for p by (auto simp: partition_slice_def min_def)
  then have "length (concat (map (partition_slice table b) ps)) \<le> nat b * length ps"
    by (induction ps) (auto simp: add_mono)
  then have "int (length (concat (map (partition_slice table b) ps))) \<le> b * int (length ps)"
    using b by (metis int_nat_eq less_imp_le of_nat_le_iff of_nat_mult)
  with p r g assms(3) show ?thesis
    unfolding ExtractWorkflow_def assms(4) [symmetric]
    by (simp add: Let_def extractWithPartitions_def copyState_def)
qed

definition partition_activities :: "rec list \<Rightarrow> unit extract_activities" where
  "partition_activities table = \<lparr>
     xa_partitions = (\<lambda>i w. (Inr (partition_ranges 10000), w)),
     xa_fetch = (\<lambda>i w. case fi_partition i of None \<Rightarrow> (Inl (Sentinel ErrInvalidConfig), w)
        | Some p \<Rightarrow> (Inr \<lparr>fo_records = partition_slice table (fi_batch_size i) p, fo_new_state = Map.empty,
             fo_has_more = fi_batch_size i \<le> pr_limit p\<rparr>, w)),
     xa_save = (\<lambda>t s st w. (None, w))\<rparr>"

theorem partitioned_extraction_truncates_witness:
  "\<exists>res w'. ExtractWorkflow (partition_activities (replicate 10000 (sample_record ''x''))) (db_params 0 Map.empty) ()
       = Some (Inr res, w') \<and> er_records_count res \<le> 8000"
proof -
  let ?t = "replicate 10000 (sample_record ''x'')"
  have h: "honours (xa_fetch (partition_activities ?t)) (ep_connector (db_params 0 Map.empty)) ?t"
    by (auto simp: honours_def partition_activities_def)
  have n: "length (partition_ranges 10000) = 8"
    by (simp add: partition_ranges_def partition_count_def maxPartitionsLimit_def DefaultBatchSize_def
        sdiv_nonneg Let_def)
  have p: "fst (xa_partitions (partition_activities ?t) input w) = Inr (partition_ranges 10000)" for input w
    by (simp add: partition_activities_def)
  from partitioned_extraction_truncates [OF h p _ refl, of "()"] n show ?thesis
    by (auto simp: db_params_def DefaultBatchSize_def)
qed

end
