(* ===== verification/Dedup.thy ===== *)
theory Dedup
  imports Protocol "HOL-Library.Sublist"
begin

unbundle bit_operations_syntax

text \<open>
  \<open>internal/worker/transform/dedup.go\<close>: the bloom filter behind record deduplication, with
  its hash, on 64-bit words. A slice index or a remainder by zero that would panic is
  \<open>None\<close>. The last section states what a filter of seen keys promises and proves it of the
  bloom filter.
\<close>

section \<open>Hashing\<close>

definition rotl64 :: "64 word \<Rightarrow> nat \<Rightarrow> 64 word" where
  "rotl64 x r = push_bit r x OR drop_bit (64 - r) x"

definition fmix64 :: "64 word \<Rightarrow> 64 word" where
  "fmix64 h =
    (let h = h XOR drop_bit 33 h;
         h = h * 0xff51afd7ed558ccd;
         h = h XOR drop_bit 33 h;
         h = h * 0xc4ceb9fe1a85ec53
     in h XOR drop_bit 33 h)"

text \<open>A byte of the key as a 64-bit word, and \<open>readUint64\<close> on a slice of at least 8 bytes.\<close>

definition byte_at :: "string \<Rightarrow> nat \<Rightarrow> 64 word" where
  "byte_at b i = of_char (b ! i)"

definition readUint64 :: "string \<Rightarrow> 64 word" where
  "readUint64 b =
     byte_at b 0 OR push_bit 8 (byte_at b 1) OR push_bit 16 (byte_at b 2)
     OR push_bit 24 (byte_at b 3) OR push_bit 32 (byte_at b 4) OR push_bit 40 (byte_at b 5)
     OR push_bit 48 (byte_at b 6) OR push_bit 56 (byte_at b 7)"

definition c1 :: "64 word" where
  "c1 = 0x87c37b91114253d5"

definition c2 :: "64 word" where
  "c2 = 0x4cf5ad432745937f"

text \<open>One 16-byte block.\<close>

definition hash_block :: "string \<Rightarrow> 64 word \<times> 64 word \<Rightarrow> 64 word \<times> 64 word" where
  "hash_block block = (\<lambda>(h1, h2).
    (let k1 = readUint64 block;
         k2 = readUint64 (drop 8 block);
         k1 = k1 * c1; k1 = rotl64 k1 31; k1 = k1 * c2;
         h1 = h1 XOR k1;
         h1 = rotl64 h1 27; h1 = h1 + h2; h1 = h1 * 5 + 0x52dce729;
         k2 = k2 * c2; k2 = rotl64 k2 33; k2 = k2 * c1;
         h2 = h2 XOR k2;
         h2 = rotl64 h2 31; h2 = h2 + h1; h2 = h2 * 5 + 0x38495ab5
     in (h1, h2)))"

fun hash_blocks :: "nat \<Rightarrow> string \<Rightarrow> 64 word \<times> 64 word \<Rightarrow> 64 word \<times> 64 word" where
  "hash_blocks 0 data h = h"
| "hash_blocks (Suc n) data h = hash_blocks n (drop 16 data) (hash_block data h)"

text \<open>
  The tail: the \<open>switch len(tail)\<close> falls through from its case to \<open>case 1\<close>, so the arm of
  byte \<open>i\<close> runs exactly when the tail has more than \<open>i\<close> bytes.
\<close>

definition hash_tail :: "string \<Rightarrow> 64 word \<times> 64 word \<Rightarrow> 64 word \<times> 64 word" where
  "hash_tail tail = (\<lambda>(h1, h2).
    (let n = length tail;
         k2 = 0;
         k2 = (if 15 \<le> n then k2 XOR push_bit 48 (byte_at tail 14) else k2);
         k2 = (if 14 \<le> n then k2 XOR push_bit 40 (byte_at tail 13) else k2);
         k2 = (if 13 \<le> n then k2 XOR push_bit 32 (byte_at tail 12) else k2);
         k2 = (if 12 \<le> n then k2 XOR push_bit 24 (byte_at tail 11) else k2);
         k2 = (if 11 \<le> n then k2 XOR push_bit 16 (byte_at tail 10) else k2);
         k2 = (if 10 \<le> n then k2 XOR push_bit 8 (byte_at tail 9) else k2);
         h2 = (if 9 \<le> n then h2 XOR rotl64 ((k2 XOR byte_at tail 8) * c2) 33 * c1 else h2);
         k1 = 0;
         k1 = (if 8 \<le> n then k1 XOR push_bit 56 (byte_at tail 7) else k1);
         k1 = (if 7 \<le> n then k1 XOR push_bit 48 (byte_at tail 6) else k1);
         k1 = (if 6 \<le> n then k1 XOR push_bit 40 (byte_at tail 5) else k1);
         k1 = (if 5 \<le> n then k1 XOR push_bit 32 (byte_at tail 4) else k1);
         k1 = (if 4 \<le> n then k1 XOR push_bit 24 (byte_at tail 3) else k1);
         k1 = (if 3 \<le> n then k1 XOR push_bit 16 (byte_at tail 2) else k1);
         k1 = (if 2 \<le> n then k1 XOR push_bit 8 (byte_at tail 1) else k1);
         h1 = (if 1 \<le> n then h1 XOR rotl64 ((k1 XOR byte_at tail 0) * c1) 31 * c2 else h1)
     in (h1, h2)))"

definition murmur3Hash :: "string \<Rightarrow> 64 word \<times> 64 word" where
  "murmur3Hash key =
    (let len = length key;
         nblocks = len div 16;
         (h1, h2) = hash_blocks nblocks key (of_nat len * c1, of_nat len * c2);
         (h1, h2) = hash_tail (drop (nblocks * 16) key) (h1, h2);
         h1 = h1 XOR of_nat len; h2 = h2 XOR of_nat len;
         h1 = h1 + h2; h2 = h2 + h1;
         h1 = fmix64 h1; h2 = fmix64 h2;
         h1 = h1 + h2; h2 = h2 + h1
     in (h1, h2))"

section \<open>The filter\<close>

record deduplicator =
  d_bits :: "64 word list"
  d_numBits :: "64 word"
  d_numHashes :: int
  d_count :: int

text \<open>
  \<open>NewDeduplicator\<close> from the point where the two floating-point formulas have produced the
  number of bits and of hash functions: the clamp of the latter and the rounding to words.
\<close>

definition NewDeduplicator :: "64 word \<Rightarrow> int \<Rightarrow> deduplicator" where
  "NewDeduplicator numBits k =
    (let k = (if k < 1 then 1 else k);
         words = (numBits + 63) div 64
     in \<lparr>d_bits = replicate (unat words) 0, d_numBits = words * 64, d_numHashes = k, d_count = 0\<rparr>)"

definition probe_pos :: "64 word \<Rightarrow> 64 word \<Rightarrow> 64 word \<Rightarrow> nat \<Rightarrow> 64 word" where
  "probe_pos h1 h2 numBits i = (h1 + of_nat i * h2) mod numBits"

text \<open>The loop of \<open>IsDuplicate\<close>: \<open>k\<close> iterations are left, \<open>i\<close> is the loop variable.\<close>

fun is_duplicate_loop ::
    "64 word \<Rightarrow> 64 word \<Rightarrow> 64 word \<Rightarrow> nat \<Rightarrow> nat \<Rightarrow> 64 word list \<Rightarrow> bool \<Rightarrow> (bool \<times> 64 word list) option" where
  "is_duplicate_loop h1 h2 numBits 0 i bits present = Some (present, bits)"
| "is_duplicate_loop h1 h2 numBits (Suc k) i bits present =
    (if numBits = 0 then None else
     let pos = probe_pos h1 h2 numBits i;
         wordIdx = unat (pos div 64);
         mask = push_bit (unat (pos mod 64)) 1
     in if length bits \<le> wordIdx then None
        else if bits ! wordIdx AND mask = 0
        then is_duplicate_loop h1 h2 numBits k (Suc i) (bits[wordIdx := bits ! wordIdx OR mask]) False
        else is_duplicate_loop h1 h2 numBits k (Suc i) bits present)"

definition IsDuplicate :: "deduplicator \<Rightarrow> string \<Rightarrow> (bool \<times> deduplicator) option" where
  "IsDuplicate d key =
    (let (h1, h2) = murmur3Hash key in
     case is_duplicate_loop h1 h2 (d_numBits d) (nat (d_numHashes d)) 0 (d_bits d) True of
       None \<Rightarrow> None
     | Some (alreadyPresent, bits) \<Rightarrow>
         Some (alreadyPresent, d\<lparr>d_bits := bits,
           d_count := (if alreadyPresent then d_count d else wrap64 (d_count d + 1))\<rparr>))"

fun contains_loop ::
    "64 word \<Rightarrow> 64 word \<Rightarrow> 64 word \<Rightarrow> nat \<Rightarrow> nat \<Rightarrow> 64 word list \<Rightarrow> bool option" where
  "contains_loop h1 h2 numBits 0 i bits = Some True"
| "contains_loop h1 h2 numBits (Suc k) i bits =
    (if numBits = 0 then None else
     let pos = probe_pos h1 h2 numBits i;
         wordIdx = unat (pos div 64);
         mask = push_bit (unat (pos mod 64)) 1
     in if length bits \<le> wordIdx then None
        else if bits ! wordIdx AND mask = 0 then Some False
        else contains_loop h1 h2 numBits k (Suc i) bits)"

definition Contains :: "deduplicator \<Rightarrow> string \<Rightarrow> bool option" where
  "Contains d key =
    (let (h1, h2) = murmur3Hash key in
     contains_loop h1 h2 (d_numBits d) (nat (d_numHashes d)) 0 (d_bits d))"

definition dedup_Count :: "deduplicator \<Rightarrow> int" where
  "dedup_Count d = d_count d"

definition dedup_Reset :: "deduplicator \<Rightarrow> deduplicator" where
  "dedup_Reset d = d\<lparr>d_bits := map (\<lambda>_. 0) (d_bits d), d_count := 0\<rparr>"

section \<open>Deduplicating a batch\<close>

text \<open>\<open>TransformWorker.deduplicateRecords\<close>: the key of a record is its raw data.\<close>

fun deduplicateRecords :: "deduplicator \<Rightarrow> rec list \<Rightarrow> (rec list \<times> deduplicator) option" where
  "deduplicateRecords d [] = Some ([], d)"
| "deduplicateRecords d (r # rs) =
    (case IsDuplicate d (r_data r) of
       None \<Rightarrow> None
     | Some (dup, d') \<Rightarrow>
         (case deduplicateRecords d' rs of
            None \<Rightarrow> None
          | Some (us, d'') \<Rightarrow> Some (if dup then us else r # us, d'')))"

section \<open>The set of bits\<close>

definition bitset :: "64 word list \<Rightarrow> nat set" where
  "bitset bits = {n. n div 64 < length bits \<and> bit (bits ! (n div 64)) (n mod 64)}"

definition dedup_wf :: "deduplicator \<Rightarrow> bool" where
  "dedup_wf d \<longleftrightarrow> d_numBits d \<noteq> 0 \<and> unat (d_numBits d) = 64 * length (d_bits d) \<and> 0 < d_numHashes d"

definition probes :: "string \<Rightarrow> 64 word \<Rightarrow> nat \<Rightarrow> nat set" where
  "probes key numBits k =
     (\<lambda>i. unat (probe_pos (fst (murmur3Hash key)) (snd (murmur3Hash key)) numBits i)) ` {..<k}"

definition probe_set :: "64 word \<Rightarrow> 64 word \<Rightarrow> 64 word \<Rightarrow> nat \<Rightarrow> nat \<Rightarrow> nat set" where
  "probe_set h1 h2 numBits i k = (\<lambda>j. unat (probe_pos h1 h2 numBits j)) ` {i..<i + k}"

lemma probe_set_0 [simp]: "probe_set h1 h2 numBits i 0 = {}"
  by (simp add: probe_set_def)

lemma probe_set_Suc [simp]:
  "probe_set h1 h2 numBits i (Suc k) = insert (unat (probe_pos h1 h2 numBits i)) (probe_set h1 h2 numBits (Suc i) k)"
proof -
  have "{i..<i + Suc k} = insert i {Suc i..<Suc i + k}" by auto
  then show ?thesis unfolding probe_set_def by simp
qed

lemma probes_probe_set: "murmur3Hash key = (h1, h2) \<Longrightarrow> probes key numBits k = probe_set h1 h2 numBits 0 k"
  by (simp add: probes_def probe_set_def atLeast0LessThan)

definition seen_keys :: "deduplicator \<Rightarrow> string set" where
  "seen_keys d = {key. probes key (d_numBits d) (nat (d_numHashes d)) \<subseteq> bitset (d_bits d)}"

lemma word_mask_zero_iff: "(w :: 64 word) AND push_bit b 1 = 0 \<longleftrightarrow> \<not> bit w b"
  by (simp add: push_bit_eq_mult and_exp_eq_0_iff_not_bit)

lemma word_exp_zero_iff: "(w :: 64 word) AND 2 ^ b = 0 \<longleftrightarrow> \<not> bit w b"
  by (rule and_exp_eq_0_iff_not_bit)

lemma unat_div_64: "unat ((p :: 64 word) div 64) = unat p div 64"
  by (simp add: unat_div)

lemma unat_mod_64: "unat ((p :: 64 word) mod 64) = unat p mod 64"
  by (simp add: unat_mod)

lemma bitset_set:
  assumes "n div 64 < length bits"
  shows "bitset (bits[n div 64 := bits ! (n div 64) OR push_bit (n mod 64) 1]) = insert n (bitset bits)"
proof -
  have "m \<in> bitset (bits[n div 64 := bits ! (n div 64) OR push_bit (n mod 64) 1])
      \<longleftrightarrow> m = n \<or> m \<in> bitset bits" for m
  proof (cases "m div 64 = n div 64")
    case True
    have "m mod 64 = n mod 64 \<longleftrightarrow> m = n" using True by (metis mult_div_mod_eq)
    with True assms show ?thesis by (auto simp: bitset_def bit_simps)
  next
    case False
    then show ?thesis by (auto simp: bitset_def)
  qed
  then show ?thesis by blast
qed

text \<open>What the two loops do to the set of bits, in range.\<close>

lemma probe_pos_in_range:
  "numBits \<noteq> 0 \<Longrightarrow> unat numBits = 64 * length bits \<Longrightarrow>
   unat (probe_pos h1 h2 numBits i) div 64 < length bits"
proof -
  assume a: "numBits \<noteq> 0" "unat numBits = 64 * length bits"
  have "probe_pos h1 h2 numBits i < numBits"
    using a(1) by (simp add: probe_pos_def word_mod_less_divisor word_neq_0_conv)
  then have "unat (probe_pos h1 h2 numBits i) < 64 * length bits"
    using a(2) by (simp add: word_less_nat_alt)
  then show ?thesis by (simp add: less_mult_imp_div_less mult.commute)
qed

lemma is_duplicate_loop_spec:
  assumes "numBits \<noteq> 0" "unat numBits = 64 * length bits"
  shows "\<exists>bits'. is_duplicate_loop h1 h2 numBits k i bits present
       = Some (present \<and> probe_set h1 h2 numBits i k \<subseteq> bitset bits, bits')
     \<and> length bits' = length bits \<and> bitset bits' = bitset bits \<union> probe_set h1 h2 numBits i k"
  using assms
proof (induction k arbitrary: i bits present)
  case (Suc k)
  let ?p = "unat (probe_pos h1 h2 numBits i)"
  have range: "?p div 64 < length bits" by (rule probe_pos_in_range [OF Suc.prems])
  let ?bits1 = "bits[?p div 64 := bits ! (?p div 64) OR push_bit (?p mod 64) 1]"
  show ?case
  proof (cases "bit (bits ! (?p div 64)) (?p mod 64)")
    case True
    then have "?p \<in> bitset bits" using range by (simp add: bitset_def)
    with True range Suc.prems Suc.IH [OF Suc.prems, of "Suc i" present] show ?thesis
      by (auto simp: Let_def unat_div_64 unat_mod_64 word_exp_zero_iff insert_absorb)
  next
    case False
    then have "?p \<notin> bitset bits" by (simp add: bitset_def)
    with False range Suc.prems Suc.IH [of ?bits1 "Suc i" False] bitset_set [OF range] show ?thesis
      by (auto simp: Let_def unat_div_64 unat_mod_64 word_exp_zero_iff)
  qed
qed auto

lemma contains_loop_spec:
  assumes "numBits \<noteq> 0" "unat numBits = 64 * length bits"
  shows "contains_loop h1 h2 numBits k i bits = Some (probe_set h1 h2 numBits i k \<subseteq> bitset bits)"
proof (induction k arbitrary: i)
  case (Suc k)
  have "unat (probe_pos h1 h2 numBits i) div 64 < length bits" by (rule probe_pos_in_range [OF assms])
  with Suc.IH [of "Suc i"] assms show ?case
    by (auto simp: Let_def unat_div_64 unat_mod_64 word_exp_zero_iff bitset_def)
qed simp

section \<open>What the filter promises\<close>

lemma IsDuplicate_spec:
  assumes "dedup_wf d"
  shows "\<exists>d'. IsDuplicate d key = Some (key \<in> seen_keys d, d') \<and> dedup_wf d'
     \<and> d_numBits d' = d_numBits d \<and> d_numHashes d' = d_numHashes d
     \<and> bitset (d_bits d') = bitset (d_bits d) \<union> probes key (d_numBits d) (nat (d_numHashes d))
     \<and> d_count d' = (if key \<in> seen_keys d then d_count d else wrap64 (d_count d + 1))"
proof -
  obtain h1 h2 where h: "murmur3Hash key = (h1, h2)" by (cases "murmur3Hash key")
  have wf: "d_numBits d \<noteq> 0" "unat (d_numBits d) = 64 * length (d_bits d)" "0 < d_numHashes d"
    using assms by (auto simp: dedup_wf_def)
  let ?P = "probe_set h1 h2 (d_numBits d) 0 (nat (d_numHashes d))"
  have P: "probes key (d_numBits d) (nat (d_numHashes d)) = ?P" by (rule probes_probe_set [OF h])
  obtain bits' where b: "is_duplicate_loop h1 h2 (d_numBits d) (nat (d_numHashes d)) 0 (d_bits d) True
      = Some (?P \<subseteq> bitset (d_bits d), bits')" "length bits' = length (d_bits d)"
      "bitset bits' = bitset (d_bits d) \<union> ?P"
    using is_duplicate_loop_spec [OF wf(1,2), of h1 h2 "nat (d_numHashes d)" 0 True] by auto
  have seen: "key \<in> seen_keys d \<longleftrightarrow> ?P \<subseteq> bitset (d_bits d)" by (simp add: seen_keys_def P)
  show ?thesis unfolding P seen
    by (rule exI [of _ "d\<lparr>d_bits := bits',
          d_count := (if ?P \<subseteq> bitset (d_bits d) then d_count d else wrap64 (d_count d + 1))\<rparr>"])
      (use b wf in \<open>simp add: IsDuplicate_def h dedup_wf_def\<close>)
qed

lemma Contains_spec: "dedup_wf d \<Longrightarrow> Contains d key = Some (key \<in> seen_keys d)"
  by (cases "murmur3Hash key")
    (auto simp: Contains_def dedup_wf_def contains_loop_spec seen_keys_def probes_probe_set)

text \<open>
  The contract of a filter of seen keys, and its use on a sequence: \<open>seen\<close> are the keys that
  are reported as duplicates from now on. A key is reported exactly when it is in \<open>seen\<close>, and
  testing it puts it there.
\<close>

locale seen_filter =
  fixes test :: "'s \<Rightarrow> 'k \<Rightarrow> (bool \<times> 's) option" and seen :: "'s \<Rightarrow> 'k set" and wf :: "'s \<Rightarrow> bool"
  assumes test_total: "wf s \<Longrightarrow> \<exists>s'. test s k = Some (k \<in> seen s, s')"
    and test_wf: "wf s \<Longrightarrow> test s k = Some (b, s') \<Longrightarrow> wf s'"
    and test_seen: "wf s \<Longrightarrow> test s k = Some (b, s') \<Longrightarrow> insert k (seen s) \<subseteq> seen s'"
begin

fun keep_new :: "('r \<Rightarrow> 'k) \<Rightarrow> 's \<Rightarrow> 'r list \<Rightarrow> ('r list \<times> 's) option" where
  "keep_new key s [] = Some ([], s)"
| "keep_new key s (r # rs) =
    (case test s (key r) of
       None \<Rightarrow> None
     | Some (dup, s') \<Rightarrow> (case keep_new key s' rs of
         None \<Rightarrow> None
       | Some (us, s'') \<Rightarrow> Some (if dup then us else r # us, s'')))"

lemma keep_new_spec:
  assumes "wf s"
  shows "\<exists>us s'. keep_new key s rs = Some (us, s') \<and> wf s' \<and> subseq us rs
      \<and> distinct (map key us) \<and> set (map key us) \<inter> seen s = {}
      \<and> seen s \<union> key ` set rs \<subseteq> seen s'"
  using assms
proof (induction rs arbitrary: s)
  case (Cons r rs)
  obtain s1 where t: "test s (key r) = Some (key r \<in> seen s, s1)" using test_total [OF Cons.prems] by blast
  have wf1: "wf s1" and sub: "insert (key r) (seen s) \<subseteq> seen s1"
    using test_wf [OF Cons.prems t] test_seen [OF Cons.prems t] by auto
  from Cons.IH [OF wf1] obtain us s2 where
    u: "keep_new key s1 rs = Some (us, s2)" "wf s2" "subseq us rs" "distinct (map key us)"
       "set (map key us) \<inter> seen s1 = {}" "seen s1 \<union> key ` set rs \<subseteq> seen s2" by blast
  from t u sub show ?case by (cases "key r \<in> seen s") auto
qed simp

end

lemma IsDuplicate_monotone:
  assumes "dedup_wf d" "IsDuplicate d key = Some (b, d')"
  shows "insert key (seen_keys d) \<subseteq> seen_keys d'"
  using IsDuplicate_spec [OF assms(1), of key] assms(2) by (auto simp: seen_keys_def)

interpretation bloom: seen_filter IsDuplicate seen_keys dedup_wf
proof
  fix d key b d'
  assume wf: "dedup_wf d"
  show "\<exists>d'. IsDuplicate d key = Some (key \<in> seen_keys d, d')" using IsDuplicate_spec [OF wf] by blast
  assume "IsDuplicate d key = Some (b, d')"
  with IsDuplicate_spec [OF wf, of key] IsDuplicate_monotone [OF wf]
  show "dedup_wf d'" "insert key (seen_keys d) \<subseteq> seen_keys d'" by auto
qed

lemma deduplicateRecords_keep_new: "deduplicateRecords d rs = bloom.keep_new r_data d rs"
  by (induction rs arbitrary: d) (auto split: option.split)

lemma bitset_zero [simp]: "bitset (map (\<lambda>_. 0) bits) = {}"
  by (auto simp: bitset_def)

lemma probes_not_empty: "0 < k \<Longrightarrow> probes key numBits k \<noteq> {}"
  by (auto simp: probes_def)

lemma Reset_spec: "dedup_wf d \<Longrightarrow> dedup_wf (dedup_Reset d) \<and> seen_keys (dedup_Reset d) = {}"
  using probes_not_empty [of "nat (d_numHashes d)"]
  by (auto simp: dedup_wf_def dedup_Reset_def seen_keys_def)

lemma NewDeduplicator_wf:
  assumes "0 < unat numBits" "unat numBits + 63 < 2 ^ 64"
  shows "dedup_wf (NewDeduplicator numBits k)"
proof -
  have sum: "unat (numBits + 63) = unat numBits + 63"
    using assms(2) by (subst unat_add_lem [THEN iffD1]) simp_all
  let ?w = "(numBits + 63) div 64"
  have w: "unat ?w = (unat numBits + 63) div 64" by (simp add: unat_div sum)
  have small: "64 * unat ?w < 2 ^ 64" using assms(2) w by simp
  then have bits: "unat (?w * 64) = 64 * unat ?w"
    by (subst unat_mult_lem [THEN iffD1]) (simp_all add: mult.commute)
  moreover have "0 < unat ?w" using assms(1) w by (simp add: div_greater_zero_iff)
  ultimately have "?w * 64 \<noteq> 0" by (metis mult_eq_0_iff unat_eq_zero zero_neq_numeral not_less_zero)
  with bits show ?thesis by (simp add: dedup_wf_def NewDeduplicator_def Let_def)
qed

section \<open>Properties of the deduplicator\<close>

text \<open>
  C14: the bloom filter never forgets and never lets a duplicate through. On a well-formed filter
  \<open>deduplicateRecords\<close> never panics, returns a subsequence of the batch in which no two records
  have the same data and none had been seen before, and afterwards every record of the batch
  is reported as seen. (A record may be dropped without having been seen: the filter is
  probabilistic in that direction only.)
\<close>

theorem dedup_batch_sound:
  assumes "dedup_wf d"
  shows "\<exists>us d'. deduplicateRecords d rs = Some (us, d') \<and> dedup_wf d' \<and> subseq us rs
     \<and> distinct (map r_data us)
     \<and> list_all (\<lambda>u. Contains d (r_data u) = Some False) us
     \<and> list_all (\<lambda>r. Contains d' (r_data r) = Some True) rs"
proof -
  obtain us d' where u: "bloom.keep_new r_data d rs = Some (us, d')" "dedup_wf d'" "subseq us rs"
      "distinct (map r_data us)" "set (map r_data us) \<inter> seen_keys d = {}"
      "seen_keys d \<union> r_data ` set rs \<subseteq> seen_keys d'"
    using bloom.keep_new_spec [OF assms, of r_data rs] by blast
  then show ?thesis
    by (intro exI [of _ us] exI [of _ d'])
      (auto simp: deduplicateRecords_keep_new list_all_iff Contains_spec assms)
qed

theorem dedup_batch_sound_witness:
  "\<exists>us d'. deduplicateRecords (NewDeduplicator 100 3) [\<lparr>r_stream = ''s'', r_namespace = [], r_data = ''a'', r_emitted_at = 0\<rparr>,
       \<lparr>r_stream = ''s'', r_namespace = [], r_data = ''a'', r_emitted_at = 1\<rparr>] = Some (us, d')
     \<and> distinct (map r_data us)"
  using dedup_batch_sound [OF NewDeduplicator_wf, of 100 3] by fastforce

text \<open>
  \<open>IsDuplicate\<close> answers exactly as \<open>Contains\<close> would have before it, remembers the key and
  every key remembered before, and counts the key exactly when it was new; \<open>Reset\<close> forgets
  everything.
\<close>

theorem dedup_operations:
  assumes "dedup_wf d"
  shows "\<exists>b d'. IsDuplicate d key = Some (b, d') \<and> Contains d key = Some b
     \<and> Contains d' key = Some True
     \<and> (\<forall>k. Contains d k = Some True \<longrightarrow> Contains d' k = Some True)
     \<and> dedup_Count d' = (if b then dedup_Count d else wrap64 (dedup_Count d + 1))
     \<and> Contains (dedup_Reset d') k = Some False \<and> dedup_Count (dedup_Reset d') = 0"
proof -
  obtain d' where d: "IsDuplicate d key = Some (key \<in> seen_keys d, d')" "dedup_wf d'"
      "d_count d' = (if key \<in> seen_keys d then d_count d else wrap64 (d_count d + 1))"
    using IsDuplicate_spec [OF assms] by blast
  moreover have "insert key (seen_keys d) \<subseteq> seen_keys d'" by (rule IsDuplicate_monotone [OF assms d(1)])
  ultimately show ?thesis
    using assms Reset_spec [OF d(2)]
    by (intro exI [of _ "key \<in> seen_keys d"] exI [of _ d'])
      (auto simp: Contains_spec dedup_Count_def dedup_Reset_def)
qed

theorem dedup_operations_witness:
  "\<exists>b d'. IsDuplicate (NewDeduplicator 100 3) ''k'' = Some (b, d') \<and> Contains d' ''k'' = Some True"
  using dedup_operations [OF NewDeduplicator_wf, of 100 3 "''k''"] by fastforce

end
