(* ===== verification/Transform.thy ===== *)
theory Transform
  imports Dedup Json Protocol "HOL-Library.Sublist"
begin

text \<open>
  The transform phase of a sync: the activities of
  \<open>internal/orchestration/activities/transform_activities.go\<close> that map fields and remove
  duplicates, and the workflow of \<open>internal/orchestration/workflows/transform.go\<close>. \<open>num_json\<close> and
  \<open>num_v\<close> are the texts Go gives to a \<open>float64\<close> in JSON and under \<open>%v\<close>, \<open>jsonErr\<close> is the error of
  \<open>encoding/json\<close> for a document it cannot decode. Type coercion is an argument of the workflow.
\<close>

section \<open>Mapping fields\<close>

record map_output =
  mo_records :: "rec list"
  mo_errors :: "string list"

definition mapped_fields :: "field_mapping list \<Rightarrow> (string \<times> json) list \<Rightarrow> (string \<times> json) list" where
  "mapped_fields mappings srcData = fold (\<lambda>m destData. case map_of srcData (fm_source_field m) of
       None \<Rightarrow> destData
     | Some val \<Rightarrow> AList.update (fm_dest_field m) val destData) mappings []"

definition map_record_data :: "field_mapping list \<Rightarrow> (string \<times> json) list \<Rightarrow> (string \<times> json) list" where
  "map_record_data mappings srcData =
    (let destData = mapped_fields mappings srcData
     in destData @ filter (\<lambda>(k, v). k \<notin> set (map fm_source_field mappings) \<and> k \<notin> set (map fst destData)) srcData)"

definition unmarshal_record :: "raw_message \<Rightarrow> (string \<times> json) list option" where
  "unmarshal_record data = (case json_parse data of None \<Rightarrow> None | Some doc \<Rightarrow> unmarshal_map doc)"

fun map_records :: "(string \<Rightarrow> string) \<Rightarrow> (raw_message \<Rightarrow> go_error) \<Rightarrow> (string \<rightharpoonup> field_mapping list)
    \<Rightarrow> int \<Rightarrow> rec list \<Rightarrow> map_output" where
  "map_records num_json jsonErr fieldMappings i [] = \<lparr>mo_records = [], mo_errors = []\<rparr>"
| "map_records num_json jsonErr fieldMappings i (r # rs) =
    (let out = map_records num_json jsonErr fieldMappings (i + 1) rs;
         mappings = (case fieldMappings (r_stream r) of None \<Rightarrow> [] | Some ms \<Rightarrow> ms)
     in if mappings = [] then out\<lparr>mo_records := r # mo_records out\<rparr>
        else case unmarshal_record (r_data r) of
          None \<Rightarrow> out\<lparr>mo_errors := (''record '' @ show_int i @ '' in stream '' @ r_stream r
                     @ '': failed to unmarshal: '' @ error_text (jsonErr (r_data r))) # mo_errors out\<rparr>
        | Some srcData \<Rightarrow>
            out\<lparr>mo_records := r\<lparr>r_data := marshal num_json (JObj (map_record_data mappings srcData))\<rparr>
                   # mo_records out\<rparr>)"

definition MapFieldsActivity :: "(string \<Rightarrow> string) \<Rightarrow> (raw_message \<Rightarrow> go_error) \<Rightarrow> rec list
    \<Rightarrow> (string \<rightharpoonup> field_mapping list) \<Rightarrow> map_output" where
  "MapFieldsActivity num_json jsonErr records fieldMappings = map_records num_json jsonErr fieldMappings 0 records"

section \<open>Removing duplicates\<close>

record dedup_output =
  do_records :: "rec list"
  do_duplicates :: int

definition navigateFieldPath :: "(string \<times> json) list \<Rightarrow> string list \<Rightarrow> json" where
  "navigateFieldPath data path =
    (if path = [] then JNull
     else fold (\<lambda>key current. case current of
         JObj ms \<Rightarrow> (case map_of (decode_members ms []) key of None \<Rightarrow> JNull | Some v \<Rightarrow> v)
       | _ \<Rightarrow> JNull) path (JObj data))"

definition extractPrimaryKey :: "(string \<Rightarrow> string) \<Rightarrow> raw_message \<Rightarrow> string list list \<Rightarrow> string" where
  "extractPrimaryKey num_v data pkFields = (case unmarshal_record data of
     None \<Rightarrow> []
   | Some record \<Rightarrow> join_with ''|'' (map (\<lambda>path. sprint_v num_v (navigateFieldPath record path)) pkFields))"

text \<open>The primary key of each configured stream that has one; of equal names the last counts.\<close>

definition stream_pks :: "configured_stream list \<Rightarrow> string \<rightharpoonup> string list list" where
  "stream_pks streams = fold (\<lambda>cs m.
     (let pk = (if cs_primary_key cs = [] then s_primary_key (cs_stream cs) else cs_primary_key cs)
      in if pk = [] then m else m(s_name (cs_stream cs) \<mapsto> pk))) streams Map.empty"

text \<open>The key under which a record is looked up: its stream and its non-empty primary key.\<close>

definition record_key :: "(string \<Rightarrow> string) \<Rightarrow> (string \<rightharpoonup> string list list) \<Rightarrow> rec \<Rightarrow> (string \<times> string) option" where
  "record_key num_v streamPKs r = (case streamPKs (r_stream r) of
     None \<Rightarrow> None
   | Some pkFields \<Rightarrow>
      (let key = extractPrimaryKey num_v (r_data r) pkFields
       in if key = [] then None else Some (r_stream r, key)))"

fun dedup_loop :: "(rec \<Rightarrow> (string \<times> string) option) \<Rightarrow> (string \<times> string) set \<Rightarrow> rec list \<Rightarrow> int
    \<Rightarrow> rec list \<times> int" where
  "dedup_loop key seen [] duplicates = ([], duplicates)"
| "dedup_loop key seen (r # rs) duplicates = (case key r of
     None \<Rightarrow> (case dedup_loop key seen rs duplicates of (us, n) \<Rightarrow> (r # us, n))
   | Some k \<Rightarrow>
       if k \<in> seen then dedup_loop key seen rs (duplicates + 1)
       else (case dedup_loop key (insert k seen) rs duplicates of (us, n) \<Rightarrow> (r # us, n)))"

definition DeduplicateActivity :: "(string \<Rightarrow> string) \<Rightarrow> rec list \<Rightarrow> configured_stream list \<Rightarrow> dedup_output" where
  "DeduplicateActivity num_v records streams =
    (case dedup_loop (record_key num_v (stream_pks streams)) {} records 0 of
       (deduped, duplicates) \<Rightarrow> \<lparr>do_records = deduped, do_duplicates = duplicates\<rparr>)"

section \<open>The workflow\<close>

record transform_params =
  tp_records :: "rec list"
  tp_field_mappings :: "(string \<times> field_mapping list) list"
  tp_streams :: "configured_stream list"
  tp_tenant :: string
  tp_sync :: string

record transform_result =
  tr_records :: "rec list"
  tr_records_count :: int
  tr_dropped :: int
  tr_errors :: "string list"

text \<open>The outcomes of the activities as Temporal runs them, for their inputs.\<close>

record transform_activities =
  xt_map :: "rec list \<Rightarrow> (string \<rightharpoonup> field_mapping list) \<Rightarrow> map_output result"
  xt_coerce :: "rec list \<Rightarrow> (string \<rightharpoonup> field_mapping list) \<Rightarrow> map_output result"
  xt_dedup :: "rec list \<Rightarrow> configured_stream list \<Rightarrow> dedup_output result"

definition has_coercions :: "(string \<times> field_mapping list) list \<Rightarrow> bool" where
  "has_coercions fieldMappings = list_ex (\<lambda>(_, ms). list_ex (\<lambda>m. fm_coerce_type m \<noteq> []) ms) fieldMappings"

definition TransformWorkflow :: "transform_activities \<Rightarrow> transform_params \<Rightarrow> transform_result result" where
  "TransformWorkflow acts params =
    (let fm = tp_field_mappings params;
         mapped = (if length fm > 0 then xt_map acts (tp_records params) (map_of fm)
                   else Inr \<lparr>mo_records = tp_records params, mo_errors = []\<rparr>)
     in case mapped of Inl err \<Rightarrow> Inl err
     | Inr m \<Rightarrow>
        (case (if has_coercions fm then xt_coerce acts (mo_records m) (map_of fm)
               else Inr \<lparr>mo_records = mo_records m, mo_errors = []\<rparr>) of Inl err \<Rightarrow> Inl err
         | Inr c \<Rightarrow>
            (case xt_dedup acts (mo_records c) (tp_streams params) of Inl err \<Rightarrow> Inl err
             | Inr d \<Rightarrow> Inr \<lparr>tr_records = do_records d, tr_records_count = int (length (do_records d)),
                 tr_dropped = do_duplicates d, tr_errors = mo_errors m @ mo_errors c\<rparr>)))"

section \<open>Mapping: lemmas\<close>

definition mapped_value :: "field_mapping list \<Rightarrow> (string \<times> json) list \<Rightarrow> string \<Rightarrow> json option" where
  "mapped_value mappings srcData k =
    (case find (\<lambda>m. fm_dest_field m = k \<and> map_of srcData (fm_source_field m) \<noteq> None) (rev mappings) of
       Some m \<Rightarrow> map_of srcData (fm_source_field m)
     | None \<Rightarrow> None)"

lemma find_append: "find P (xs @ ys) = (case find P xs of Some x \<Rightarrow> Some x | None \<Rightarrow> find P ys)"
  by (induction xs) auto

lemma mapped_fields_value: "map_of (mapped_fields mappings srcData) k = mapped_value mappings srcData k"
proof (induction mappings rule: rev_induct)
  case (snoc m ms)
  show ?case
  proof (cases "map_of srcData (fm_source_field m)")
    case None
    with snoc show ?thesis by (simp add: mapped_fields_def mapped_value_def)
  next
    case (Some v)
    with snoc show ?thesis by (auto simp: mapped_fields_def mapped_value_def update_conv)
  qed
qed (simp add: mapped_fields_def mapped_value_def)

lemma map_of_filter_keys: "map_of (filter (\<lambda>(k, v). P k) xs) k = (if P k then map_of xs k else None)"
  by (induction xs) auto

lemma map_record_data_value:
  "map_of (map_record_data mappings srcData) k =
    (case mapped_value mappings srcData k of
       Some v \<Rightarrow> Some v
     | None \<Rightarrow> if k \<in> fm_source_field ` set mappings then None else map_of srcData k)"
proof -
  have "mapped_value mappings srcData k = None \<longleftrightarrow> k \<notin> set (map fst (mapped_fields mappings srcData))"
    unfolding mapped_fields_value [symmetric] by (simp add: map_of_eq_None_iff)
  moreover have "(\<lambda>(k, v). k \<notin> set (map fm_source_field mappings) \<and> k \<notin> set (map fst d))
      = (\<lambda>(k, v :: json). (\<lambda>k. k \<notin> set (map fm_source_field mappings) \<and> k \<notin> set (map fst d)) k)"
    for d :: "(string \<times> json) list" by auto
  ultimately show ?thesis
    by (auto simp: map_record_data_def Let_def map_add_def mapped_fields_value map_of_filter_keys split: option.split)
qed

lemma map_records_count:
  "length (mo_records (map_records nj je fm i rs)) + length (mo_errors (map_records nj je fm i rs)) = length rs"
  by (induction rs arbitrary: i) (auto simp: Let_def split: option.splits)

lemma map_records_subset:
  "r' \<in> set (mo_records (map_records nj je fm i rs)) \<Longrightarrow>
   \<exists>r \<in> set rs. r_stream r' = r_stream r \<and> r_emitted_at r' = r_emitted_at r \<and>
     (r' = r \<or> (\<exists>mappings srcData. fm (r_stream r) = Some mappings \<and> unmarshal_record (r_data r) = Some srcData
        \<and> r_data r' = marshal nj (JObj (map_record_data mappings srcData))))"
proof (induction rs arbitrary: i)
  case (Cons r rs)
  then show ?case
    by (fastforce simp: Let_def split: option.splits if_splits)
qed simp

section \<open>Removing duplicates: lemmas\<close>

text \<open>A filter without false positives: the set of seen keys grows by exactly the tested key.\<close>

locale exact_filter = seen_filter test seen wf
  for test :: "'s \<Rightarrow> 'k \<Rightarrow> (bool \<times> 's) option" and seen :: "'s \<Rightarrow> 'k set" and wf :: "'s \<Rightarrow> bool" +
  assumes test_exact: "wf s \<Longrightarrow> test s k = Some (b, s') \<Longrightarrow> seen s' = insert k (seen s)"
begin

lemma keep_new_exact:
  assumes "wf s" "keep_new key s rs = Some (us, s')"
  shows "seen s' = seen s \<union> key ` set rs \<and> key ` set us = key ` set rs - seen s"
  using assms
proof (induction rs arbitrary: s us)
  case (Cons r rs)
  obtain s1 where t: "test s (key r) = Some (key r \<in> seen s, s1)" using test_total [OF Cons.prems(1)] by blast
  obtain vs where v: "keep_new key s1 rs = Some (vs, s')" "us = (if key r \<in> seen s then vs else r # vs)"
    using Cons.prems(2) t by (auto split: option.splits)
  note IH = Cons.IH [OF test_wf [OF Cons.prems(1) t] v(1)]
  from IH v(2) test_exact [OF Cons.prems(1) t] show ?case by auto
qed auto

end

definition test_key :: "'k set \<Rightarrow> 'k \<Rightarrow> (bool \<times> 'k set) option" where
  "test_key s k = Some (k \<in> s, insert k s)"

interpretation exact: exact_filter test_key "\<lambda>s. s" "\<lambda>_. True"
  by unfold_locales (auto simp: test_key_def)

lemma exact_keep_new_Cons:
  "exact.keep_new key s (r # rs) = (case exact.keep_new key (insert (key r) s) rs of
     None \<Rightarrow> None | Some (us, s') \<Rightarrow> Some (if key r \<in> s then us else r # us, s'))"
  by (subst exact.keep_new.simps) (simp only: test_key_def option.case prod.case)

declare exact.keep_new.simps(2) [simp del]

lemma dedup_loop_keep_new:
  "dedup_loop key seen rs n = (us, m) \<Longrightarrow>
   \<exists>s'. exact.keep_new (\<lambda>r. the (key r)) seen (filter (\<lambda>r. key r \<noteq> None) rs)
        = Some (filter (\<lambda>r. key r \<noteq> None) us, s')
     \<and> filter (\<lambda>r. key r = None) us = filter (\<lambda>r. key r = None) rs
     \<and> subseq us rs \<and> m = n + int (length rs) - int (length us)"
proof (induction key seen rs n arbitrary: us m rule: dedup_loop.induct)
  case (2 key seen r rs n)
  show ?case
  proof (cases "key r")
    case None
    obtain vs k where d: "dedup_loop key seen rs n = (vs, k)" by (metis surj_pair)
    from "2.IH"(1) [OF None d] "2.prems" d None show ?thesis by (auto simp: list_emb.intros)
  next
    case (Some k)
    show ?thesis
    proof (cases "k \<in> seen")
      case True
      from "2.IH"(2) [OF Some True, of us m] "2.prems" Some True show ?thesis
        by (auto simp: exact_keep_new_Cons insert_absorb intro: list_emb.intros)
    next
      case False
      obtain vs j where d: "dedup_loop key (insert k seen) rs n = (vs, j)" by (metis surj_pair)
      from "2.IH"(3) [OF Some False d] "2.prems" d Some False show ?thesis
        by (auto simp: exact_keep_new_Cons)
    qed
  qed
qed auto

lemma dedup_loop_no_keys: "(\<And>r. r \<in> set rs \<Longrightarrow> key r = None) \<Longrightarrow> dedup_loop key seen rs n = (rs, n)"
  by (induction rs) auto

text \<open>A coercion activity that drops a record reports it.\<close>

definition coerce_reports :: "transform_activities \<Rightarrow> bool" where
  "coerce_reports acts \<longleftrightarrow> (\<forall>rs fm out. xt_coerce acts rs fm = Inr out \<longrightarrow>
     length (mo_records out) \<le> length rs \<and> length rs \<le> length (mo_records out) + length (mo_errors out))"

lemma transform_counts:
  assumes "\<And>rs fm out. xt_map acts rs fm = Inr out \<Longrightarrow> out = MapFieldsActivity num_json jsonErr rs fm"
    and "\<And>rs streams out. xt_dedup acts rs streams = Inr out \<Longrightarrow> out = DeduplicateActivity num_v rs streams"
    and "\<not> has_coercions (tp_field_mappings params) \<or> coerce_reports acts"
    and "TransformWorkflow acts params = Inr res"
  shows "tr_records_count res = int (length (tr_records res)) \<and> 0 \<le> tr_dropped res
     \<and> (\<exists>lost. tr_records_count res + tr_dropped res + int lost = int (length (tp_records params))
         \<and> lost \<le> length (tr_errors res) \<and> (\<not> has_coercions (tp_field_mappings params) \<longrightarrow> lost = length (tr_errors res)))
     \<and> (stream_pks (tp_streams params) = Map.empty \<longrightarrow> tr_dropped res = 0)"
proof -
  let ?fm = "tp_field_mappings params"
  obtain m where m: "(if length ?fm > 0 then xt_map acts (tp_records params) (map_of ?fm)
      else Inr \<lparr>mo_records = tp_records params, mo_errors = []\<rparr>) = Inr m"
    using assms(4) by (auto simp: TransformWorkflow_def Let_def split: sum.splits)
  have count: "length (mo_records m) + length (mo_errors m) = length (tp_records params)"
  proof (cases "length ?fm > 0")
    case True
    with m assms(1) have "m = MapFieldsActivity num_json jsonErr (tp_records params) (map_of ?fm)" by auto
    then show ?thesis by (simp add: MapFieldsActivity_def map_records_count)
  qed (use m in auto)
  obtain c where c: "(if has_coercions ?fm then xt_coerce acts (mo_records m) (map_of ?fm)
      else Inr \<lparr>mo_records = mo_records m, mo_errors = []\<rparr>) = Inr c"
    using assms(4) m by (auto simp: TransformWorkflow_def Let_def split: sum.splits)
  have coerced: "length (mo_records c) \<le> length (mo_records m)"
      "length (mo_records m) \<le> length (mo_records c) + length (mo_errors c)"
      "\<not> has_coercions ?fm \<longrightarrow> mo_errors c = []"
    using assms(3) c by (auto simp: coerce_reports_def split: if_splits)
  obtain d where d: "xt_dedup acts (mo_records c) (tp_streams params) = Inr d"
    "res = \<lparr>tr_records = do_records d, tr_records_count = int (length (do_records d)),
       tr_dropped = do_duplicates d, tr_errors = mo_errors m @ mo_errors c\<rparr>"
    using assms(4) m c by (auto simp: TransformWorkflow_def Let_def split: sum.splits)
  obtain us k where u: "dedup_loop (record_key num_v (stream_pks (tp_streams params))) {} (mo_records c) 0 = (us, k)"
    by (metis surj_pair)
  have len: "length us \<le> length (mo_records c)" "k = int (length (mo_records c) - length us)"
    using dedup_loop_keep_new [OF u] by (auto dest: list_emb_length)
  have none: "k = 0" if "stream_pks (tp_streams params) = Map.empty"
    using u dedup_loop_no_keys [of "mo_records c" "record_key num_v (stream_pks (tp_streams params))"] that
    by (auto simp: record_key_def)
  have res: "tr_records_count res = int (length us)" "tr_records res = us" "tr_dropped res = k"
    "tr_errors res = mo_errors m @ mo_errors c"
    using assms(2) [OF d(1)] d(2) u by (auto simp: DeduplicateActivity_def)
  define lost where "lost = length (mo_errors m) + (length (mo_records m) - length (mo_records c))"
  have "int (length us) + k + int lost = int (length (tp_records params))" "lost \<le> length (tr_errors res)"
    "\<not> has_coercions ?fm \<longrightarrow> lost = length (tr_errors res)"
    using count coerced len res by (auto simp: lost_def)
  then show ?thesis using res len none by auto
qed

section \<open>Properties\<close>


definition user_stream :: "string list list \<Rightarrow> configured_stream" where
  "user_stream pk = \<lparr>cs_stream = \<lparr>s_name = ''u'', s_namespace = [], s_display_name = [], s_schema = [],
       s_supported_sync_modes = [], s_default_cursor_field = [], s_source_defined_pk = False, s_primary_key = []\<rparr>,
     cs_sync_mode = SyncModeFullRefresh, cs_destination_sync_mode = DestSyncModeAppend, cs_cursor_field = [],
     cs_primary_key = pk\<rparr>"

definition user :: "string \<Rightarrow> rec" where
  "user data = \<lparr>r_stream = ''u'', r_namespace = [], r_data = data, r_emitted_at = 0\<rparr>"

lemmas dedup_eval = DeduplicateActivity_def record_key_def stream_pks_def user_stream_def user_def
  extractPrimaryKey_def unmarshal_record_def unmarshal_map_def navigateFieldPath_def decode_members_def json_eval

lemma user_stream_pks: "pk \<noteq> [] \<Longrightarrow> stream_pks [user_stream pk] = [''u'' \<mapsto> pk]"
  by (simp add: stream_pks_def user_stream_def)


text \<open>
  Records with different primary keys can be taken for duplicates. The values of a composite key
  are joined with a bar that is not escaped, so for any two records of a stream with the two-column
  key \<open>a\<close>, \<open>b\<close> whose values are the strings \<open>x|y\<close>, \<open>z\<close> and \<open>x\<close>, \<open>y|z\<close>, the second is dropped; and of
  the records in which a single-column key is missing only the first is kept.
\<close>

theorem distinct_keys_dropped:
  assumes "unmarshal_record (r_data r1) = Some [(''a'', JStr (x @ ''|'' @ y)), (''b'', JStr z)]"
    and "unmarshal_record (r_data r2) = Some [(''a'', JStr x), (''b'', JStr (y @ ''|'' @ z))]"
    and "unmarshal_record (r_data r3) = Some []" "unmarshal_record (r_data r4) = Some [(''b'', v)]"
    and "r_stream r1 = ''u''" "r_stream r2 = ''u''" "r_stream r3 = ''u''" "r_stream r4 = ''u''"
  shows "do_records (DeduplicateActivity num_v [r1, r2] [user_stream [[''a''], [''b'']]]) = [r1]
     \<and> do_records (DeduplicateActivity num_v [r3, r4] [user_stream [[''a'']]]) = [r3]"
proof -
  have pk: "extractPrimaryKey num_v (r_data r1) [[''a''], [''b'']] = x @ ''|'' @ y @ ''|'' @ z"
    "extractPrimaryKey num_v (r_data r2) [[''a''], [''b'']] = x @ ''|'' @ y @ ''|'' @ z"
    "extractPrimaryKey num_v (r_data r3) [[''a'']] = ''<nil>''"
    "extractPrimaryKey num_v (r_data r4) [[''a'']] = ''<nil>''"
    using assms(1-4) by (simp_all add: extractPrimaryKey_def navigateFieldPath_def decode_members_def)
  have "record_key num_v (stream_pks [user_stream [[''a''], [''b'']]]) r = Some (''u'', x @ ''|'' @ y @ ''|'' @ z)"
    if "r \<in> {r1, r2}" for r
    using that pk assms(5,6) by (auto simp: record_key_def user_stream_pks Let_def)
  moreover have "record_key num_v (stream_pks [user_stream [[''a'']]]) r = Some (''u'', ''<nil>'')"
    if "r \<in> {r3, r4}" for r
    using that pk assms(7,8) by (auto simp: record_key_def user_stream_pks Let_def)
  ultimately show ?thesis by (simp add: DeduplicateActivity_def)
qed

theorem distinct_keys_dropped_witness:
  "do_records (DeduplicateActivity id [user ''{\"a\":\"1|2\",\"b\":\"3\"}'', user ''{\"a\":\"1\",\"b\":\"2|3\"}'']
     [user_stream [[''a''], [''b'']]]) = [user ''{\"a\":\"1|2\",\"b\":\"3\"}'']"
proof -
  have "unmarshal_record (r_data (user ''{\"a\":\"1|2\",\"b\":\"3\"}'')) = Some [(''a'', JStr (''1'' @ ''|'' @ ''2'')), (''b'', JStr ''3'')]"
    "unmarshal_record (r_data (user ''{\"a\":\"1\",\"b\":\"2|3\"}'')) = Some [(''a'', JStr ''1''), (''b'', JStr (''2'' @ ''|'' @ ''3''))]"
    "unmarshal_record (r_data (user ''{}'')) = Some []" "unmarshal_record (r_data (user ''{\"b\":1}'')) = Some [(''b'', JNum ''1'')]"
    by (simp_all add: dedup_eval)
  from distinct_keys_dropped [OF this] show ?thesis by (simp add: user_def)
qed

text \<open>
  Mapping fields loses no record and follows the mappings. Mapped records and errors add up to
  the input; every output record is an input record, unchanged when its stream has no mappings, and
  otherwise with the data of the mapped map. In that map the value of a field is the one of the last
  mapping to it whose source field exists; a field that no mapping writes keeps its value unless it
  is the source of a mapping, and then is gone.
\<close>

theorem map_fields_semantics:
  assumes "MapFieldsActivity num_json jsonErr records fieldMappings = out"
  shows "length (mo_records out) + length (mo_errors out) = length records
     \<and> (\<forall>r' \<in> set (mo_records out). \<exists>r \<in> set records. r_stream r' = r_stream r \<and> r_emitted_at r' = r_emitted_at r \<and>
          (r' = r \<or> (\<exists>mappings srcData. fieldMappings (r_stream r) = Some mappings
             \<and> unmarshal_record (r_data r) = Some srcData
             \<and> r_data r' = marshal num_json (JObj (map_record_data mappings srcData)))))
     \<and> (\<forall>mappings srcData k. map_of (map_record_data mappings srcData) k =
          (case find (\<lambda>m. fm_dest_field m = k \<and> map_of srcData (fm_source_field m) \<noteq> None) (rev mappings) of
             Some m \<Rightarrow> map_of srcData (fm_source_field m)
           | None \<Rightarrow> if k \<in> fm_source_field ` set mappings then None else map_of srcData k))"
proof (intro conjI ballI allI)
  show "length (mo_records out) + length (mo_errors out) = length records"
    using assms map_records_count by (auto simp: MapFieldsActivity_def)
  show "\<exists>r \<in> set records. r_stream r' = r_stream r \<and> r_emitted_at r' = r_emitted_at r \<and>
          (r' = r \<or> (\<exists>mappings srcData. fieldMappings (r_stream r) = Some mappings
             \<and> unmarshal_record (r_data r) = Some srcData
             \<and> r_data r' = marshal num_json (JObj (map_record_data mappings srcData))))"
    if "r' \<in> set (mo_records out)" for r'
    using that assms map_records_subset by (auto simp: MapFieldsActivity_def)
  fix mappings srcData k
  have "find P xs = Some m \<Longrightarrow> P m" for P :: "field_mapping \<Rightarrow> bool" and xs m
    by (auto simp: find_Some_iff)
  then show "map_of (map_record_data mappings srcData) k =
      (case find (\<lambda>m. fm_dest_field m = k \<and> map_of srcData (fm_source_field m) \<noteq> None) (rev mappings) of
         Some m \<Rightarrow> map_of srcData (fm_source_field m)
       | None \<Rightarrow> if k \<in> fm_source_field ` set mappings then None else map_of srcData k)"
    by (force simp: map_record_data_value mapped_value_def split: option.split)
qed

definition rename :: "string \<Rightarrow> string \<Rightarrow> field_mapping" where
  "rename a b = \<lparr>fm_source_field = a, fm_dest_field = b, fm_coerce_type = []\<rparr>"

theorem map_fields_semantics_witness:
  "length (mo_records (MapFieldsActivity id (\<lambda>_. NewError ''json'') [user ''{\"a\":1}'', user ''[]'']
       [''u'' \<mapsto> [rename ''a'' ''b'']]))
     + length (mo_errors (MapFieldsActivity id (\<lambda>_. NewError ''json'') [user ''{\"a\":1}'', user ''[]'']
       [''u'' \<mapsto> [rename ''a'' ''b'']])) = 2
   \<and> map_of (map_record_data [rename ''a'' ''b''] [(''a'', JNum ''1''), (''b'', JNull), (''c'', JNull)]) ''b'' = Some (JNum ''1'')
   \<and> map_of (map_record_data [rename ''a'' ''b''] [(''a'', JNum ''1''), (''b'', JNull), (''c'', JNull)]) ''a'' = None"
  using map_fields_semantics [OF refl, of id "\<lambda>_. NewError ''json''" "[user ''{\"a\":1}'', user ''[]'']"
      "[''u'' \<mapsto> [rename ''a'' ''b'']]"]
  by (simp add: rename_def)

text \<open>
  The transform workflow accounts for every record. If the outcomes of mapping and deduplication
  are errors or the outputs of their activities and no mapping asks for a coercion, then a result of
  \<open>TransformWorkflow\<close> has as many records as it counts, and these, the dropped duplicates and the
  records reported as errors add up to the records it was given.
\<close>

theorem transform_accounts:
  assumes "\<And>rs fm out. xt_map acts rs fm = Inr out \<Longrightarrow> out = MapFieldsActivity num_json jsonErr rs fm"
    and "\<And>rs streams out. xt_dedup acts rs streams = Inr out \<Longrightarrow> out = DeduplicateActivity num_v rs streams"
    and "\<not> has_coercions (tp_field_mappings params)"
    and "TransformWorkflow acts params = Inr res"
  shows "tr_records_count res = int (length (tr_records res))
     \<and> tr_records_count res + tr_dropped res + int (length (tr_errors res)) = int (length (tp_records params))"
  using transform_counts [OF assms(1,2) disjI1 [OF assms(3)] assms(4)] assms(3) by auto

theorem transform_accounts_witness:
  "\<exists>res. TransformWorkflow \<lparr>xt_map = (\<lambda>rs fm. Inr (MapFieldsActivity id (\<lambda>_. NewError ''json'') rs fm)),
       xt_coerce = (\<lambda>rs fm. Inl DeadlineExceeded), xt_dedup = (\<lambda>rs st. Inr (DeduplicateActivity id rs st))\<rparr>
     \<lparr>tp_records = [user ''{\"a\":1}'', user ''[]'', user ''{\"a\":1}''], tp_field_mappings = [(''u'', [rename ''a'' ''b''])],
       tp_streams = [user_stream [[''b'']]], tp_tenant = [], tp_sync = []\<rparr> = Inr res
     \<and> tr_records_count res + tr_dropped res + int (length (tr_errors res)) = 3"
proof -
  let ?acts = "\<lparr>xt_map = (\<lambda>rs fm. Inr (MapFieldsActivity id (\<lambda>_. NewError ''json'') rs fm)),
       xt_coerce = (\<lambda>rs fm. Inl DeadlineExceeded), xt_dedup = (\<lambda>rs st. Inr (DeduplicateActivity id rs st))\<rparr>"
  let ?p = "\<lparr>tp_records = [user ''{\"a\":1}'', user ''[]'', user ''{\"a\":1}''], tp_field_mappings = [(''u'', [rename ''a'' ''b''])],
       tp_streams = [user_stream [[''b'']]], tp_tenant = [], tp_sync = []\<rparr>"
  have nc: "\<not> has_coercions (tp_field_mappings ?p)" by (simp add: has_coercions_def rename_def)
  obtain res where r: "TransformWorkflow ?acts ?p = Inr res"
    using nc by (simp add: TransformWorkflow_def Let_def)
  have "tr_records_count res = int (length (tr_records res))
     \<and> tr_records_count res + tr_dropped res + int (length (tr_errors res)) = int (length (tp_records ?p))"
    by (rule transform_accounts [where num_json = id and num_v = id and jsonErr = "\<lambda>_. NewError ''json''",
          OF _ _ nc r]) simp_all
  then have "tr_records_count res + tr_dropped res + int (length (tr_errors res)) = 3" by simp
  with r show ?thesis by blast
qed

end
