(* ===== verification/Batcher.thy ===== *)
theory Batcher
  imports Protocol
begin

text \<open>
  \<open>internal/worker/load/batcher.go\<close>: a buffer of records that is flushed when it is full,
  when a timer fires, on demand and on close. Each operation holds the mutex for a first
  part that decides and drains, and calls \<open>flushFn\<close> after releasing it. The first parts
  are the functions ending in \<open>_locked\<close>: new state and what is left to do. The operations
  compose them with \<open>flushFn\<close>, a function on the state \<open>'w\<close> of the world outside. The step
  relation \<open>batcher_step\<close> interleaves the locked parts of any number of callers and of the
  timer with the completion of the flushes.
\<close>

record 'r batcher =
  b_maxSize :: int
  b_flushInterval :: duration
  b_buffer :: "'r list"
  b_closed :: bool
  b_doneClosed :: bool
  b_timerArmed :: bool
  b_lastErr :: "go_error option"

definition NewBatcher :: "int \<Rightarrow> duration \<Rightarrow> 'r batcher" where
  "NewBatcher maxSize flushInterval =
    \<lparr>b_maxSize = (if maxSize \<le> 0 then 1000 else maxSize),
     b_flushInterval = (if flushInterval \<le> 0 then 5000000000 else flushInterval),
     b_buffer = [], b_closed = False, b_doneClosed = False, b_timerArmed = True, b_lastErr = None\<rparr>"

definition resetTimerLocked :: "'r batcher \<Rightarrow> 'r batcher" where
  "resetTimerLocked b = b\<lparr>b_timerArmed := True\<rparr>"

definition drainLocked :: "'r batcher \<Rightarrow> 'r list \<times> 'r batcher" where
  "drainLocked b = (b_buffer b, resetTimerLocked (b\<lparr>b_buffer := []\<rparr>))"

definition Add_locked :: "'r batcher \<Rightarrow> 'r \<Rightarrow> 'r batcher \<times> 'r list option result" where
  "Add_locked b r =
    (if b_closed b then (b, Inl (NewError ''batcher is closed''))
     else case b_lastErr b of
       Some err \<Rightarrow> (b\<lparr>b_lastErr := None\<rparr>, Inl (Wrapped ''previous timer flush failed: '' err))
     | None \<Rightarrow>
         let b = b\<lparr>b_buffer := b_buffer b @ [r]\<rparr>
         in if int (length (b_buffer b)) \<ge> b_maxSize b
            then (let (batch, b) = drainLocked b in (b, Inr (Some batch)))
            else (b, Inr None))"

definition Flush_locked :: "'r batcher \<Rightarrow> 'r batcher \<times> 'r list option" where
  "Flush_locked b =
    (if b_buffer b = [] then (b, None)
     else let (batch, b) = drainLocked b in (b, Some batch))"

definition Close_locked :: "'r batcher \<Rightarrow> 'r batcher \<times> 'r list option" where
  "Close_locked b =
    (if b_closed b then (b, None)
     else let b = b\<lparr>b_closed := True, b_timerArmed := False\<rparr>;
              (batch, b) = (if b_buffer b \<noteq> [] then drainLocked b else ([], b));
              b = b\<lparr>b_doneClosed := True\<rparr>
          in (b, if batch \<noteq> [] then Some batch else None))"

definition Len :: "'r batcher \<Rightarrow> int" where
  "Len b = int (length (b_buffer b))"

text \<open>The timer has fired: it is no longer armed when \<open>timerFlush\<close> runs.\<close>

definition timerFlush_locked :: "'r batcher \<Rightarrow> 'r batcher \<times> 'r list option" where
  "timerFlush_locked b =
    (let b = b\<lparr>b_timerArmed := False\<rparr>
     in if b_closed b \<or> b_buffer b = []
        then (if \<not> b_closed b then resetTimerLocked b else b, None)
        else let (batch, b) = drainLocked b in (b, Some batch))"

section \<open>The operations with their flush\<close>

type_synonym ('r, 'w) flush_fn = "'r list \<Rightarrow> 'w \<Rightarrow> go_error option \<times> 'w"

definition batcher_Add ::
    "('r, 'w) flush_fn \<Rightarrow> 'r \<Rightarrow> 'r batcher \<times> 'w \<Rightarrow> go_error option \<times> 'r batcher \<times> 'w" where
  "batcher_Add flushFn r = (\<lambda>(b, w). case Add_locked b r of
     (b, Inl err) \<Rightarrow> (Some err, b, w)
   | (b, Inr None) \<Rightarrow> (None, b, w)
   | (b, Inr (Some batch)) \<Rightarrow> (let (e, w) = flushFn batch w in (e, b, w)))"

definition flush_drained ::
    "('r, 'w) flush_fn \<Rightarrow> 'r batcher \<times> 'r list option \<Rightarrow> 'w \<Rightarrow> go_error option \<times> 'r batcher \<times> 'w" where
  "flush_drained flushFn = (\<lambda>(b, drained) w. case drained of
     None \<Rightarrow> (None, b, w)
   | Some batch \<Rightarrow> (let (e, w) = flushFn batch w in (e, b, w)))"

definition batcher_Flush :: "('r, 'w) flush_fn \<Rightarrow> 'r batcher \<times> 'w \<Rightarrow> go_error option \<times> 'r batcher \<times> 'w" where
  "batcher_Flush flushFn = (\<lambda>(b, w). flush_drained flushFn (Flush_locked b) w)"

definition batcher_Close :: "('r, 'w) flush_fn \<Rightarrow> 'r batcher \<times> 'w \<Rightarrow> go_error option \<times> 'r batcher \<times> 'w" where
  "batcher_Close flushFn = (\<lambda>(b, w). flush_drained flushFn (Close_locked b) w)"

definition timerFlush :: "('r, 'w) flush_fn \<Rightarrow> 'r batcher \<times> 'w \<Rightarrow> 'r batcher \<times> 'w" where
  "timerFlush flushFn = (\<lambda>(b, w). case flush_drained flushFn (timerFlush_locked b) w of
     (None, b, w) \<Rightarrow> (b, w)
   | (Some err, b, w) \<Rightarrow> (b\<lparr>b_lastErr := Some err\<rparr>, w))"

section \<open>Interleavings\<close>

text \<open>
  The batcher together with what has happened so far: the records \<open>Add\<close> took into the buffer,
  the batches drained (in order), the batches whose \<open>flushFn\<close> call is still running (with
  whether the timer made it) and those whose call has returned.
\<close>

record 'r batcher_sys =
  bs_b :: "'r batcher"
  bs_accepted :: "'r list"
  bs_drained :: "'r list list"
  bs_running :: "(bool \<times> 'r list) multiset"
  bs_returned :: "'r list multiset"

definition note_drain :: "bool \<Rightarrow> 'r list option \<Rightarrow> 'r batcher_sys \<Rightarrow> 'r batcher_sys" where
  "note_drain timer drained s = (case drained of
     None \<Rightarrow> s
   | Some batch \<Rightarrow> s\<lparr>bs_drained := bs_drained s @ [batch],
                      bs_running := add_mset (timer, batch) (bs_running s)\<rparr>)"

inductive batcher_step :: "'r batcher_sys \<Rightarrow> 'r batcher_sys \<Rightarrow> bool" where
  step_add: "Add_locked (bs_b s) r = (b, Inr drained) \<Longrightarrow>
     batcher_step s (note_drain False drained (s\<lparr>bs_b := b, bs_accepted := bs_accepted s @ [r]\<rparr>))"
| step_add_refused: "Add_locked (bs_b s) r = (b, Inl err) \<Longrightarrow> batcher_step s (s\<lparr>bs_b := b\<rparr>)"
| step_flush: "Flush_locked (bs_b s) = (b, drained) \<Longrightarrow>
     batcher_step s (note_drain False drained (s\<lparr>bs_b := b\<rparr>))"
| step_close: "Close_locked (bs_b s) = (b, drained) \<Longrightarrow>
     batcher_step s (note_drain False drained (s\<lparr>bs_b := b\<rparr>))"
| step_timer: "b_timerArmed (bs_b s) \<Longrightarrow> timerFlush_locked (bs_b s) = (b, drained) \<Longrightarrow>
     batcher_step s (note_drain True drained (s\<lparr>bs_b := b\<rparr>))"
| step_return: "(timer, batch) \<in># bs_running s \<Longrightarrow>
     batcher_step s (s\<lparr>bs_running := bs_running s - {#(timer, batch)#},
        bs_returned := add_mset batch (bs_returned s),
        bs_b := (if timer \<and> err \<noteq> None then (bs_b s)\<lparr>b_lastErr := err\<rparr> else bs_b s)\<rparr>)"

definition batcher_init :: "int \<Rightarrow> duration \<Rightarrow> 'r batcher_sys \<Rightarrow> bool" where
  "batcher_init maxSize flushInterval s \<longleftrightarrow> s = \<lparr>bs_b = NewBatcher maxSize flushInterval,
     bs_accepted = [], bs_drained = [], bs_running = {#}, bs_returned = {#}\<rparr>"

definition batcher_inv :: "'r batcher_sys \<Rightarrow> bool" where
  "batcher_inv s \<longleftrightarrow> 0 < b_maxSize (bs_b s)
     \<and> int (length (b_buffer (bs_b s))) < b_maxSize (bs_b s)
     \<and> bs_accepted s = concat (bs_drained s) @ b_buffer (bs_b s)
     \<and> list_all (\<lambda>batch. batch \<noteq> [] \<and> int (length batch) \<le> b_maxSize (bs_b s)) (bs_drained s)
     \<and> mset (bs_drained s) = image_mset snd (bs_running s) + bs_returned s
     \<and> (b_closed (bs_b s) \<longrightarrow> b_buffer (bs_b s) = [])"

lemmas batcher_locked_defs =
  Add_locked_def Flush_locked_def Close_locked_def timerFlush_locked_def drainLocked_def
  resetTimerLocked_def Let_def note_drain_def

lemma batcher_init_inv: "batcher_init n iv s \<Longrightarrow> batcher_inv s"
  by (simp add: batcher_init_def batcher_inv_def NewBatcher_def)

lemma batcher_step_inv: "batcher_step s t \<Longrightarrow> batcher_inv s \<Longrightarrow> batcher_inv t"
proof (induction rule: batcher_step.induct)
  case (step_return timer batch s err)
  obtain M where "bs_running s = add_mset (timer, batch) M"
    using multi_member_split [OF step_return.hyps] by blast
  with step_return.prems show ?case by (auto simp: batcher_inv_def)
qed (auto simp: batcher_inv_def batcher_locked_defs split: if_splits option.splits)

interpretation batcher: step_invariant "batcher_init n iv" batcher_step batcher_inv for n iv
  by unfold_locales (auto intro: batcher_init_inv batcher_step_inv)

text \<open>A batcher that has been closed stays closed and takes no more records.\<close>

lemma batcher_step_closed:
  "batcher_step s t \<Longrightarrow> b_closed (bs_b s) \<Longrightarrow> b_closed (bs_b t) \<and> bs_accepted t = bs_accepted s"
  by (induction rule: batcher_step.induct)
    (auto simp: batcher_locked_defs split: if_splits option.splits)

section \<open>Properties of the batcher\<close>

text \<open>
  C7: no record is lost, duplicated or reordered by the batcher, whatever the interleaving of
  callers, timer and running flushes. In every reachable state the records taken by \<open>Add\<close> are,
  in order, those of the drained batches followed by the buffer; every drained batch has
  been handed to \<open>flushFn\<close> exactly once (its call is running or has returned), is not empty and
  holds at most \<open>maxSize\<close> records; the buffer never reaches \<open>maxSize\<close> between operations; and
  once the batcher is closed nothing is left in it.
\<close>

theorem batcher_conserves_records:
  assumes "reach (batcher_init maxSize flushInterval) batcher_step s"
  shows "bs_accepted s = concat (bs_drained s) @ b_buffer (bs_b s)
     \<and> mset (bs_drained s) = image_mset snd (bs_running s) + bs_returned s
     \<and> list_all (\<lambda>batch. batch \<noteq> [] \<and> int (length batch) \<le> b_maxSize (bs_b s)) (bs_drained s)
     \<and> Len (bs_b s) < b_maxSize (bs_b s)
     \<and> (b_closed (bs_b s) \<longrightarrow> concat (bs_drained s) = bs_accepted s)"
  using batcher.reach_inv [OF assms] by (auto simp: batcher_inv_def Len_def)

theorem batcher_conserves_records_witness:
  "\<exists>s. reach (batcher_init 2 0) batcher_step s \<and> bs_accepted s = [7 :: nat]
     \<and> concat (bs_drained s) @ b_buffer (bs_b s) = [7]"
proof -
  let ?s0 = "\<lparr>bs_b = NewBatcher 2 0, bs_accepted = [], bs_drained = [], bs_running = {#}, bs_returned = {#}\<rparr>"
  let ?b = "(NewBatcher 2 0)\<lparr>b_buffer := [7 :: nat]\<rparr>"
  let ?s1 = "?s0\<lparr>bs_b := ?b, bs_accepted := [7]\<rparr>"
  have "reach (batcher_init 2 0) batcher_step ?s0" by (rule reach_init) (simp add: batcher_init_def)
  moreover have "batcher_step ?s0 ?s1"
    using step_add [of ?s0 7 ?b None] by (simp add: Add_locked_def NewBatcher_def note_drain_def Let_def)
  ultimately have r: "reach (batcher_init 2 0) batcher_step ?s1" by (rule reach_step)
  then show ?thesis using batcher_conserves_records [OF r] by (intro exI [of _ ?s1]) simp
qed

text \<open>
  Closing twice is harmless and a closed batcher refuses records: after \<open>Close\<close> the buffer
  is empty, a second \<open>Close\<close> flushes nothing and changes nothing, \<open>Flush\<close> has nothing to do,
  and \<open>Add\<close> returns the error \<open>batcher is closed\<close> without touching the state.
\<close>

theorem batcher_close_idempotent:
  assumes "batcher_Close flushFn (b, w) = (e, b', w')" and "b_closed b \<longrightarrow> b_buffer b = []"
  shows "b_buffer b' = [] \<and> batcher_Close flushFn (b', w') = (None, b', w')
     \<and> batcher_Flush flushFn (b', w') = (None, b', w')
     \<and> batcher_Add flushFn r (b', w') = (Some (NewError ''batcher is closed''), b', w')"
proof -
  have "b_closed b' \<and> b_buffer b' = []"
    using assms by (auto simp: batcher_Close_def flush_drained_def batcher_locked_defs
        split: if_splits prod.splits)
  then show ?thesis
    by (simp add: batcher_Close_def batcher_Flush_def batcher_Add_def flush_drained_def
        Close_locked_def Flush_locked_def Add_locked_def)
qed

theorem batcher_close_idempotent_witness:
  "batcher_Add (\<lambda>batch w. (None, w @ batch)) 9
     (snd (batcher_Close (\<lambda>batch w. (None, w @ batch)) ((NewBatcher 5 0)\<lparr>b_buffer := [1 :: nat, 2]\<rparr>, [])))
   = (Some (NewError ''batcher is closed''),
      snd (batcher_Close (\<lambda>batch w. (None, w @ batch)) ((NewBatcher 5 0)\<lparr>b_buffer := [1, 2]\<rparr>, [])))"
proof -
  let ?f = "\<lambda>batch w. (None, w @ batch)" and ?b = "(NewBatcher 5 0)\<lparr>b_buffer := [1 :: nat, 2]\<rparr>"
  obtain e b' w' where c: "batcher_Close ?f (?b, []) = (e, b', w')" by (metis prod_cases3)
  have "b_closed ?b \<longrightarrow> b_buffer ?b = []" by (simp add: NewBatcher_def)
  from batcher_close_idempotent [OF c this, of 9] c show ?thesis by simp
qed

text \<open>
  \<open>Close\<close> does not leave the timer stopped when it has records to flush. Draining the buffer
  re-arms the timer that \<open>Close\<close> has just stopped, so after a \<open>Close\<close> of a non-empty batcher
  the timer is still armed (the wake-up it causes finds the batcher closed and does nothing).
\<close>

theorem batcher_close_rearms_timer:
  assumes "\<not> b_closed b" and "Close_locked b = (b', drained)"
  shows "(b_timerArmed b' \<longleftrightarrow> b_buffer b \<noteq> []) \<and> snd (timerFlush_locked b') = None"
  using assms by (auto simp: batcher_locked_defs split: if_splits)

theorem batcher_close_rearms_timer_witness:
  "b_timerArmed (fst (Close_locked ((NewBatcher 5 0)\<lparr>b_buffer := [1 :: nat]\<rparr>)))"
  using batcher_close_rearms_timer [of "(NewBatcher 5 0)\<lparr>b_buffer := [1 :: nat]\<rparr>"
      "fst (Close_locked ((NewBatcher 5 0)\<lparr>b_buffer := [1 :: nat]\<rparr>))"
      "snd (Close_locked ((NewBatcher 5 0)\<lparr>b_buffer := [1 :: nat]\<rparr>))"]
  by (simp add: NewBatcher_def)

end
