(* ===== verification/LoadWorker.thy ===== *)
theory LoadWorker
  imports Batcher Registry
begin

text \<open>
  \<open>internal/worker/load/worker.go\<close>: writing a list of records to a destination in batches,
  with retries, exponential backoff and a dead letter queue, and the same through a batcher.
  The destination connector, the cancellation of the context, waiting and the clock act on
  a state \<open>'w\<close> of the outside world; heartbeats to Temporal have no effect on the result and
  are left out.
\<close>

record dead_letter_record =
  dl_record :: rec
  dl_error :: string
  dl_attempts :: int
  dl_timestamp :: time

record load_worker =
  lw_batchSize :: int
  lw_maxRetries :: int
  lw_baseDelay :: duration
  lw_maxDelay :: duration
  lw_deadLetter :: "dead_letter_record list"

text \<open>
  What the worker needs of its surroundings: \<open>ctx.Err()\<close>, the wait in \<open>select\<close> (\<open>None\<close> when
  the delay has passed, the context's error when it was cancelled first), how many of \<open>n\<close>
  messages the feeding goroutine sends before it sees a cancelled context, the clock, and the
  conversion of an out-of-range floating-point number to \<open>int64\<close>, which Go leaves to the
  implementation.
\<close>

record 'w surroundings =
  ctx_err :: "'w \<Rightarrow> go_error option"
  wait :: "duration \<Rightarrow> 'w \<Rightarrow> go_error option \<times> 'w"
  fed :: "nat \<Rightarrow> 'w \<Rightarrow> nat"
  now :: "'w \<Rightarrow> time"
  float_to_int64 :: "int \<Rightarrow> int"

text \<open>A destination's \<open>Write\<close>: configuration, catalog and the messages fed to its channel.\<close>

type_synonym 'w destination =
  "raw_message \<Rightarrow> configured_stream list \<Rightarrow> message list \<Rightarrow> 'w \<Rightarrow> write_result result \<times> 'w"

definition NewLoadWorker :: "int \<Rightarrow> int \<Rightarrow> load_worker" where
  "NewLoadWorker batchSize maxRetries =
    \<lparr>lw_batchSize = (if batchSize \<le> 0 then 1000 else batchSize),
     lw_maxRetries = (if maxRetries < 0 then 3 else maxRetries),
     lw_baseDelay = 100000000, lw_maxDelay = 30000000000, lw_deadLetter = []\<rparr>"

text \<open>
  \<open>backoffDelay\<close>: the base delay times a power of two in \<open>float64\<close> (exact, as the base delay
  has fewer than 53 bits), converted to a duration and capped.
\<close>

definition backoffDelay :: "'w surroundings \<Rightarrow> load_worker \<Rightarrow> nat \<Rightarrow> duration" where
  "backoffDelay env lw attempt =
    (let delay = float_to_int64 env (lw_baseDelay lw * 2 ^ attempt)
     in if delay > lw_maxDelay lw then lw_maxDelay lw else delay)"

definition doWrite :: "'w surroundings \<Rightarrow> 'w destination \<Rightarrow> raw_message \<Rightarrow> configured_stream list \<Rightarrow> rec list
    \<Rightarrow> 'w \<Rightarrow> write_result result \<times> 'w" where
  "doWrite env dest config catalog records w =
     dest config catalog (map record_message (take (fed env (length records) w) records)) w"

text \<open>The loop of \<open>writeBatchWithRetry\<close>: \<open>k\<close> attempts are left, \<open>attempt\<close> is the loop variable.\<close>

fun write_attempts :: "'w surroundings \<Rightarrow> load_worker \<Rightarrow> 'w destination \<Rightarrow> raw_message
    \<Rightarrow> configured_stream list \<Rightarrow> rec list \<Rightarrow> nat \<Rightarrow> nat \<Rightarrow> go_error option \<Rightarrow> 'w
    \<Rightarrow> write_result result \<times> 'w" where
  "write_attempts env lw dest config catalog records 0 attempt lastErr w =
     (Inl (case lastErr of Some e \<Rightarrow> Wrapped ''max retries exceeded: '' e
                         | None \<Rightarrow> NewError ''max retries exceeded: %!w(<nil>)''), w)"
| "write_attempts env lw dest config catalog records (Suc k) attempt lastErr w =
    (case ctx_err env w of
       Some e \<Rightarrow> (Inl e, w)
     | None \<Rightarrow>
        (case doWrite env dest config catalog records w of
           (Inr res, w) \<Rightarrow> (Inr res, w)
         | (Inl err, w) \<Rightarrow>
            if \<not> IsRetryable err then (Inl err, w)
            else (case wait env (backoffDelay env lw attempt) w of
                    (Some e, w) \<Rightarrow> (Inl e, w)
                  | (None, w) \<Rightarrow>
                      write_attempts env lw dest config catalog records k (Suc attempt) (Some err) w)))"

definition writeBatchWithRetry :: "'w surroundings \<Rightarrow> load_worker \<Rightarrow> 'w destination \<Rightarrow> raw_message
    \<Rightarrow> configured_stream list \<Rightarrow> rec list \<Rightarrow> 'w \<Rightarrow> write_result result \<times> 'w" where
  "writeBatchWithRetry env lw dest config catalog records w =
     write_attempts env lw dest config catalog records (nat (lw_maxRetries lw + 1)) 0 None w"

definition addToDeadLetter :: "time \<Rightarrow> rec list \<Rightarrow> string \<Rightarrow> load_worker \<Rightarrow> load_worker" where
  "addToDeadLetter t records errMsg lw = lw\<lparr>lw_deadLetter := lw_deadLetter lw
     @ map (\<lambda>r. \<lparr>dl_record = r, dl_error = errMsg, dl_attempts = wrap64 (lw_maxRetries lw + 1),
                  dl_timestamp = t\<rparr>) records\<rparr>"

text \<open>The per-record errors of a batch that was written: those that carry the record are kept.\<close>

definition dead_letter_errors :: "time \<Rightarrow> write_error list \<Rightarrow> load_worker \<Rightarrow> load_worker" where
  "dead_letter_errors t errs lw = lw\<lparr>lw_deadLetter := lw_deadLetter lw
     @ map (\<lambda>we. \<lparr>dl_record = \<lparr>r_stream = [], r_namespace = [], r_data = we_record we, r_emitted_at = t\<rparr>,
                   dl_error = we_message we, dl_attempts = wrap64 (lw_maxRetries lw + 1),
                   dl_timestamp = t\<rparr>)
         (filter (\<lambda>we. length (we_record we) > 0) errs)\<rparr>"

text \<open>
  The batches of \<open>ProcessBatch\<close>: \<open>records[start:end]\<close> for \<open>start\<close> in steps of the batch size.
  The constructor makes the size positive; with size zero the Go loop would not advance.
\<close>

function batch_slices :: "nat \<Rightarrow> nat \<Rightarrow> 'r list \<Rightarrow> 'r list list" where
  "batch_slices bs start records =
    (if 0 < bs \<and> start < length records
     then slice records start (min (start + bs) (length records)) # batch_slices bs (start + bs) records
     else [])"
  by pat_completeness auto
termination
  by (relation "measure (\<lambda>(bs, start, records). length records - start)") auto

declare batch_slices.simps [simp del]

fun process_batches :: "'w surroundings \<Rightarrow> 'w destination \<Rightarrow> raw_message \<Rightarrow> configured_stream list
    \<Rightarrow> rec list list \<Rightarrow> write_result \<Rightarrow> load_worker \<Rightarrow> 'w \<Rightarrow> write_result \<times> load_worker \<times> 'w" where
  "process_batches env dest config catalog [] totalResult lw w = (totalResult, lw, w)"
| "process_batches env dest config catalog (batch # rest) totalResult lw w =
    (case writeBatchWithRetry env lw dest config catalog batch w of
       (Inl err, w) \<Rightarrow>
         process_batches env dest config catalog rest
           (totalResult\<lparr>wr_errors := wr_errors totalResult @ [\<lparr>we_message = error_text err, we_record = [],
              we_error_code = ''BATCH_FAILED''\<rparr>]\<rparr>)
           (addToDeadLetter (now env w) batch (error_text err) lw) w
     | (Inr res, w) \<Rightarrow>
         process_batches env dest config catalog rest
           (totalResult\<lparr>wr_records_written := wrap64 (wr_records_written totalResult + wr_records_written res),
                  wr_state_messages := wr_state_messages totalResult @ wr_state_messages res,
                  wr_errors := wr_errors totalResult @ wr_errors res\<rparr>)
           (dead_letter_errors (now env w) (wr_errors res) lw) w)"

definition empty_write_result :: write_result where
  "empty_write_result = \<lparr>wr_records_written = 0, wr_errors = [], wr_state_messages = []\<rparr>"

definition ProcessBatch :: "('s, 'w destination) registry \<Rightarrow> 'w surroundings \<Rightarrow> string \<Rightarrow> raw_message
    \<Rightarrow> configured_stream list \<Rightarrow> rec list \<Rightarrow> load_worker \<Rightarrow> 'w
    \<Rightarrow> write_result result \<times> load_worker \<times> 'w" where
  "ProcessBatch reg env connectorName config catalog records lw w =
    (case GetDestination reg connectorName of
       Inl err \<Rightarrow> (Inl (NewConnectorError connectorName ''get_destination'' err), lw, w)
     | Inr dest \<Rightarrow>
         (case process_batches env dest config catalog
                 (batch_slices (nat (lw_batchSize lw)) 0 records) empty_write_result lw w of
            (totalResult, lw, w) \<Rightarrow> (Inr totalResult, lw, w)))"

definition DeadLetterRecords :: "load_worker \<Rightarrow> dead_letter_record list" where
  "DeadLetterRecords lw = lw_deadLetter lw"

definition DrainDeadLetter :: "load_worker \<Rightarrow> dead_letter_record list \<times> load_worker" where
  "DrainDeadLetter lw = (lw_deadLetter lw, lw\<lparr>lw_deadLetter := []\<rparr>)"

section \<open>Loading through a batcher\<close>

type_synonym 'w flush_world = "write_result \<times> load_worker \<times> 'w"

definition flush_to_worker :: "('s, 'w destination) registry \<Rightarrow> 'w surroundings \<Rightarrow> string
    \<Rightarrow> raw_message \<Rightarrow> configured_stream list \<Rightarrow> (rec, 'w flush_world) flush_fn" where
  "flush_to_worker reg env connectorName config catalog batch = (\<lambda>(totalResult, lw, w).
    (case ProcessBatch reg env connectorName config catalog batch lw w of
       (Inl err, lw, w) \<Rightarrow> (Some err, totalResult, lw, w)
     | (Inr r, lw, w) \<Rightarrow> (None,
          totalResult\<lparr>wr_records_written := wrap64 (wr_records_written totalResult + wr_records_written r),
                wr_errors := wr_errors totalResult @ wr_errors r,
                wr_state_messages := wr_state_messages totalResult @ wr_state_messages r\<rparr>, lw, w)))"

text \<open>
  The loop over the records. \<open>fires i\<close> says whether the batcher's timer goes off before the
  \<open>i\<close>-th \<open>Add\<close> (it can only when it is armed); its flush runs to the end before the next \<open>Add\<close>.
\<close>

definition maybe_timer :: "('r, 'w) flush_fn \<Rightarrow> bool \<Rightarrow> 'r batcher \<times> 'w \<Rightarrow> 'r batcher \<times> 'w" where
  "maybe_timer flushFn fire s = (if fire \<and> b_timerArmed (fst s) then timerFlush flushFn s else s)"

fun feed_batcher :: "('r, 'w) flush_fn \<Rightarrow> (nat \<Rightarrow> bool) \<Rightarrow> nat \<Rightarrow> 'r list
    \<Rightarrow> go_error list \<Rightarrow> 'r batcher \<times> 'w \<Rightarrow> go_error list \<times> 'r batcher \<times> 'w" where
  "feed_batcher flushFn fires i [] errs s = (errs, maybe_timer flushFn (fires i) s)"
| "feed_batcher flushFn fires i (r # rs) errs s =
    (case batcher_Add flushFn r (maybe_timer flushFn (fires i) s) of
       (e, s) \<Rightarrow> feed_batcher flushFn fires (Suc i) rs
                   (case e of None \<Rightarrow> errs | Some err \<Rightarrow> errs @ [err]) s)"

definition FlushBatcher :: "('s, 'w destination) registry \<Rightarrow> 'w surroundings \<Rightarrow> (nat \<Rightarrow> bool)
    \<Rightarrow> string \<Rightarrow> raw_message \<Rightarrow> configured_stream list \<Rightarrow> rec list \<Rightarrow> int \<Rightarrow> load_worker \<Rightarrow> 'w
    \<Rightarrow> (write_result \<times> go_error option) \<times> load_worker \<times> 'w" where
  "FlushBatcher reg env fires connectorName config catalog records batchSize lw w =
    (let flushFn = flush_to_worker reg env connectorName config catalog;
         (errs, s) = feed_batcher flushFn fires 0 records []
                       (NewBatcher batchSize 1000000000, empty_write_result, lw, w);
         (e, b, totalResult, lw, w) = batcher_Close flushFn s;
         errs = (case e of None \<Rightarrow> errs | Some err \<Rightarrow> errs @ [err])
     in ((totalResult, if errs \<noteq> [] then Some (Joined errs) else None), lw, w))"

section \<open>Batches\<close>

lemma concat_batch_slices: "0 < bs \<Longrightarrow> concat (batch_slices bs i xs) = drop i xs"
proof (induction bs i xs rule: batch_slices.induct)
  case (1 bs i xs)
  show ?case
  proof (cases "i < length xs")
    case True
    then have "slice xs i (min (i + bs) (length xs)) @ drop (min (i + bs) (length xs)) xs = drop i xs"
      by (intro slice_append_drop) auto
    with 1 True show ?thesis
      by (cases "i + bs \<le> length xs") (auto simp: batch_slices.simps [of bs i xs] min_def)
  qed (simp add: batch_slices.simps)
qed

lemma batch_slices_size:
  "0 < bs \<Longrightarrow> b \<in> set (batch_slices bs i xs) \<Longrightarrow> 0 < length b \<and> length b \<le> bs"
proof (induction bs i xs rule: batch_slices.induct)
  case (1 bs i xs)
  then show ?case
    by (auto simp: batch_slices.simps [of bs i xs] simp del: length_greater_0_conv split: if_splits)
qed

interpretation worker_batches: chunked "\<lambda>n xs. batch_slices (nat n) 0 xs" "\<lambda>n. 0 < n" nat
proof
  fix n :: int and xs b :: "'a list"
  assume "0 < n"
  then show "concat (batch_slices (nat n) 0 xs) = xs" by (simp add: concat_batch_slices)
  assume "b \<in> set (batch_slices (nat n) 0 xs)"
  with \<open>0 < n\<close> show "0 < length b \<and> length b \<le> nat n" by (intro batch_slices_size) auto
qed

section \<open>Accounting\<close>

definition lw_wf :: "load_worker \<Rightarrow> bool" where
  "lw_wf lw \<longleftrightarrow> 0 < lw_batchSize lw \<and> 0 \<le> lw_maxRetries lw"

lemma NewLoadWorker_wf: "lw_wf (NewLoadWorker n r)"
  by (simp add: lw_wf_def NewLoadWorker_def)

text \<open>No cancellation cuts the feeding of a batch short.\<close>

definition uninterrupted :: "'w surroundings \<Rightarrow> bool" where
  "uninterrupted env \<longleftrightarrow> (\<forall>n w. fed env n w \<ge> n)"

text \<open>
  What a destination's \<open>Write\<close> reports: each of the records it was given is either counted as
  written or comes back as a per-record error that carries the record.
\<close>

definition accounts_for :: "'w destination \<Rightarrow> bool" where
  "accounts_for dest \<longleftrightarrow> (\<forall>config catalog msgs w res w'. dest config catalog msgs w = (Inr res, w') \<longrightarrow>
     0 \<le> wr_records_written res \<and>
     wr_records_written res + int (length (filter (\<lambda>we. length (we_record we) > 0) (wr_errors res)))
       = int (length msgs))"

lemma write_attempts_accounts:
  "accounts_for dest \<Longrightarrow> uninterrupted env \<Longrightarrow> write_attempts env lw dest config catalog records k a le w = (Inr res, w') \<Longrightarrow>
   0 \<le> wr_records_written res \<and>
   wr_records_written res + int (length (filter (\<lambda>we. length (we_record we) > 0) (wr_errors res)))
     = int (length records)"
proof (induction k arbitrary: a le w)
  case (Suc k)
  have "take (fed env (length records) w) records = records"
    using Suc.prems(2) by (simp add: uninterrupted_def)
  with Suc.prems(3) show ?case
    by (auto simp: doWrite_def split: option.splits prod.splits sum.splits if_splits
        dest: Suc.IH [OF Suc.prems(1,2)])
      (use Suc.prems(1) in \<open>fastforce simp: accounts_for_def\<close>)+
qed simp

lemma process_batches_accounts:
  assumes acct: "accounts_for dest" "uninterrupted env"
    and "process_batches env dest config catalog bs tot lw w = (tot', lw', w')"
    and "0 \<le> wr_records_written tot"
    and "wr_records_written tot + int (sum_list (map length bs)) < 2 ^ 63"
  shows "wr_records_written tot' + int (length (lw_deadLetter lw'))
       = wr_records_written tot + int (length (lw_deadLetter lw)) + int (sum_list (map length bs))
     \<and> wr_records_written tot \<le> wr_records_written tot'
     \<and> lw_batchSize lw' = lw_batchSize lw \<and> lw_maxRetries lw' = lw_maxRetries lw
     \<and> (\<exists>new. lw_deadLetter lw' = lw_deadLetter lw @ new)"
  using assms(3-5)
proof (induction bs arbitrary: tot lw w)
  case (Cons b bs)
  obtain r w1 where r: "writeBatchWithRetry env lw dest config catalog b w = (r, w1)" by fastforce
  show ?case
  proof (cases r)
    case (Inl err)
    with r Cons.prems show ?thesis
      using Cons.IH [OF Cons.prems(1) [simplified, unfolded r Inl, simplified]]
      by (auto simp: addToDeadLetter_def)
  next
    case (Inr res)
    have acc: "0 \<le> wr_records_written res" "wr_records_written res
        + int (length (filter (\<lambda>we. length (we_record we) > 0) (wr_errors res))) = int (length b)"
      using write_attempts_accounts [OF acct] r Inr by (fastforce simp: writeBatchWithRetry_def)+
    then have w: "wrap64 (wr_records_written tot + wr_records_written res)
        = wr_records_written tot + wr_records_written res"
      using Cons.prems(2,3) by (intro wrap64_id) (auto simp: in_i64_def)
    with acc r Inr Cons.prems show ?thesis
      using Cons.IH [OF Cons.prems(1) [simplified, unfolded r Inr, simplified]]
      by (auto simp: dead_letter_errors_def)
  qed
qed simp

lemma ProcessBatch_accounts:
  assumes acct: "accounts_for dest" "uninterrupted env"
    and "reg_destinations reg name = Some dest" "lw_wf lw"
    and "int (length records) < 2 ^ 63"
    and "ProcessBatch reg env name config catalog records lw w = (r, lw', w')"
  shows "\<exists>res new. r = Inr res \<and> lw_deadLetter lw' = lw_deadLetter lw @ new \<and> lw_wf lw'
     \<and> 0 \<le> wr_records_written res
     \<and> wr_records_written res + int (length new) = int (length records)"
proof -
  let ?bs = "batch_slices (nat (lw_batchSize lw)) 0 records"
  have len: "sum_list (map length ?bs) = length records"
    using worker_batches.chunk_lengths_sum assms(4) by (auto simp: lw_wf_def)
  obtain tot lw2 w2 where p: "process_batches env dest config catalog ?bs empty_write_result lw w = (tot, lw2, w2)"
    by (metis prod_cases3)
  from process_batches_accounts [OF acct p] assms(4,5) len p assms(3,6) show ?thesis
    by (auto simp: ProcessBatch_def GetDestination_def empty_write_result_def lw_wf_def)
qed

section \<open>Retries\<close>

text \<open>
  Surroundings that never cancel, with the number of writes made so far as their state, and a
  destination that follows a script of outcomes.
\<close>

definition calm :: "(int \<Rightarrow> int) \<Rightarrow> nat surroundings" where
  "calm conv = \<lparr>ctx_err = (\<lambda>_. None), wait = (\<lambda>d w. (None, w)), fed = (\<lambda>n _. n), now = (\<lambda>_. 0), float_to_int64 = conv\<rparr>"

definition scripted :: "(nat \<Rightarrow> write_result result) \<Rightarrow> nat destination" where
  "scripted outcome config catalog msgs w = (outcome w, Suc w)"

lemma write_attempts_scripted:
  assumes "\<And>i. n \<le> i \<Longrightarrow> i < n + j \<Longrightarrow> \<exists>e. outcome i = Inl e \<and> IsRetryable e"
  shows "write_attempts (calm conv) lw (scripted outcome) config catalog records (j + k) a le n
       = write_attempts (calm conv) lw (scripted outcome) config catalog records k (a + j)
           (if j = 0 then le else (case outcome (n + j - 1) of Inl e \<Rightarrow> Some e | Inr _ \<Rightarrow> None)) (n + j)"
  using assms
proof (induction j arbitrary: a le n)
  case (Suc j)
  obtain e where e: "outcome n = Inl e" "IsRetryable e" using Suc.prems [of n] by auto
  have "write_attempts (calm conv) lw (scripted outcome) config catalog records (Suc j + k) a le n
      = write_attempts (calm conv) lw (scripted outcome) config catalog records (j + k) (Suc a) (Some e) (Suc n)"
    using e by (simp add: calm_def scripted_def doWrite_def)
  also have "\<dots> = write_attempts (calm conv) lw (scripted outcome) config catalog records k (Suc a + j)
      (if j = 0 then Some e else (case outcome (Suc n + j - 1) of Inl e \<Rightarrow> Some e | Inr _ \<Rightarrow> None)) (Suc n + j)"
    by (rule Suc.IH) (use Suc.prems in auto)
  finally show ?case using e by simp
qed simp

section \<open>Accounting through the batcher\<close>



definition reporting :: "'w surroundings \<Rightarrow> ('s, 'w destination) registry \<Rightarrow> string \<Rightarrow> bool" where
  "reporting env reg name \<longleftrightarrow> uninterrupted env \<and> (\<exists>dest. reg_destinations reg name = Some dest \<and> accounts_for dest)"


lemma flush_drained_None: "flush_drained f (b, None) w = (None, b, w)"
  by (simp add: flush_drained_def)

lemma flush_drained_Some: "flush_drained f (b, Some batch) w = (case f batch w of (e, w) \<Rightarrow> (e, b, w))"
  by (simp add: flush_drained_def split: prod.split)






section \<open>Properties\<close>

text \<open>
  C3: \<open>LoadWorker.ProcessBatch\<close> loses no record. When the destination is registered and its
  \<open>Write\<close> either fails as a whole or reports each record as written or as a per-record error
  carrying it, and no batch is cut short by a cancellation, then for every list of records
  \<open>ProcessBatch\<close> returns a result, the dead letter queue only grows at its end, and the records
  counted as written together with the new dead letters are exactly as many as the records
  given, whatever the retries did.
\<close>

theorem process_batch_accounts:
  assumes "reporting env reg name" "lw_wf lw" "int (length records) < 2 ^ 63"
  shows "\<exists>res new lw' w'. ProcessBatch reg env name config catalog records lw w = (Inr res, lw', w')
     \<and> DeadLetterRecords lw' = DeadLetterRecords lw @ new
     \<and> 0 \<le> wr_records_written res
     \<and> wr_records_written res + int (length new) = int (length records)"
proof -
  obtain dest where d: "accounts_for dest" "uninterrupted env" "reg_destinations reg name = Some dest"
    using assms(1) by (auto simp: reporting_def)
  obtain r lw' w' where p: "ProcessBatch reg env name config catalog records lw w = (r, lw', w')"
    by (metis prod_cases3)
  from ProcessBatch_accounts [OF d assms(2,3) p] p show ?thesis
    by (auto simp: DeadLetterRecords_def)
qed

text \<open>
  A destination that fails its first write and then refuses one record of every batch of at
  least two.
\<close>

definition picky :: "nat destination" where
  "picky config catalog msgs w =
    (if w = 0 then (Inl (RetryableError (Sentinel ErrTimeout) 1), 1)
     else (Inr \<lparr>wr_records_written = int (length msgs) - (if length msgs > 1 then 1 else 0),
                wr_errors = (if length msgs > 1
                   then [\<lparr>we_message = ''bad'', we_record = ''{}'', we_error_code = ''E''\<rparr>] else []),
                wr_state_messages = []\<rparr>, Suc w))"

definition picky_registry :: "(unit, nat destination) registry" where
  "picky_registry = RegisterDestination ''d''
     \<lparr>cm_name = ''d'', cm_display_name = ''D'', cm_version = ''1'', cm_type = [],
      cm_category = [], cm_icon = []\<rparr> picky empty_registry"

lemma picky_reports: "reporting (calm id) picky_registry ''d''"
  by (auto simp: reporting_def uninterrupted_def calm_def accounts_for_def picky_def
      picky_registry_def RegisterDestination_def split: if_splits)

definition four_records :: "rec list" where
  "four_records = map (\<lambda>d. \<lparr>r_stream = ''s'', r_namespace = [], r_data = d, r_emitted_at = 0\<rparr>)
     [''1'', ''2'', ''3'', ''4'']"

theorem process_batch_accounts_witness:
  "\<exists>res new lw' w'. ProcessBatch picky_registry (calm id) ''d'' [] [] four_records (NewLoadWorker 3 1) 0
       = (Inr res, lw', w')
     \<and> DeadLetterRecords lw' = DeadLetterRecords (NewLoadWorker 3 1) @ new
     \<and> 0 \<le> wr_records_written res
     \<and> wr_records_written res + int (length new) = int (length four_records)"
  by (rule process_batch_accounts [OF picky_reports NewLoadWorker_wf])
    (simp add: four_records_def)

text \<open>
  C38: the retry loop of \<open>writeBatchWithRetry\<close> when nothing is cancelled. If the first \<open>j\<close> writes
  fail with retryable errors and the next one succeeds, or fails with an error that is not
  retryable, within the \<open>maxRetries + 1\<close> attempts allowed, then exactly \<open>j + 1\<close> writes are made
  and the outcome of the last one is returned. If all \<open>maxRetries + 1\<close> attempts fail with
  retryable errors, exactly that many writes are made and the last error is returned, wrapped.
\<close>

theorem retry_outcomes:
  assumes "0 \<le> lw_maxRetries lw"
    and fails: "\<And>i. i < j \<Longrightarrow> \<exists>e. outcome i = Inl e \<and> IsRetryable e"
  shows "(int j \<le> lw_maxRetries lw \<longrightarrow> (case outcome j of Inl e \<Rightarrow> \<not> IsRetryable e | Inr _ \<Rightarrow> True) \<longrightarrow>
            writeBatchWithRetry (calm conv) lw (scripted outcome) config catalog records 0
              = (outcome j, Suc j))
       \<and> (int j = lw_maxRetries lw + 1 \<longrightarrow>
            (\<exists>e. outcome (j - 1) = Inl e \<and>
              writeBatchWithRetry (calm conv) lw (scripted outcome) config catalog records 0
                = (Inl (Wrapped ''max retries exceeded: '' e), j)))"
proof (intro conjI impI)
  define k where "k = nat (lw_maxRetries lw + 1) - j"
  let ?le = "if j = 0 then None else (case outcome (j - 1) of Inl e \<Rightarrow> Some e | Inr _ \<Rightarrow> None)"
  have run: "writeBatchWithRetry (calm conv) lw (scripted outcome) config catalog records 0
      = write_attempts (calm conv) lw (scripted outcome) config catalog records k j ?le j"
    if "int j \<le> lw_maxRetries lw + 1"
  proof -
    have n: "nat (lw_maxRetries lw + 1) = j + k" using that assms(1) by (simp add: k_def)
    have "write_attempts (calm conv) lw (scripted outcome) config catalog records (j + k) 0 None 0
        = write_attempts (calm conv) lw (scripted outcome) config catalog records k (0 + j)
            (if j = 0 then None else (case outcome (0 + j - 1) of Inl e \<Rightarrow> Some e | Inr _ \<Rightarrow> None)) (0 + j)"
      by (rule write_attempts_scripted) (use fails in simp)
    then show ?thesis unfolding writeBatchWithRetry_def n by simp
  qed
  show "writeBatchWithRetry (calm conv) lw (scripted outcome) config catalog records 0 = (outcome j, Suc j)"
    if "int j \<le> lw_maxRetries lw" "case outcome j of Inl e \<Rightarrow> \<not> IsRetryable e | Inr _ \<Rightarrow> True"
  proof -
    have k: "k = Suc (nat (lw_maxRetries lw) - j)" using that(1) assms(1) by (simp add: k_def)
    have "int j \<le> lw_maxRetries lw + 1" using that(1) by simp
    note run [OF this]
    with that show ?thesis unfolding k
      by (cases "outcome j") (simp_all add: calm_def scripted_def doWrite_def)
  qed
  show "\<exists>e. outcome (j - 1) = Inl e \<and>
      writeBatchWithRetry (calm conv) lw (scripted outcome) config catalog records 0
        = (Inl (Wrapped ''max retries exceeded: '' e), j)"
    if "int j = lw_maxRetries lw + 1"
    using run that assms(1) fails [of "j - 1"] by (auto simp: k_def)
qed

definition twice_then_ok :: "nat \<Rightarrow> write_result result" where
  "twice_then_ok i = (if i < 2 then Inl (RetryableError (Sentinel ErrRateLimited) 1)
     else Inr \<lparr>wr_records_written = 4, wr_errors = [], wr_state_messages = []\<rparr>)"

theorem retry_outcomes_witness:
  "writeBatchWithRetry (calm id) (NewLoadWorker 10 3) (scripted twice_then_ok) [] [] four_records 0
     = (Inr \<lparr>wr_records_written = 4, wr_errors = [], wr_state_messages = []\<rparr>, 3)
   \<and> writeBatchWithRetry (calm id) (NewLoadWorker 10 1) (scripted twice_then_ok) [] [] four_records 0
     = (Inl (Wrapped ''max retries exceeded: '' (RetryableError (Sentinel ErrRateLimited) 1)), 2)"
  using retry_outcomes [of "NewLoadWorker 10 3" 2 twice_then_ok id "[]" "[]" four_records]
    retry_outcomes [of "NewLoadWorker 10 1" 2 twice_then_ok id "[]" "[]" four_records]
  by (simp add: NewLoadWorker_def twice_then_ok_def)

text \<open>
  The backoff of a worker made by \<open>NewLoadWorker\<close>. As long as the conversion to \<open>int64\<close> is
  exact on values in range, the delay of every attempt up to the 37th (numbered from 0) is
  100 ms times two to the attempt, capped at 30 s; so it is positive, never above the cap and
  never shorter than the one before. From attempt 37 on the product does not fit \<open>int64\<close>: where
  the machine converts such a value to the smallest integer, as amd64 does, the cap does not
  apply, the delay is negative and the worker does not wait at all.
\<close>

theorem backoff_delay_capped:
  assumes "\<forall>x. in_i64 x \<longrightarrow> float_to_int64 env x = x"
  shows "(\<forall>a \<le> 36. backoffDelay env (NewLoadWorker n r) a = min (100000000 * 2 ^ a) 30000000000
            \<and> 0 < backoffDelay env (NewLoadWorker n r) a)
       \<and> (\<forall>a < 36. backoffDelay env (NewLoadWorker n r) a \<le> backoffDelay env (NewLoadWorker n r) (Suc a))
       \<and> (\<forall>a \<ge> 37. \<not> in_i64 (100000000 * 2 ^ a)
            \<and> (float_to_int64 env (100000000 * 2 ^ a) = - (2 ^ 63)
                \<longrightarrow> backoffDelay env (NewLoadWorker n r) a < 0))"
proof -
  have small: "in_i64 (100000000 * 2 ^ a)" if "a \<le> 36" for a :: nat
  proof -
    have "(2::int) ^ a \<le> 2 ^ 36" using that by (intro power_increasing) auto
    then have "(100000000::int) * 2 ^ a \<le> 100000000 * 2 ^ 36" by simp
    also have "\<dots> < 2 ^ 63" by simp
    finally show ?thesis by (simp only: in_i64_def) (auto intro: order.trans [of _ 0])
  qed
  have big: "\<not> in_i64 (100000000 * 2 ^ a)" if "37 \<le> a" for a :: nat
  proof -
    have "(2::int) ^ 37 \<le> 2 ^ a" using that by (intro power_increasing) auto
    then show ?thesis by (simp add: in_i64_def)
  qed
  have eq: "backoffDelay env (NewLoadWorker n r) a = min (100000000 * 2 ^ a) 30000000000"
    if "a \<le> 36" for a
    using assms small [OF that] by (auto simp: backoffDelay_def NewLoadWorker_def Let_def)
  show ?thesis
  proof (intro conjI allI impI)
    show "backoffDelay env (NewLoadWorker n r) a \<le> backoffDelay env (NewLoadWorker n r) (Suc a)"
      if "a < 36" for a using that by (simp add: eq min_def)
  qed (auto simp: eq big, simp add: backoffDelay_def NewLoadWorker_def)
qed

definition amd64_convert :: "int \<Rightarrow> int" where
  "amd64_convert x = (if in_i64 x then x else - (2 ^ 63))"

theorem backoff_delay_capped_witness:
  "backoffDelay (calm amd64_convert) (NewLoadWorker 100 3) 4 = 1600000000
   \<and> backoffDelay (calm amd64_convert) (NewLoadWorker 100 3) 36 = 30000000000
   \<and> backoffDelay (calm amd64_convert) (NewLoadWorker 100 50) 37 < 0"
proof -
  have ex: "\<forall>x. in_i64 x \<longrightarrow> float_to_int64 (calm amd64_convert) x = x"
    by (simp add: calm_def amd64_convert_def)
  have out: "float_to_int64 (calm amd64_convert) (100000000 * 2 ^ 37) = - (2 ^ 63)"
    by (simp add: calm_def amd64_convert_def in_i64_def)
  from backoff_delay_capped [OF ex, of 100 3]
  have "backoffDelay (calm amd64_convert) (NewLoadWorker 100 3) 4 = min (100000000 * 2 ^ 4) 30000000000"
    and "backoffDelay (calm amd64_convert) (NewLoadWorker 100 3) 36 = min (100000000 * 2 ^ 36) 30000000000"
    by auto
  moreover from backoff_delay_capped [OF ex, of 100 50] out
  have "backoffDelay (calm amd64_convert) (NewLoadWorker 100 50) 37 < 0" by blast
  ultimately show ?thesis by simp
qed



text \<open>
  An error of the timer's flush can be lost. When the destination is not registered, every
  flush fails; if the records do not fill a batch and the timer fires between the last \<open>Add\<close> and
  \<open>Close\<close>, then \<open>FlushBatcher\<close> returns a nil error and an empty result, and no record is in the
  dead letter queue: \<open>Close\<close> does not report the error that \<open>timerFlush\<close> left behind.
\<close>

theorem flush_batcher_timer_error_lost:
  assumes "reg_destinations reg name = None"
    and "records \<noteq> []" "int (length records) < batchSize"
  shows "FlushBatcher reg env (\<lambda>i. i = length records) name config catalog records batchSize lw w
     = ((empty_write_result, None), lw, w)"
proof -
  let ?f = "flush_to_worker reg env name config catalog"
  let ?b = "\<lambda>buf. NewBatcher batchSize 1000000000\<lparr>b_buffer := buf\<rparr>"
  let ?x = "(empty_write_result, lw, w)"
  have flush: "\<exists>err. ?f batch ?x = (Some err, ?x)" for batch
    using assms(1) by (simp add: flush_to_worker_def ProcessBatch_def GetDestination_def)
  have feed: "feed_batcher ?f (\<lambda>i. i = length records) (length done) todo [] (?b done, ?x)
      = ([], maybe_timer ?f True (?b (done @ todo), ?x))"
    if "done @ todo = records" for "done" todo
    using that
  proof (induction todo arbitrary: "done")
    case (Cons r todo)
    have "int (length done) + 1 < batchSize" using Cons.prems assms(3) by auto
    then have "batcher_Add ?f r (?b done, ?x) = (None, ?b (done @ [r]), ?x)"
      by (simp add: batcher_Add_def Add_locked_def NewBatcher_def Let_def)
    moreover have "length done \<noteq> length records" using Cons.prems by auto
    ultimately show ?case using Cons.IH [of "done @ [r]"] Cons.prems by (simp add: maybe_timer_def)
  qed simp
  obtain err where "?f records ?x = (Some err, ?x)" using flush by blast
  then have "maybe_timer ?f True (?b records, ?x) = (?b []\<lparr>b_lastErr := Some err\<rparr>, ?x)"
    using assms(2) by (simp add: maybe_timer_def NewBatcher_def timerFlush_def timerFlush_locked_def
        drainLocked_def resetTimerLocked_def Let_def flush_drained_Some)
  with feed [of "[]" records] show ?thesis
    by (simp add: FlushBatcher_def batcher_Close_def Close_locked_def NewBatcher_def Let_def
        flush_drained_None)
qed

theorem flush_batcher_timer_error_lost_witness:
  "FlushBatcher picky_registry (calm id) (\<lambda>i. i = length four_records) ''missing'' [] [] four_records 10
     (NewLoadWorker 3 1) 0 = ((empty_write_result, None), NewLoadWorker 3 1, 0)"
  by (rule flush_batcher_timer_error_lost)
    (simp_all add: picky_registry_def RegisterDestination_def empty_registry_def four_records_def)

end
