(* ===== verification/LoadFlow.thy ===== *)
theory LoadFlow
  imports LoadWorker
begin

text \<open>
  The load phase: \<open>internal/orchestration/activities/load_activities.go\<close> and
  \<open>internal/orchestration/workflows/load.go\<close>. As in the extract phase the outcome of an activity
  that Temporal runs is an argument of the workflow, and the effects of the concurrent writes
  follow one another in the order of the batches.
\<close>

record 'w dest_connector =
  dst_Write :: "'w destination"
  dst_Check :: "raw_message \<Rightarrow> 'w \<Rightarrow> check_result result \<times> 'w"

record write_input =
  wi_connector :: string
  wi_config :: raw_message
  wi_records :: "rec list"
  wi_streams :: "configured_stream list"
  wi_batch_index :: int

record write_output =
  wo_records_written :: int
  wo_errors :: "string list"
  wo_batch_index :: int

definition WriteBatchActivity :: "('s, 'w dest_connector) registry \<Rightarrow> write_input \<Rightarrow> 'w \<Rightarrow> write_output result \<times> 'w" where
  "WriteBatchActivity reg input w = (case GetDestination reg (wi_connector input) of
     Inl err \<Rightarrow> (Inl (NewConnectorError (wi_connector input) ''write_batch'' err), w)
   | Inr dest \<Rightarrow>
      (case dst_Write dest (wi_config input) (wi_streams input) (map record_message (wi_records input)) w of
         (Inl err, w) \<Rightarrow> (Inl (NewConnectorError (wi_connector input) ''write'' err), w)
       | (Inr res, w) \<Rightarrow> (Inr \<lparr>wo_records_written = wr_records_written res,
             wo_errors = map we_message (wr_errors res), wo_batch_index = wi_batch_index input\<rparr>, w)))"

record confirm_input =
  ci_connector :: string
  ci_config :: raw_message
  ci_expected :: int
  ci_actual :: int
  ci_batch_errors :: "string list"

record confirm_output =
  co_confirmed :: bool
  co_discrepancy :: string
  co_errors :: "string list"

definition discrepancy_text :: "int \<Rightarrow> int \<Rightarrow> string" where
  "discrepancy_text expected actual = ''record count mismatch: expected '' @ show_int expected @ '', got ''
     @ show_int actual @ '' (delta: '' @ show_int (wrap64 (expected - actual)) @ '')''"

definition ConfirmWriteActivity ::
    "('s, 'w dest_connector) registry \<Rightarrow> confirm_input \<Rightarrow> 'w \<Rightarrow> confirm_output result \<times> 'w" where
  "ConfirmWriteActivity reg input w = (case GetDestination reg (ci_connector input) of
     Inl err \<Rightarrow> (Inl (NewConnectorError (ci_connector input) ''confirm_write'' err), w)
   | Inr dest \<Rightarrow> (case dst_Check dest (ci_config input) w of
       (Inl err, w) \<Rightarrow> (Inr \<lparr>co_confirmed = False, co_discrepancy = [],
           co_errors = [''destination health check failed: '' @ error_text err]\<rparr>, w)
     | (Inr check, w) \<Rightarrow>
         if ck_status check \<noteq> CheckStatusSucceeded
         then (Inr \<lparr>co_confirmed = False, co_discrepancy = [],
                 co_errors = [''destination unhealthy: '' @ ck_message check]\<rparr>, w)
         else let errors = ci_batch_errors input;
                  mismatch = (ci_actual input \<noteq> ci_expected input)
              in (Inr \<lparr>co_confirmed = (\<not> mismatch \<and> \<not> length errors > 0),
                    co_discrepancy = (if mismatch then discrepancy_text (ci_expected input) (ci_actual input) else []),
                    co_errors = errors\<rparr>, w)))"

section \<open>The workflow\<close>

record load_params =
  lp_connector :: string
  lp_config :: raw_message
  lp_records :: "rec list"
  lp_streams :: "configured_stream list"
  lp_batch_size :: int
  lp_tenant :: string
  lp_sync :: string

record load_result =
  lr_records_loaded :: int
  lr_batches_written :: int
  lr_errors :: "string list"

record 'w load_activities =
  xl_write :: "write_input \<Rightarrow> 'w \<Rightarrow> write_output result \<times> 'w"
  xl_confirm :: "confirm_input \<Rightarrow> 'w \<Rightarrow> confirm_output result \<times> 'w"

definition splitIntoBatches :: "'r list \<Rightarrow> int \<Rightarrow> 'r list list" where
  "splitIntoBatches records batchSize =
    (let batchSize = (if batchSize \<le> 0 then DefaultBatchSize else batchSize)
     in batch_slices (nat batchSize) 0 records)"

fun run_writes :: "'w load_activities \<Rightarrow> load_params \<Rightarrow> int \<Rightarrow> rec list list \<Rightarrow> 'w
    \<Rightarrow> write_output result list \<times> 'w" where
  "run_writes acts params i [] w = ([], w)"
| "run_writes acts params i (batch # rest) w =
    (case xl_write acts \<lparr>wi_connector = lp_connector params, wi_config = lp_config params, wi_records = batch,
        wi_streams = lp_streams params, wi_batch_index = i\<rparr> w of
       (r, w) \<Rightarrow> (case run_writes acts params (i + 1) rest w of (rs, w) \<Rightarrow> (r # rs, w)))"

fun collect_writes :: "write_output result list \<Rightarrow> int \<Rightarrow> string list \<Rightarrow> int \<Rightarrow> int \<times> string list \<times> int" where
  "collect_writes [] totalLoaded allErrors batchesWritten = (totalLoaded, allErrors, batchesWritten)"
| "collect_writes (f # fs) totalLoaded allErrors batchesWritten = (case f of
     Inl err \<Rightarrow> collect_writes fs totalLoaded (allErrors @ [error_text err]) batchesWritten
   | Inr out \<Rightarrow> collect_writes fs (wrap64 (totalLoaded + wo_records_written out)) (allErrors @ wo_errors out)
                  (batchesWritten + 1))"

definition LoadWorkflow :: "'w load_activities \<Rightarrow> load_params \<Rightarrow> 'w \<Rightarrow> load_result \<times> 'w" where
  "LoadWorkflow acts params w =
    (let batchSize = (if lp_batch_size params \<le> 0 then DefaultBatchSize else lp_batch_size params);
         batches = splitIntoBatches (lp_records params) batchSize
     in case run_writes acts params 0 batches w of
          (futures, w) \<Rightarrow> (case collect_writes futures 0 [] 0 of
             (totalLoaded, allErrors, batchesWritten) \<Rightarrow>
               (case xl_confirm acts \<lparr>ci_connector = lp_connector params, ci_config = lp_config params,
                    ci_expected = int (length (lp_records params)), ci_actual = totalLoaded,
                    ci_batch_errors = allErrors\<rparr> w of
                  (confirm, w) \<Rightarrow>
                    let allErrors = (case confirm of
                          Inl err \<Rightarrow> allErrors @ [error_text err]
                        | Inr out \<Rightarrow>
                            if \<not> co_confirmed out
                            then allErrors @ (if co_discrepancy out \<noteq> [] then [co_discrepancy out] else []) @ co_errors out
                            else allErrors)
                    in (\<lparr>lr_records_loaded = totalLoaded, lr_batches_written = batchesWritten,
                         lr_errors = allErrors\<rparr>, w))))"

section \<open>Lemmas\<close>

interpretation load_batches: chunked "\<lambda>n xs. splitIntoBatches xs n" "\<lambda>_. True"
    "\<lambda>n. nat (if n \<le> 0 then DefaultBatchSize else n)"
proof
  fix n :: int and xs b :: "'a list"
  have pos: "0 < nat (if n \<le> 0 then DefaultBatchSize else n)" by (simp add: DefaultBatchSize_def)
  show "concat (splitIntoBatches xs n) = xs"
    using concat_batch_slices [OF pos, of 0 xs] by (simp add: splitIntoBatches_def Let_def)
  assume "b \<in> set (splitIntoBatches xs n)"
  then show "0 < length b \<and> length b \<le> nat (if n \<le> 0 then DefaultBatchSize else n)"
    using batch_slices_size [OF pos, of b 0 xs] by (simp add: splitIntoBatches_def Let_def)
qed

definition write_succeeded :: "write_output result \<Rightarrow> bool" where
  "write_succeeded r \<longleftrightarrow> (case r of Inl _ \<Rightarrow> False | Inr _ \<Rightarrow> True)"

definition write_errors :: "write_output result \<Rightarrow> string list" where
  "write_errors r = (case r of Inl e \<Rightarrow> [error_text e] | Inr out \<Rightarrow> wo_errors out)"

definition written_count :: "write_output result \<Rightarrow> int" where
  "written_count r = (case r of Inl e \<Rightarrow> 0 | Inr out \<Rightarrow> wo_records_written out)"

lemma collect_writes_errors:
  "collect_writes fs t es k = (t', es', k') \<Longrightarrow>
     es' = es @ concat (map write_errors fs) \<and> k' = k + int (length (filter write_succeeded fs))"
  by (induction fs t es k arbitrary: t' es' k' rule: collect_writes.induct)
    (auto simp: write_errors_def write_succeeded_def split: sum.splits, force)

lemma written_count_simps [simp]:
  "written_count (Inl e) = 0" "written_count (Inr out) = wo_records_written out"
  by (simp_all add: written_count_def)

lemma collect_writes_total:
  "collect_writes fs t es k = (t', es', k') \<Longrightarrow> (\<And>f. f \<in> set fs \<Longrightarrow> 0 \<le> written_count f) \<Longrightarrow> 0 \<le> t \<Longrightarrow>
   t + sum_list (map written_count fs) < 2 ^ 63 \<Longrightarrow> t' = t + sum_list (map written_count fs)"
proof (induction fs arbitrary: t es k)
  case (Cons f fs)
  have nn: "0 \<le> sum_list (map written_count fs)" by (rule sum_list_nonneg) (use Cons.prems(2) in auto)
  have f: "0 \<le> written_count f" using Cons.prems(2) by simp
  then have "wrap64 (t + written_count f) = t + written_count f"
    using Cons.prems(3,4) nn by (intro wrap64_id) (simp add: in_i64_def)
  with Cons.prems(1) obtain es2 k2 where "collect_writes fs (t + written_count f) es2 k2 = (t', es', k')"
    by (cases f) auto
  from Cons.IH [OF this] Cons.prems(2-4) f show ?case by (simp add: add.assoc)
qed simp

lemma run_writes_length: "run_writes acts params i bs w = (fs, w') \<Longrightarrow> length fs = length bs"
  by (induction bs arbitrary: i w fs w') (auto split: prod.splits)

definition full_write :: "rec list \<Rightarrow> write_output result \<Rightarrow> bool" where
  "full_write b r \<longleftrightarrow> (case r of Inl _ \<Rightarrow> True | Inr out \<Rightarrow> wo_records_written out = int (length b))"

lemma run_writes_full:
  assumes "\<And>input w. full_write (wi_records input) (fst (xl_write acts input w))"
    and "run_writes acts params i bs w = (fs, w')"
  shows "list_all2 full_write bs fs"
  using assms(2)
proof (induction bs arbitrary: i w fs w')
  case (Cons b bs)
  from Cons.prems Cons.IH show ?case
    using assms(1) [of "\<lparr>wi_connector = lp_connector params, wi_config = lp_config params, wi_records = b,
        wi_streams = lp_streams params, wi_batch_index = i\<rparr>" w]
    by (auto split: prod.splits)
qed simp

lemma full_writes_sum:
  "list_all2 full_write bs fs \<Longrightarrow>
   sum_list (map written_count fs)
     + sum_list (map (\<lambda>(b, r). if write_succeeded r then 0 else int (length b)) (zip bs fs))
   = int (sum_list (map length bs))"
  by (induction rule: list_all2_induct)
    (auto simp: full_write_def written_count_def write_succeeded_def split: sum.splits)

lemma full_writes_nonneg: "list_all2 full_write bs fs \<Longrightarrow> f \<in> set fs \<Longrightarrow> 0 \<le> written_count f"
  by (induction rule: list_all2_induct) (auto simp: full_write_def written_count_def split: sum.splits)

lemma confirmed_iff:
  assumes "fst (ConfirmWriteActivity reg input w) = Inr out"
  shows "(if \<not> co_confirmed out
          then (if co_discrepancy out \<noteq> [] then [co_discrepancy out] else []) @ co_errors out else []) = []
      \<Longrightarrow> ci_actual input = ci_expected input \<and> ci_batch_errors input = []"
  using assms
  by (auto simp: ConfirmWriteActivity_def discrepancy_text_def Let_def split: sum.splits prod.splits if_splits)

lemma no_errors_all_loaded:
  assumes "\<And>input w out. fst (xl_confirm acts input w) = Inr out \<Longrightarrow>
      \<exists>w0. fst (ConfirmWriteActivity reg input w0) = Inr out"
    and "LoadWorkflow acts params w = (res, w')" "lr_errors res = []"
  shows "lr_records_loaded res = int (length (lp_records params))
     \<and> lr_batches_written res = int (length (splitIntoBatches (lp_records params) (lp_batch_size params)))"
proof -
  define b where "b = (if lp_batch_size params \<le> 0 then DefaultBatchSize else lp_batch_size params)"
  have same: "splitIntoBatches (lp_records params) b = splitIntoBatches (lp_records params) (lp_batch_size params)"
    by (simp add: b_def splitIntoBatches_def DefaultBatchSize_def)
  obtain fs w1 where r: "run_writes acts params 0 (splitIntoBatches (lp_records params) b) w = (fs, w1)"
    by (metis surj_pair)
  obtain t es k where c: "collect_writes fs 0 [] 0 = (t, es, k)" by (metis prod_cases3)
  let ?ci = "\<lparr>ci_connector = lp_connector params, ci_config = lp_config params,
      ci_expected = int (length (lp_records params)), ci_actual = t, ci_batch_errors = es\<rparr>"
  obtain confirm w2 where x: "xl_confirm acts ?ci w1 = (confirm, w2)" by (metis surj_pair)
  have res: "lr_records_loaded res = t" "lr_batches_written res = k"
    "lr_errors res = (case confirm of Inl err \<Rightarrow> es @ [error_text err]
       | Inr out \<Rightarrow> if \<not> co_confirmed out
           then es @ (if co_discrepancy out \<noteq> [] then [co_discrepancy out] else []) @ co_errors out else es)"
    using assms(2) r c x by (auto simp: LoadWorkflow_def b_def [symmetric] Let_def)
  from res(3) assms(3) obtain out where out: "confirm = Inr out" by (cases confirm) auto
  with assms(1) [of ?ci w1 out] x obtain w0 where "fst (ConfirmWriteActivity reg ?ci w0) = Inr out" by auto
  from confirmed_iff [OF this] res(3) out assms(3) have "t = int (length (lp_records params))" "es = []"
    by (auto split: if_splits)
  moreover have "filter write_succeeded fs = fs"
    using collect_writes_errors [OF c] \<open>es = []\<close>
    by (auto simp: filter_id_conv write_errors_def write_succeeded_def split: sum.splits)
  ultimately show ?thesis
    using res collect_writes_errors [OF c] run_writes_length [OF r] same by simp
qed

section \<open>Properties\<close>

text \<open>
  C15: a load without errors is complete. If Temporal's outcome of the confirmation is an error or
  an output \<open>ConfirmWriteActivity\<close> can give, then whenever \<open>LoadWorkflow\<close> reports no error, every
  batch has been written, and the number of records loaded is the number of records it was given.
\<close>

theorem load_without_errors_is_complete:
  assumes "\<And>input w out. fst (xl_confirm acts input w) = Inr out \<Longrightarrow>
      \<exists>w0. fst (ConfirmWriteActivity reg input w0) = Inr out"
    and "LoadWorkflow acts params w = (res, w')" "lr_errors res = []"
  shows "lr_records_loaded res = int (length (lp_records params))
     \<and> lr_batches_written res = int (length (splitIntoBatches (lp_records params) (lp_batch_size params)))"
  using no_errors_all_loaded [OF assms] .

text \<open>
  A destination that refuses batches whose first record is \<open>bad\<close> and writes the others, and the
  activities run on it without retries.
\<close>

definition bad_record :: rec where
  "bad_record = \<lparr>r_stream = ''t'', r_namespace = [], r_data = ''bad'', r_emitted_at = 0\<rparr>"

definition refusing_dest :: "unit dest_connector" where
  "refusing_dest = \<lparr>
     dst_Write = (\<lambda>config cat msgs w. (if take 1 msgs = [record_message bad_record] then Inl (NewError ''refused'')
        else Inr \<lparr>wr_records_written = int (length msgs), wr_errors = [], wr_state_messages = []\<rparr>, w)),
     dst_Check = (\<lambda>config w. (Inr \<lparr>ck_status = CheckStatusSucceeded, ck_message = []\<rparr>, w))\<rparr>"

definition refusing_registry :: "(unit, unit dest_connector) registry" where
  "refusing_registry = RegisterDestination ''d''
     \<lparr>cm_name = ''d'', cm_display_name = [], cm_version = [], cm_type = [], cm_category = [], cm_icon = []\<rparr>
     refusing_dest empty_registry"

definition refusing_activities :: "unit load_activities" where
  "refusing_activities = \<lparr>xl_write = WriteBatchActivity refusing_registry,
     xl_confirm = ConfirmWriteActivity refusing_registry\<rparr>"

definition load_of :: "rec list \<Rightarrow> load_params" where
  "load_of records = \<lparr>lp_connector = ''d'', lp_config = [], lp_records = records, lp_streams = [],
     lp_batch_size = 2, lp_tenant = ''t1'', lp_sync = ''s1''\<rparr>"

lemmas refusing_defs = refusing_activities_def refusing_registry_def refusing_dest_def RegisterDestination_def
  GetDestination_def WriteBatchActivity_def ConfirmWriteActivity_def load_of_def bad_record_def

lemmas load_eval = LoadWorkflow_def splitIntoBatches_def batch_slices.simps slice_def numeral_2_eq_2 Let_def

theorem load_without_errors_is_complete_witness:
  "lr_errors (fst (LoadWorkflow refusing_activities (load_of four_records) ())) = []
   \<and> lr_records_loaded (fst (LoadWorkflow refusing_activities (load_of four_records) ())) = 4"
proof -
  have h: "\<exists>w0. fst (ConfirmWriteActivity refusing_registry input w0) = Inr out"
    if "fst (xl_confirm refusing_activities input w) = Inr out" for input w out
    using that by (auto simp: refusing_activities_def)
  obtain res w' where l: "LoadWorkflow refusing_activities (load_of four_records) () = (res, w')" by (metis surj_pair)
  have e: "lr_errors res = []"
    using l by (auto simp: load_eval refusing_defs four_records_def record_message_def wrap64_def)
  from load_without_errors_is_complete [OF h l e] l e show ?thesis
    by (simp add: load_of_def four_records_def)
qed

text \<open>
  C33: a failing batch does not prevent the others. If every write that succeeds writes its whole
  batch, then the records loaded are all records but those of the batches whose write failed, and
  the batches written and the failed ones are all batches of \<open>splitIntoBatches\<close>, which cut the
  records in order into pieces of at most the batch size.
\<close>

theorem load_partial_failure:
  assumes "\<And>input w. full_write (wi_records input) (fst (xl_write acts input w))"
    and "int (length (lp_records params)) < 2 ^ 63"
    and "batches = splitIntoBatches (lp_records params) (lp_batch_size params)"
    and "run_writes acts params 0 batches w = (fs, w1)" "LoadWorkflow acts params w = (res, w')"
  shows "concat batches = lp_records params
     \<and> (\<forall>b \<in> set batches. 0 < length b \<and> length b \<le> nat (if lp_batch_size params \<le> 0
          then DefaultBatchSize else lp_batch_size params))
     \<and> lr_records_loaded res
        + sum_list (map (\<lambda>(b, r). if write_succeeded r then 0 else int (length b)) (zip batches fs))
        = int (length (lp_records params))
     \<and> lr_batches_written res + int (length (filter (\<lambda>r. \<not> write_succeeded r) fs)) = int (length batches)"
proof (intro conjI ballI)
  show "concat batches = lp_records params" unfolding assms(3) by (rule load_batches.concat_chunks) simp
  show "0 < length b" "length b \<le> nat (if lp_batch_size params \<le> 0 then DefaultBatchSize else lp_batch_size params)"
    if "b \<in> set batches" for b
    using load_batches.chunk_size [where n = "lp_batch_size params" and b = b] that assms(3) by blast+
  have sum: "sum_list (map length batches) = length (lp_records params)"
    unfolding assms(3) by (rule load_batches.chunk_lengths_sum) simp
  have same: "splitIntoBatches (lp_records params)
      (if lp_batch_size params \<le> 0 then DefaultBatchSize else lp_batch_size params) = batches"
    by (simp add: assms(3) splitIntoBatches_def DefaultBatchSize_def)
  note full = run_writes_full [OF assms(1,4)]
  obtain t es k where c: "collect_writes fs 0 [] 0 = (t, es, k)" by (metis prod_cases3)
  have res: "lr_records_loaded res = t" "lr_batches_written res = k"
    using assms(4,5) c same by (auto simp: LoadWorkflow_def Let_def split: prod.splits)
  have "0 \<le> sum_list (map (\<lambda>(b, r). if write_succeeded r then 0 else int (length b)) (zip batches fs))"
    by (rule sum_list_nonneg) auto
  with full_writes_sum [OF full] sum assms(2) have "0 + sum_list (map written_count fs) < 2 ^ 63" by simp
  with collect_writes_total [OF c full_writes_nonneg [OF full]] have "t = sum_list (map written_count fs)" by simp
  with res full_writes_sum [OF full] sum show "lr_records_loaded res
        + sum_list (map (\<lambda>(b, r). if write_succeeded r then 0 else int (length b)) (zip batches fs))
        = int (length (lp_records params))" by simp
  show "lr_batches_written res + int (length (filter (\<lambda>r. \<not> write_succeeded r) fs)) = int (length batches)"
    using res collect_writes_errors [OF c] run_writes_length [OF assms(4)]
      sum_length_filter_compl [of write_succeeded fs] by simp
qed

lemma refusing_writes_fully: "full_write (wi_records input) (fst (xl_write refusing_activities input w))"
  by (auto simp: full_write_def refusing_defs empty_registry_def split: sum.splits prod.splits if_splits)

theorem load_partial_failure_witness:
  "lr_records_loaded (fst (LoadWorkflow refusing_activities (load_of (bad_record # four_records)) ())) = 3
   \<and> lr_batches_written (fst (LoadWorkflow refusing_activities (load_of (bad_record # four_records)) ())) = 2"
proof -
  let ?p = "load_of (bad_record # four_records)"
  let ?bs = "splitIntoBatches (lp_records ?p) (lp_batch_size ?p)"
  obtain res w' where l: "LoadWorkflow refusing_activities ?p () = (res, w')" by (metis surj_pair)
  obtain fs w1 where r: "run_writes refusing_activities ?p 0 ?bs () = (fs, w1)" by (metis surj_pair)
  have bs: "map length ?bs = [2, 2, 1]"
    by (simp add: load_eval load_of_def four_records_def)
  have fs: "map write_succeeded fs = [False, True, True]"
    using r by (auto simp: load_eval refusing_defs four_records_def record_message_def write_succeeded_def)
  have len: "int (length (lp_records ?p)) < 2 ^ 63" by (simp add: load_of_def four_records_def)
  obtain b1 b2 b3 f1 f2 f3 where z: "?bs = [b1, b2, b3]" "fs = [f1, f2, f3]"
    using bs fs by (auto simp: map_eq_Cons_conv)
  from load_partial_failure [OF refusing_writes_fully len refl r l] l bs fs show ?thesis
    unfolding z by (simp add: load_of_def four_records_def)
qed

text \<open>
  The errors of the batches are reported twice. When the destination is registered and healthy
  and the confirmation runs, any batch error makes it unconfirmed, and its output, which already
  holds the batch errors, is appended to them: the result lists each batch error two times.
\<close>

theorem load_errors_reported_twice:
  assumes "xl_confirm acts = ConfirmWriteActivity reg"
    and "reg_destinations reg (lp_connector params) = Some dest"
    and "\<And>config w. ck_status c = CheckStatusSucceeded \<and> fst (dst_Check dest config w) = Inr c"
    and "run_writes acts params 0 (splitIntoBatches (lp_records params) (lp_batch_size params)) w = (fs, w1)"
    and "es = concat (map write_errors fs)" "es \<noteq> []"
  shows "\<exists>discrepancy. lr_errors (fst (LoadWorkflow acts params w)) = es @ discrepancy @ es
     \<and> length discrepancy \<le> 1"
proof -
  have same: "splitIntoBatches (lp_records params)
      (if lp_batch_size params \<le> 0 then DefaultBatchSize else lp_batch_size params)
      = splitIntoBatches (lp_records params) (lp_batch_size params)"
    by (simp add: splitIntoBatches_def DefaultBatchSize_def)
  obtain t es' k where c: "collect_writes fs 0 [] 0 = (t, es', k)" by (metis prod_cases3)
  with collect_writes_errors assms(5) have es': "es' = es" by fastforce
  obtain w2 where check: "dst_Check dest (lp_config params) w1 = (Inr c, w2)"
    using assms(3) by (metis prod.collapse)
  have ok: "ck_status c = CheckStatusSucceeded" using assms(3) by blast
  show ?thesis
    unfolding LoadWorkflow_def Let_def same assms(4) prod.case c es' assms(1)
    using assms(2,6) check ok
    by (auto simp: ConfirmWriteActivity_def GetDestination_def Let_def)
qed

theorem load_errors_reported_twice_witness:
  "\<exists>d. lr_errors (fst (LoadWorkflow refusing_activities (load_of [bad_record]) ()))
     = [''connector d: write: refused''] @ d @ [''connector d: write: refused'']"
proof -
  let ?p = "load_of [bad_record]"
  obtain fs w1 where r: "run_writes refusing_activities ?p 0
      (splitIntoBatches (lp_records ?p) (lp_batch_size ?p)) () = (fs, w1)" by (metis surj_pair)
  have es: "[''connector d: write: refused''] = concat (map write_errors fs)"
    using r by (auto simp: load_eval refusing_defs write_errors_def NewConnectorError_def)
  have x: "xl_confirm refusing_activities = ConfirmWriteActivity refusing_registry"
    by (simp add: refusing_activities_def)
  have d: "reg_destinations refusing_registry (lp_connector ?p) = Some refusing_dest"
    by (simp add: refusing_registry_def RegisterDestination_def load_of_def)
  have c: "ck_status \<lparr>ck_status = CheckStatusSucceeded, ck_message = []\<rparr> = CheckStatusSucceeded
      \<and> fst (dst_Check refusing_dest config w) = Inr \<lparr>ck_status = CheckStatusSucceeded, ck_message = []\<rparr>"
    for config w by (simp add: refusing_dest_def)
  from load_errors_reported_twice [OF x d c r es] show ?thesis by auto
qed

end
