(* ===== verification/Orchestrator.thy ===== *)
theory Orchestrator
  imports Extract Transform LoadFlow
begin

text \<open>
  The parent workflow of a sync, \<open>internal/orchestration/workflows/sync_orchestrator.go\<close>, with the
  signals of \<open>internal/orchestration/signals/signals.go\<close>, the records of \<open>workflows/types.go\<close> and the
  inputs of the activities in \<open>activities/system_activities.go\<close>. The outcomes of the child
  workflows, the clock (the \<open>i\<close>-th call of \<open>workflow.Now\<close>) and the arrival of signals are arguments; what
  the workflow sends to the recording and alerting activities is collected in a list.
\<close>

section \<open>Signals\<close>

record modify_signal =
  ms_changes :: "string \<rightharpoonup> raw_message"
  ms_request_id :: string

datatype signal =
    PauseSignal string string          \<comment> \<open>reason, request\<close>
  | ResumeSignal string
  | CancelSignal string string bool    \<comment> \<open>reason, request, save state\<close>
  | ModifySignal modify_signal

record signal_state =
  PauseRequested :: bool
  CancelRequested :: bool
  PauseReason :: string
  CancelReason :: string
  SaveStateOnCancel :: bool
  PendingModify :: "modify_signal option"

definition NewSignalState :: signal_state where
  "NewSignalState = \<lparr>PauseRequested = False, CancelRequested = False, PauseReason = [], CancelReason = [],
     SaveStateOnCancel = False, PendingModify = None\<rparr>"

definition ApplyPause :: "string \<Rightarrow> signal_state \<Rightarrow> signal_state" where
  "ApplyPause reason s = s\<lparr>PauseRequested := True, PauseReason := reason\<rparr>"

definition ApplyResume :: "signal_state \<Rightarrow> signal_state" where
  "ApplyResume s = s\<lparr>PauseRequested := False, PauseReason := []\<rparr>"

definition ApplyCancel :: "string \<Rightarrow> bool \<Rightarrow> signal_state \<Rightarrow> signal_state" where
  "ApplyCancel reason saveState s = s\<lparr>CancelRequested := True, CancelReason := reason, SaveStateOnCancel := saveState\<rparr>"

definition ApplyModify :: "modify_signal \<Rightarrow> signal_state \<Rightarrow> signal_state" where
  "ApplyModify sig s = s\<lparr>PendingModify := Some sig\<rparr>"

definition ConsumeModify :: "signal_state \<Rightarrow> modify_signal option \<times> signal_state" where
  "ConsumeModify s = (PendingModify s, s\<lparr>PendingModify := None\<rparr>)"

definition IsPaused :: "signal_state \<Rightarrow> bool" where
  "IsPaused s = PauseRequested s"

definition IsCancelled :: "signal_state \<Rightarrow> bool" where
  "IsCancelled s = CancelRequested s"

text \<open>What the goroutines of \<open>registerSignalHandlers\<close> do with a signal they receive.\<close>

definition handle_signal :: "signal \<Rightarrow> signal_state \<Rightarrow> signal_state" where
  "handle_signal sig s = (case sig of
     PauseSignal reason _ \<Rightarrow> ApplyPause reason s
   | ResumeSignal _ \<Rightarrow> ApplyResume s
   | CancelSignal reason _ saveState \<Rightarrow> ApplyCancel reason saveState s
   | ModifySignal m \<Rightarrow> ApplyModify m s)"

section \<open>Parameters, status and results\<close>

datatype sync_phase = PhaseInitializing | PhaseExtracting | PhaseTransforming | PhaseLoading
  | PhaseCompleted | PhaseFailed | PhaseCancelled | PhasePaused

record sync_params =
  sp_source :: string
  sp_dest :: string
  sp_source_config :: raw_message
  sp_dest_config :: raw_message
  sp_streams :: "configured_stream list"
  sp_field_mappings :: "(string \<times> field_mapping list) list"
  sp_sync_mode :: sync_mode
  sp_last_checkpoint :: state_map
  sp_tenant :: string
  sp_sync :: string

record sync_result =
  RecordsExtracted :: int
  RecordsTransformed :: int
  RecordsLoaded :: int
  NewCheckpoint :: state_map
  Duration :: duration
  sync_errors :: "string list"

text \<open>The progress is a \<open>float64\<close> that is only ever 0 or 1.\<close>

record sync_status =
  ss_phase :: sync_phase
  ss_progress :: int
  ss_records_processed :: int
  ss_errors :: "string list"
  ss_started_at :: time

record sync_run_record =
  rr_tenant :: string
  rr_sync :: string
  rr_workflow :: string
  rr_status :: string
  rr_result :: sync_result
  rr_started_at :: time
  rr_completed_at :: time

record alert_input =
  al_tenant :: string
  al_sync :: string
  al_workflow :: string
  al_type :: string
  al_message :: string
  al_severity :: string

datatype effect = RecordSyncRun sync_run_record | Alert alert_input

definition empty_sync_result :: sync_result where
  "empty_sync_result = \<lparr>RecordsExtracted = 0, RecordsTransformed = 0, RecordsLoaded = 0,
     NewCheckpoint = Map.empty, Duration = 0, sync_errors = []\<rparr>"

definition buildFailedResult :: "time \<Rightarrow> time \<Rightarrow> string list \<Rightarrow> sync_result" where
  "buildFailedResult startTime endTime errs =
     empty_sync_result\<lparr>Duration := time_sub endTime startTime, sync_errors := errs\<rparr>"

definition buildPartialResult :: "extract_result \<Rightarrow> time \<Rightarrow> time \<Rightarrow> string list \<Rightarrow> sync_result" where
  "buildPartialResult er startTime endTime errs =
     empty_sync_result\<lparr>RecordsExtracted := er_records_count er, NewCheckpoint := er_new_state er,
       Duration := time_sub endTime startTime, sync_errors := errs\<rparr>"

definition collectAllErrors :: "string list list \<Rightarrow> string list" where
  "collectAllErrors errorSlices = concat errorSlices"

definition alertSeverityForType :: "string \<Rightarrow> string" where
  "alertSeverityForType alertType =
    (if alertType = ''extract_failed'' \<or> alertType = ''load_failed'' then ''critical''
     else if alertType = ''transform_failed'' then ''critical''
     else if alertType = ''sync_degraded'' \<or> alertType = ''partial_failure'' then ''warning''
     else ''info'')"

definition alertOnFailure :: "string \<Rightarrow> sync_params \<Rightarrow> string \<Rightarrow> string \<Rightarrow> effect" where
  "alertOnFailure workflowID params alertType msg = Alert \<lparr>al_tenant = sp_tenant params, al_sync = sp_sync params,
     al_workflow = workflowID,
     al_type = alertType, al_message = msg, al_severity = alertSeverityForType alertType\<rparr>"

definition recordSyncRun :: "string \<Rightarrow> sync_params \<Rightarrow> sync_status \<Rightarrow> time \<Rightarrow> time \<Rightarrow> sync_result \<Rightarrow> effect" where
  "recordSyncRun workflowID params status startTime endTime res =
    RecordSyncRun \<lparr>rr_tenant = sp_tenant params, rr_sync = sp_sync params, rr_workflow = workflowID,
      rr_status = (case ss_phase status of PhaseFailed \<Rightarrow> ''failed'' | PhaseCancelled \<Rightarrow> ''cancelled'' | _ \<Rightarrow> ''completed''),
      rr_result = res\<lparr>Duration := time_sub endTime startTime\<rparr>,
      rr_started_at = startTime, rr_completed_at = endTime\<rparr>"

section \<open>Checking signals\<close>

text \<open>
  Signals that arrive while \<open>checkSignals\<close> blocks. A resume signal is received either by the handler
  goroutine or by the blocked \<open>checkSignals\<close>, which both wait on its channel; all others go to
  their handlers.
\<close>

datatype delivery = ToHandler signal | ResumeToCheck

fun await_resume :: "delivery list \<Rightarrow> signal_state \<Rightarrow> signal_state option" where
  "await_resume [] s = None"
| "await_resume (ToHandler sig # ds) s = await_resume ds (handle_signal sig s)"
| "await_resume (ResumeToCheck # ds) s = Some s"

text \<open>\<open>None\<close> when the workflow is still blocked after all deliveries.\<close>

definition checkSignals :: "delivery list \<Rightarrow> signal_state \<Rightarrow> sync_status
    \<Rightarrow> (go_error option \<times> signal_state \<times> sync_status) option" where
  "checkSignals ds s status =
    (if IsCancelled s
     then Some (Some (NewError (''sync cancelled: '' @ CancelReason s)), s, status\<lparr>ss_phase := PhaseCancelled\<rparr>)
     else if IsPaused s
     then (let previousPhase = ss_phase status;
               status = status\<lparr>ss_phase := PhasePaused\<rparr>
           in case await_resume ds s of
                None \<Rightarrow> None
              | Some s \<Rightarrow>
                 (let s = ApplyResume s
                  in if IsCancelled s
                     then Some (Some (NewError (''sync cancelled while paused: '' @ CancelReason s)), s,
                            status\<lparr>ss_phase := PhaseCancelled\<rparr>)
                     else Some (None, s, status\<lparr>ss_phase := previousPhase\<rparr>)))
     else Some (None, s, status))"

section \<open>The workflow\<close>

text \<open>
  The surroundings: the outcomes of the child workflows, the clock, and for each of the three checks
  the signals the handlers have received since the one before, and what is delivered while it blocks;
  the identifier of the workflow execution.
\<close>

record orch_env =
  oe_extract :: "extract_params \<Rightarrow> extract_result result"
  oe_transform :: "transform_params \<Rightarrow> transform_result result"
  oe_load :: "load_params \<Rightarrow> load_result result"
  oe_clock :: "nat \<Rightarrow> time"
  oe_signals :: "nat \<Rightarrow> signal list"
  oe_deliveries :: "nat \<Rightarrow> delivery list"
  oe_workflow :: string

definition executeExtractPhase :: "orch_env \<Rightarrow> sync_params \<Rightarrow> extract_result result" where
  "executeExtractPhase env params = oe_extract env \<lparr>ep_connector = sp_source params,
     ep_config = sp_source_config params, ep_streams = sp_streams params, ep_state = sp_last_checkpoint params,
     ep_batch_size = DefaultBatchSize, ep_tenant = sp_tenant params, ep_sync = sp_sync params\<rparr>"

definition executeTransformPhase :: "orch_env \<Rightarrow> sync_params \<Rightarrow> extract_result \<Rightarrow> transform_result result" where
  "executeTransformPhase env params er = oe_transform env \<lparr>tp_records = er_records er,
     tp_field_mappings = sp_field_mappings params, tp_streams = sp_streams params,
     tp_tenant = sp_tenant params, tp_sync = sp_sync params\<rparr>"

definition executeLoadPhase :: "orch_env \<Rightarrow> sync_params \<Rightarrow> transform_result \<Rightarrow> load_result result" where
  "executeLoadPhase env params tr = oe_load env \<lparr>lp_connector = sp_dest params, lp_config = sp_dest_config params,
     lp_records = tr_records tr, lp_streams = sp_streams params, lp_batch_size = DefaultBatchSize,
     lp_tenant = sp_tenant params, lp_sync = sp_sync params\<rparr>"

definition check :: "orch_env \<Rightarrow> nat \<Rightarrow> signal_state \<Rightarrow> sync_status
    \<Rightarrow> (go_error option \<times> signal_state \<times> sync_status) option" where
  "check env i s status = checkSignals (oe_deliveries env i) (fold handle_signal (oe_signals env i) s) status"

type_synonym outcome = "(sync_result \<times> go_error option) \<times> effect list \<times> sync_status"

text \<open>A failing phase: the run is recorded with the counts so far, an alert is sent.\<close>

definition fail_phase :: "orch_env \<Rightarrow> sync_params \<Rightarrow> sync_status \<Rightarrow> sync_result \<Rightarrow> string \<Rightarrow> go_error \<Rightarrow> outcome" where
  "fail_phase env params status counts alertType err =
    (let startTime = oe_clock env 0;
         status = status\<lparr>ss_phase := PhaseFailed, ss_errors := ss_errors status @ [error_text err]\<rparr>
     in ((buildFailedResult startTime (oe_clock env 2) (ss_errors status), Some err),
         [recordSyncRun (oe_workflow env) params status startTime (oe_clock env 1) (counts\<lparr>sync_errors := ss_errors status\<rparr>),
          alertOnFailure (oe_workflow env) params alertType (error_text err)], status))"

text \<open>The phases, from the last to the first.\<close>

definition load_phase :: "orch_env \<Rightarrow> sync_params \<Rightarrow> sync_status \<Rightarrow> extract_result \<Rightarrow> transform_result \<Rightarrow> outcome" where
  "load_phase env params status er tr =
    (let startTime = oe_clock env 0;
         status = status\<lparr>ss_phase := PhaseLoading\<rparr>
     in case executeLoadPhase env params tr of
          Inl err \<Rightarrow> fail_phase env params status
            (empty_sync_result\<lparr>RecordsExtracted := er_records_count er, RecordsTransformed := tr_records_count tr\<rparr>)
            ''load_failed'' err
        | Inr lr \<Rightarrow>
            (let status = status\<lparr>ss_phase := PhaseCompleted, ss_progress := 1\<rparr>;
                 endTime = oe_clock env 1;
                 res = \<lparr>RecordsExtracted = er_records_count er, RecordsTransformed = tr_records_count tr,
                        RecordsLoaded = lr_records_loaded lr, NewCheckpoint = er_new_state er,
                        Duration = time_sub endTime startTime,
                        sync_errors = collectAllErrors [tr_errors tr, lr_errors lr]\<rparr>
             in ((res, None),
                 recordSyncRun (oe_workflow env) params status startTime endTime res #
                 (if length (sync_errors res) > 0
                  then [alertOnFailure (oe_workflow env) params ''sync_degraded''
                          (show_nat (length (sync_errors res)) @ '' non-fatal errors occurred'')]
                  else []), status)))"

definition transform_phase :: "orch_env \<Rightarrow> sync_params \<Rightarrow> signal_state \<Rightarrow> sync_status \<Rightarrow> extract_result
    \<Rightarrow> outcome option" where
  "transform_phase env params s status er =
    (let startTime = oe_clock env 0;
         status = status\<lparr>ss_phase := PhaseTransforming\<rparr>
     in case executeTransformPhase env params er of
          Inl err \<Rightarrow> Some (fail_phase env params status
            (empty_sync_result\<lparr>RecordsExtracted := er_records_count er\<rparr>) ''transform_failed'' err)
        | Inr tr \<Rightarrow>
            (let status = status\<lparr>ss_records_processed := tr_records_count tr\<rparr>
             in case check env 2 s status of
                  None \<Rightarrow> None
                | Some (Some err, _, status) \<Rightarrow>
                    Some ((buildPartialResult er startTime (oe_clock env 1) (ss_errors status), Some err), [], status)
                | Some (None, _, status) \<Rightarrow> Some (load_phase env params status er tr)))"

definition SyncOrchestrator :: "orch_env \<Rightarrow> sync_params \<Rightarrow> outcome option" where
  "SyncOrchestrator env params =
    (let startTime = oe_clock env 0;
         status = \<lparr>ss_phase = PhaseInitializing, ss_progress = 0, ss_records_processed = 0, ss_errors = [],
                   ss_started_at = startTime\<rparr>
     in case check env 0 NewSignalState status of
          None \<Rightarrow> None
        | Some (Some err, _, status) \<Rightarrow>
            Some ((buildFailedResult startTime (oe_clock env 1) (ss_errors status), Some err), [], status)
        | Some (None, s, status) \<Rightarrow>
            (let status = status\<lparr>ss_phase := PhaseExtracting\<rparr>
             in case executeExtractPhase env params of
                  Inl err \<Rightarrow> Some (fail_phase env params status empty_sync_result ''extract_failed'' err)
                | Inr er \<Rightarrow>
                    (let status = status\<lparr>ss_records_processed := er_records_count er\<rparr>
                     in case check env 1 s status of
                          None \<Rightarrow> None
                        | Some (Some err, _, status) \<Rightarrow>
                            Some ((buildPartialResult er startTime (oe_clock env 1) (ss_errors status), Some err), [], status)
                        | Some (None, s, status) \<Rightarrow> transform_phase env params s status er)))"

section \<open>Lemmas\<close>

lemmas signal_defs = handle_signal_def ApplyPause_def ApplyResume_def ApplyCancel_def ApplyModify_def
  IsPaused_def IsCancelled_def

lemma handle_keeps_cancel: "CancelRequested s \<Longrightarrow> CancelRequested (handle_signal sig s)"
  by (cases sig) (simp_all add: signal_defs)

lemma handled_cancel:
  "CancelRequested s \<or> CancelSignal r q b \<in> set sigs \<Longrightarrow> CancelRequested (fold handle_signal sigs s)"
  by (induction sigs arbitrary: s) (auto simp: handle_keeps_cancel, simp_all add: signal_defs)

lemma await_resume_keeps_cancel: "await_resume ds s = Some s' \<Longrightarrow> CancelRequested s \<Longrightarrow> CancelRequested s'"
  by (induction ds s rule: await_resume.induct) (auto simp: handle_keeps_cancel)

lemma await_resume_None: "ResumeToCheck \<notin> set ds \<Longrightarrow> await_resume ds s = None"
  by (induction ds s rule: await_resume.induct) auto

lemma check_passes: "check env i s status = Some (None, s', status') \<Longrightarrow> status' = status"
  by (cases status) (auto simp: check_def checkSignals_def Let_def split: if_splits option.splits)

lemma check_stops:
  "check env i s status = Some (Some err, s', status') \<Longrightarrow> status' = status\<lparr>ss_phase := PhaseCancelled\<rparr>"
  by (cases status) (auto simp: check_def checkSignals_def Let_def split: if_splits option.splits)

lemma check_cancel:
  "CancelSignal r q b \<in> set (oe_signals env i) \<Longrightarrow> \<exists>err s'. check env i s status
     = Some (Some err, s', status\<lparr>ss_phase := PhaseCancelled\<rparr>)"
  using handled_cancel [of s r q b "oe_signals env i"] by (simp add: check_def checkSignals_def IsCancelled_def)

lemma check_frame:
  "check (env\<lparr>oe_extract := e, oe_transform := t, oe_load := l\<rparr>) i s status = check env i s status"
  by (simp add: check_def)

text \<open>How a run can end.\<close>

definition completed :: "orch_env \<Rightarrow> sync_params \<Rightarrow> outcome \<Rightarrow> bool" where
  "completed env params = (\<lambda>((res, e), effects, status). e = None \<and> ss_phase status = PhaseCompleted \<and>
     (\<exists>er tr lr. executeExtractPhase env params = Inr er \<and> executeTransformPhase env params er = Inr tr
        \<and> executeLoadPhase env params tr = Inr lr
        \<and> RecordsExtracted res = er_records_count er \<and> RecordsTransformed res = tr_records_count tr
        \<and> RecordsLoaded res = lr_records_loaded lr \<and> NewCheckpoint res = er_new_state er
        \<and> sync_errors res = tr_errors tr @ lr_errors lr) \<and>
     (\<exists>rr. rr_status rr = ''completed'' \<and> rr_result rr = res \<and>
        (if sync_errors res = [] then effects = [RecordSyncRun rr]
         else \<exists>al. effects = [RecordSyncRun rr, Alert al] \<and> al_severity al = ''warning'')))"

definition failed :: "outcome \<Rightarrow> bool" where
  "failed = (\<lambda>((res, e), effects, status). ss_phase status = PhaseFailed \<and>
     (\<exists>err rr al. e = Some err \<and> sync_errors res = [error_text err] \<and> RecordsLoaded res = 0
        \<and> effects = [RecordSyncRun rr, Alert al] \<and> rr_status rr = ''failed'' \<and> al_severity al = ''critical''))"

definition cancelled :: "outcome \<Rightarrow> bool" where
  "cancelled = (\<lambda>((res, e), effects, status). ss_phase status = PhaseCancelled \<and> e \<noteq> None \<and> effects = []
     \<and> RecordsLoaded res = 0 \<and> sync_errors res = [])"

lemma fail_phase_failed:
  "ss_errors status = [] \<Longrightarrow> alertSeverityForType ty = ''critical'' \<Longrightarrow>
   failed (fail_phase env params status counts ty err)"
  by (simp add: failed_def fail_phase_def Let_def recordSyncRun_def alertOnFailure_def buildFailedResult_def
      empty_sync_result_def)

lemma load_phase_outcome:
  assumes "executeExtractPhase env params = Inr er" "executeTransformPhase env params er = Inr tr" "ss_errors status = []"
  shows "completed env params (load_phase env params status er tr) \<or> failed (load_phase env params status er tr)"
proof (cases "executeLoadPhase env params tr")
  case (Inl err)
  with assms(3) show ?thesis
    by (auto simp: load_phase_def Let_def alertSeverityForType_def intro: fail_phase_failed)
next
  case (Inr lr)
  with assms show ?thesis
    by (auto simp: load_phase_def Let_def completed_def recordSyncRun_def alertOnFailure_def
        alertSeverityForType_def collectAllErrors_def)
qed

text \<open>A check either blocks, stops the workflow or lets it go on with the status it had.\<close>

lemma check_cases:
  obtains (blocked) "check env i s status = None"
  | (stopped) err s' where "check env i s status = Some (Some err, s', status\<lparr>ss_phase := PhaseCancelled\<rparr>)"
  | (passed) s' where "check env i s status = Some (None, s', status)"
proof (cases "check env i s status")
  case (Some x)
  obtain e s' st' where x: "x = (e, s', st')" by (cases x)
  with Some passed stopped check_passes [of env i s status s' st'] check_stops [of env i s status _ s' st']
  show thesis by (cases e) auto
qed (rule blocked)

lemma cancelled_failed_result:
  "cancelled ((buildFailedResult t0 t1 [], Some err), [], st\<lparr>ss_phase := PhaseCancelled\<rparr>)"
  by (simp add: cancelled_def buildFailedResult_def empty_sync_result_def)

lemma cancelled_partial_result:
  "cancelled ((buildPartialResult er t0 t1 [], Some err), [], st\<lparr>ss_phase := PhaseCancelled\<rparr>)"
  by (simp add: cancelled_def buildPartialResult_def empty_sync_result_def)

lemma transform_phase_outcome:
  assumes "executeExtractPhase env params = Inr er" "ss_errors status = []"
    and "transform_phase env params s status er = Some out"
  shows "completed env params out \<or> failed out \<or> cancelled out"
proof (cases "executeTransformPhase env params er")
  case (Inl err)
  have "failed (fail_phase env params (status\<lparr>ss_phase := PhaseTransforming\<rparr>)
      (empty_sync_result\<lparr>RecordsExtracted := er_records_count er\<rparr>) ''transform_failed'' err)"
    by (rule fail_phase_failed) (simp_all add: assms(2) alertSeverityForType_def)
  with Inl assms(3) show ?thesis by (simp add: transform_phase_def Let_def)
next
  case (Inr tr)
  let ?st = "status\<lparr>ss_phase := PhaseTransforming, ss_records_processed := tr_records_count tr\<rparr>"
  have none: "ss_errors ?st = []" using assms(2) by simp
  show ?thesis
  proof (cases rule: check_cases [of env 2 s ?st])
    case blocked
    with Inr assms(3) show ?thesis by (simp add: transform_phase_def Let_def)
  next
    case (stopped err s')
    with Inr assms(2,3) have "out = ((buildPartialResult er (oe_clock env 0) (oe_clock env 1) [], Some err), [],
        ?st\<lparr>ss_phase := PhaseCancelled\<rparr>)"
      by (simp add: transform_phase_def Let_def)
    then show ?thesis using cancelled_partial_result by blast
  next
    case (passed s')
    with Inr assms(3) have "out = load_phase env params ?st er tr" by (simp add: transform_phase_def Let_def)
    then show ?thesis using load_phase_outcome [OF assms(1) Inr none] by blast
  qed
qed

lemma SyncOrchestrator_outcome:
  assumes "SyncOrchestrator env params = Some out"
  shows "completed env params out \<or> failed out \<or> cancelled out"
proof -
  let ?st0 = "\<lparr>ss_phase = PhaseInitializing, ss_progress = 0, ss_records_processed = 0, ss_errors = [],
     ss_started_at = oe_clock env 0\<rparr>"
  let ?st1 = "?st0\<lparr>ss_phase := PhaseExtracting\<rparr>"
  show ?thesis
  proof (cases rule: check_cases [of env 0 NewSignalState ?st0])
    case blocked
    with assms show ?thesis by (simp add: SyncOrchestrator_def Let_def)
  next
    case (stopped err s')
    with assms have "out = ((buildFailedResult (oe_clock env 0) (oe_clock env 1) [], Some err), [],
        ?st0\<lparr>ss_phase := PhaseCancelled\<rparr>)"
      by (simp add: SyncOrchestrator_def Let_def)
    then show ?thesis using cancelled_failed_result by blast
  next
    case (passed s)
    show ?thesis
    proof (cases "executeExtractPhase env params")
      case (Inl err)
      have "failed (fail_phase env params ?st1 empty_sync_result ''extract_failed'' err)"
        by (rule fail_phase_failed) (simp_all add: alertSeverityForType_def)
      with passed Inl assms show ?thesis by (simp add: SyncOrchestrator_def Let_def)
    next
      case (Inr er)
      let ?st2 = "?st1\<lparr>ss_records_processed := er_records_count er\<rparr>"
      show ?thesis
      proof (cases rule: check_cases [of env 1 s ?st2])
        case blocked
        with passed Inr assms show ?thesis by (simp add: SyncOrchestrator_def Let_def)
      next
        case (stopped err s')
        with passed Inr assms have "out = ((buildPartialResult er (oe_clock env 0) (oe_clock env 1) [], Some err), [],
            ?st2\<lparr>ss_phase := PhaseCancelled\<rparr>)"
          by (simp add: SyncOrchestrator_def Let_def)
        then show ?thesis using cancelled_partial_result by blast
      next
        case p2: (passed s')
        with passed Inr assms have "transform_phase env params s' ?st2 er = Some out"
          by (simp add: SyncOrchestrator_def Let_def)
        then show ?thesis by (rule transform_phase_outcome [OF Inr, rotated]) simp
      qed
    qed
  qed
qed

lemma orchestrator_result_loaded:
  "SyncOrchestrator env params = Some ((res, e), effects, status) \<Longrightarrow> e \<noteq> None \<Longrightarrow> RecordsLoaded res = 0"
  using SyncOrchestrator_outcome [of env params "((res, e), effects, status)"]
  by (auto simp: completed_def failed_def cancelled_def)

lemma cancelled_iff:
  "CancelRequested (fold handle_signal sigs s) \<longleftrightarrow> CancelRequested s
     \<or> (\<exists>reason request saveState. CancelSignal reason request saveState \<in> set sigs)"
proof (induction sigs arbitrary: s)
  case (Cons sig sigs)
  have "CancelRequested (handle_signal sig s) \<longleftrightarrow> CancelRequested s \<or> (\<exists>r q b. sig = CancelSignal r q b)"
    by (cases sig) (simp_all add: signal_defs)
  then show ?case by (auto simp: Cons.IH)
qed simp

text \<open>A sync to which no modify signal is delivered.\<close>

definition is_ModifySignal :: "signal \<Rightarrow> bool" where
  "is_ModifySignal sig = (case sig of ModifySignal _ \<Rightarrow> True | _ \<Rightarrow> False)"

definition is_modify_delivery :: "delivery \<Rightarrow> bool" where
  "is_modify_delivery d = (case d of ToHandler sig \<Rightarrow> is_ModifySignal sig | ResumeToCheck \<Rightarrow> False)"

definition without_modify :: "orch_env \<Rightarrow> orch_env" where
  "without_modify env = env\<lparr>oe_signals := \<lambda>i. filter (\<lambda>sig. \<not> is_ModifySignal sig) (oe_signals env i),
     oe_deliveries := \<lambda>i. filter (\<lambda>d. \<not> is_modify_delivery d) (oe_deliveries env i)\<rparr>"

definition same_control :: "signal_state \<Rightarrow> signal_state \<Rightarrow> bool" where
  "same_control s s' \<longleftrightarrow> s\<lparr>PendingModify := None\<rparr> = s'\<lparr>PendingModify := None\<rparr>"

lemma same_control_handle: "same_control s s' \<Longrightarrow> same_control (handle_signal sig s) (handle_signal sig s')"
  by (cases s; cases s'; cases sig) (simp_all add: same_control_def signal_defs)

lemma same_control_modify: "same_control s s' \<Longrightarrow> is_ModifySignal sig \<Longrightarrow> same_control (handle_signal sig s) s'"
  by (cases s; cases s'; cases sig) (simp_all add: same_control_def signal_defs is_ModifySignal_def)

lemma same_control_fold:
  "same_control s s' \<Longrightarrow>
   same_control (fold handle_signal sigs s) (fold handle_signal (filter (\<lambda>sig. \<not> is_ModifySignal sig) sigs) s')"
  by (induction sigs arbitrary: s s') (simp_all add: same_control_handle same_control_modify)

lemma same_control_await:
  "same_control s s' \<Longrightarrow>
   rel_option same_control (await_resume ds s) (await_resume (filter (\<lambda>d. \<not> is_modify_delivery d) ds) s')"
  by (induction ds s arbitrary: s' rule: await_resume.induct)
    (simp_all add: same_control_handle same_control_modify is_modify_delivery_def)

lemma check_without_modify:
  assumes "same_control s s'"
  shows "rel_option (rel_prod (=) (rel_prod same_control (=))) (check env i s status) (check (without_modify env) i s' status)"
proof -
  let ?s = "fold handle_signal (oe_signals env i) s"
  let ?s' = "fold handle_signal (oe_signals (without_modify env) i) s'"
  have sc: "same_control ?s ?s'" using same_control_fold [OF assms] by (simp add: without_modify_def)
  have aw: "rel_option same_control (await_resume (oe_deliveries env i) ?s) (await_resume (oe_deliveries (without_modify env) i) ?s')"
    using same_control_await [OF sc] by (simp add: without_modify_def)
  have flags: "CancelRequested t = CancelRequested t' \<and> CancelReason t = CancelReason t'
      \<and> PauseRequested t = PauseRequested t'" if "same_control t t'" for t t'
    using that by (cases t; cases t') (simp add: same_control_def)
  have res: "same_control (ApplyResume t) (ApplyResume t')" if "same_control t t'" for t t'
    using that by (cases t; cases t') (simp add: same_control_def ApplyResume_def)
  show ?thesis
    using flags [OF sc] sc aw
    by (cases "await_resume (oe_deliveries env i) ?s"; cases "await_resume (oe_deliveries (without_modify env) i) ?s'")
      (auto simp: check_def checkSignals_def Let_def IsPaused_def IsCancelled_def dest: res flags)
qed

lemma same_control_check_cases:
  assumes "same_control s s'"
  obtains (blocked) "check env i s status = None" "check (without_modify env) i s' status = None"
  | (stopped) err t t' where "check env i s status = Some (Some err, t, status\<lparr>ss_phase := PhaseCancelled\<rparr>)"
      "check (without_modify env) i s' status = Some (Some err, t', status\<lparr>ss_phase := PhaseCancelled\<rparr>)"
  | (passed) t t' where "check env i s status = Some (None, t, status)"
      "check (without_modify env) i s' status = Some (None, t', status)" "same_control t t'"
  using check_without_modify [OF assms, of env i status]
  by (cases rule: check_cases [of env i s status]) (auto simp: option_rel_Some1)

section \<open>Properties\<close>

text \<open>
  C2: how a sync ends. If \<open>SyncOrchestrator\<close> returns, then its status is completed, failed or
  cancelled. Completed: no error, all three phases ran on one another's results, the result has their
  counts, checkpoint and errors, the run is recorded as completed with it, and a warning is sent
  exactly when there were errors. Failed: the error is in the result, the run is recorded as failed,
  a critical alert is sent and nothing counts as loaded. Cancelled: an error and nothing loaded.
\<close>

theorem orchestrator_outcomes:
  assumes "SyncOrchestrator env params = Some ((res, e), effects, status)"
  shows "(ss_phase status = PhaseCompleted \<or> ss_phase status = PhaseFailed \<or> ss_phase status = PhaseCancelled)
     \<and> (ss_phase status = PhaseCompleted \<longleftrightarrow> e = None)
     \<and> (e = None \<longrightarrow> (\<exists>er tr lr. executeExtractPhase env params = Inr er \<and> executeTransformPhase env params er = Inr tr
          \<and> executeLoadPhase env params tr = Inr lr
          \<and> RecordsExtracted res = er_records_count er \<and> RecordsTransformed res = tr_records_count tr
          \<and> RecordsLoaded res = lr_records_loaded lr \<and> NewCheckpoint res = er_new_state er
          \<and> sync_errors res = tr_errors tr @ lr_errors lr)
        \<and> (\<exists>rr. rr_status rr = ''completed'' \<and> rr_result rr = res \<and>
          (if sync_errors res = [] then effects = [RecordSyncRun rr]
           else \<exists>al. effects = [RecordSyncRun rr, Alert al] \<and> al_severity al = ''warning'')))
     \<and> (ss_phase status = PhaseFailed \<longrightarrow> (\<exists>err rr al. e = Some err \<and> sync_errors res = [error_text err]
          \<and> effects = [RecordSyncRun rr, Alert al] \<and> rr_status rr = ''failed'' \<and> al_severity al = ''critical''))
     \<and> (e \<noteq> None \<longrightarrow> RecordsLoaded res = 0)"
  using SyncOrchestrator_outcome [OF assms]
proof (elim disjE)
  assume "completed env params ((res, e), effects, status)"
  then show ?thesis unfolding completed_def by simp
next
  assume "failed ((res, e), effects, status)"
  then show ?thesis unfolding failed_def by auto
next
  assume "cancelled ((res, e), effects, status)"
  then show ?thesis unfolding cancelled_def by auto
qed

text \<open>A run to try it on: the phases pass the records on, the load reports one error.\<close>

definition sample_params :: sync_params where
  "sample_params = \<lparr>sp_source = ''a'', sp_dest = ''b'', sp_source_config = [], sp_dest_config = [], sp_streams = [],
     sp_field_mappings = [], sp_sync_mode = SyncModeFullRefresh, sp_last_checkpoint = Map.empty,
     sp_tenant = ''t1'', sp_sync = ''s1''\<rparr>"

definition sample_env :: "(nat \<Rightarrow> signal list) \<Rightarrow> (nat \<Rightarrow> delivery list) \<Rightarrow> orch_env" where
  "sample_env sigs ds = \<lparr>
     oe_extract = (\<lambda>p. Inr \<lparr>er_records = four_records, er_records_count = 4, er_new_state = Map.empty,
        er_partitions_used = 1\<rparr>),
     oe_transform = (\<lambda>p. Inr \<lparr>tr_records = tp_records p, tr_records_count = int (length (tp_records p)),
        tr_dropped = 0, tr_errors = []\<rparr>),
     oe_load = (\<lambda>p. Inr \<lparr>lr_records_loaded = int (length (lp_records p)), lr_batches_written = 1, lr_errors = [''slow'']\<rparr>),
     oe_clock = int, oe_signals = sigs, oe_deliveries = ds, oe_workflow = ''w1''\<rparr>"

lemmas orch_eval = SyncOrchestrator_def transform_phase_def load_phase_def check_def checkSignals_def
  NewSignalState_def sample_env_def sample_params_def executeExtractPhase_def executeTransformPhase_def
  executeLoadPhase_def Let_def IsPaused_def IsCancelled_def

theorem orchestrator_outcomes_witness:
  "\<exists>res effects status. SyncOrchestrator (sample_env (\<lambda>_. []) (\<lambda>_. [])) sample_params = Some ((res, None), effects, status)
     \<and> RecordsLoaded res = 4 \<and> length effects = 2"
proof -
  obtain res effects status where r: "SyncOrchestrator (sample_env (\<lambda>_. []) (\<lambda>_. [])) sample_params
      = Some ((res, None), effects, status)" "sync_errors res = [''slow'']" "RecordsLoaded res = 4"
    by (simp add: orch_eval collectAllErrors_def four_records_def)
  from orchestrator_outcomes [OF r(1)] r show ?thesis by auto
qed

text \<open>
  C37: a cancellation stops the sync before the next phase. If a cancel signal has been handled before
  the check ahead of the transform phase, a sync that returns, returns an error, and the transform and
  load phases have not been run: its result, its effects and its status do not depend on them.
\<close>

theorem cancel_stops_next_phase:
  assumes "CancelSignal reason request saveState \<in> set (oe_signals env 1)"
    and "SyncOrchestrator env params = Some ((res, e), effects, status)"
  shows "e \<noteq> None \<and> RecordsLoaded res = 0
     \<and> SyncOrchestrator (env\<lparr>oe_transform := t, oe_load := l\<rparr>) params = Some ((res, e), effects, status)"
proof -
  let ?env = "env\<lparr>oe_transform := t, oe_load := l\<rparr>"
  have frame: "check ?env i s st = check env i s st" for i s st by (simp add: check_def)
  have ext: "executeExtractPhase ?env params = executeExtractPhase env params" by (simp add: executeExtractPhase_def)
  have failp: "fail_phase ?env params st c ty err = fail_phase env params st c ty err" for st c ty err
    by (simp add: fail_phase_def)
  have "SyncOrchestrator ?env params = SyncOrchestrator env params \<and> e \<noteq> None"
  proof -
    let ?st0 = "\<lparr>ss_phase = PhaseInitializing, ss_progress = 0, ss_records_processed = 0, ss_errors = [],
       ss_started_at = oe_clock env 0\<rparr>"
    let ?st1 = "?st0\<lparr>ss_phase := PhaseExtracting\<rparr>"
    show ?thesis
    proof (cases rule: check_cases [of env 0 NewSignalState ?st0])
      case blocked
      with assms(2) show ?thesis by (simp add: SyncOrchestrator_def Let_def)
    next
      case (stopped err s')
      with assms(2) show ?thesis by (auto simp: SyncOrchestrator_def Let_def frame)
    next
      case (passed s)
      show ?thesis
      proof (cases "executeExtractPhase env params")
        case (Inl err)
        with passed assms(2) show ?thesis
          by (auto simp: SyncOrchestrator_def Let_def frame ext failp) (auto simp: fail_phase_def Let_def)
      next
        case (Inr er)
        obtain err s' where "check env 1 s (?st1\<lparr>ss_records_processed := er_records_count er\<rparr>)
            = Some (Some err, s', ?st1\<lparr>ss_records_processed := er_records_count er, ss_phase := PhaseCancelled\<rparr>)"
          using check_cancel [OF assms(1), of s "?st1\<lparr>ss_records_processed := er_records_count er\<rparr>"] by auto
        with passed Inr assms(2) show ?thesis by (auto simp: SyncOrchestrator_def Let_def frame ext)
      qed
    qed
  qed
  with assms(2) orchestrator_result_loaded [OF assms(2)] show ?thesis by simp
qed

theorem cancel_stops_next_phase_witness:
  "\<exists>res e effects status.
     SyncOrchestrator ((sample_env (\<lambda>i. if i = 1 then [CancelSignal ''stop'' ''r'' True] else []) (\<lambda>_. []))
       \<lparr>oe_transform := \<lambda>_. Inl DeadlineExceeded, oe_load := \<lambda>_. Inl DeadlineExceeded\<rparr>) sample_params
       = Some ((res, e), effects, status) \<and> e \<noteq> None"
proof -
  let ?env = "sample_env (\<lambda>i. if i = 1 then [CancelSignal ''stop'' ''r'' True] else []) (\<lambda>_. [])"
  have c: "CancelSignal ''stop'' ''r'' True \<in> set (oe_signals ?env 1)" by (simp add: sample_env_def)
  obtain res e effects status where r: "SyncOrchestrator ?env sample_params = Some ((res, e), effects, status)"
    by (simp add: orch_eval handle_signal_def ApplyCancel_def)
  from cancel_stops_next_phase [OF c r, of "\<lambda>_. Inl DeadlineExceeded" "\<lambda>_. Inl DeadlineExceeded"]
  show ?thesis by (elim conjE) (intro exI conjI)
qed

text \<open>
  A cancelled sync leaves no record. When the error of a sync is a cancellation, that is its status
  is cancelled, neither the recording nor the alerting activity has been run, whatever the signal said
  about saving the state; the status \<open>cancelled\<close> of a recorded run is never used.
\<close>

theorem cancelled_sync_not_recorded:
  assumes "SyncOrchestrator env params = Some ((res, e), effects, status)"
  shows "(ss_phase status = PhaseCancelled \<longrightarrow> effects = [])
     \<and> (\<forall>rr. RecordSyncRun rr \<in> set effects \<longrightarrow> rr_status rr \<noteq> ''cancelled'')"
  using SyncOrchestrator_outcome [OF assms]
proof (elim disjE)
  assume c: "completed env params ((res, e), effects, status)"
  then obtain rr where "rr_status rr = ''completed''" "if sync_errors res = [] then effects = [RecordSyncRun rr]
      else \<exists>al. effects = [RecordSyncRun rr, Alert al] \<and> al_severity al = ''warning''"
    unfolding completed_def by auto
  with c show ?thesis unfolding completed_def by (auto split: if_splits)
next
  assume "failed ((res, e), effects, status)"
  then show ?thesis unfolding failed_def by auto
next
  assume "cancelled ((res, e), effects, status)"
  then show ?thesis unfolding cancelled_def by auto
qed

theorem cancelled_sync_not_recorded_witness:
  "\<exists>res e status. SyncOrchestrator (sample_env (\<lambda>i. [CancelSignal ''stop'' ''r'' True]) (\<lambda>_. [])) sample_params
     = Some ((res, e), [], status) \<and> ss_phase status = PhaseCancelled"
proof -
  obtain res e effects status where r: "SyncOrchestrator (sample_env (\<lambda>i. [CancelSignal ''stop'' ''r'' True]) (\<lambda>_. []))
      sample_params = Some ((res, e), effects, status)" "ss_phase status = PhaseCancelled"
    by (simp add: orch_eval handle_signal_def ApplyCancel_def)
  from cancelled_sync_not_recorded [OF r(1)] r show ?thesis by auto
qed


text \<open>
  What a paused sync waits for. When the sync is paused and not cancelled at a check, the check
  returns if and only if a resume signal is received by the blocked \<open>checkSignals\<close> itself; cancel
  signals, and resume signals that the handler of \<open>registerSignalHandlers\<close> receives, leave it
  blocked. After the resume signal it fails, cancelled, exactly when a cancel signal was handled
  in between; otherwise the sync is no longer paused and its phase is the one before the pause.
\<close>

theorem pause_waits_for_resume:
  assumes "IsPaused s" and "\<not> IsCancelled s"
  shows "(checkSignals ds s status = None \<longleftrightarrow> ResumeToCheck \<notin> set ds)
    \<and> (case checkSignals (map ToHandler sigs @ ResumeToCheck # ds) s status of
         None \<Rightarrow> False
       | Some (e, s', status') \<Rightarrow> \<not> IsPaused s'
           \<and> (e \<noteq> None \<longleftrightarrow> (\<exists>reason request saveState. CancelSignal reason request saveState \<in> set sigs))
           \<and> status' = (if e = None then status else status\<lparr>ss_phase := PhaseCancelled\<rparr>))"
proof -
  have first: "ResumeToCheck \<in> set ds \<Longrightarrow> \<exists>s'. await_resume ds s = Some s'" for s
    by (induction ds s rule: await_resume.induct) auto
  have blocked: "checkSignals ds s status = None \<longleftrightarrow> ResumeToCheck \<notin> set ds"
    using assms first [of s] await_resume_None [of ds s]
    by (cases "await_resume ds s") (auto simp: checkSignals_def Let_def)
  have aw: "await_resume (map ToHandler sigs @ ResumeToCheck # ds) s = Some (fold handle_signal sigs s)"
    by (induction sigs arbitrary: s) auto
  have "CancelRequested (fold handle_signal sigs s) \<longleftrightarrow> CancelRequested s
      \<or> (\<exists>reason request saveState. CancelSignal reason request saveState \<in> set sigs)" for s
    by (rule cancelled_iff)
  with assms aw blocked show ?thesis
    by (cases status) (simp add: checkSignals_def Let_def signal_defs)
qed

theorem pause_waits_for_resume_witness:
  "checkSignals [ToHandler (ResumeSignal ''r''), ToHandler (CancelSignal ''c'' ''r'' True)]
     (ApplyPause ''p'' NewSignalState) \<lparr>ss_phase = PhaseExtracting, ss_progress = 0, ss_records_processed = 0,
       ss_errors = [], ss_started_at = 0\<rparr> = None"
proof -
  have "IsPaused (ApplyPause ''p'' NewSignalState)" "\<not> IsCancelled (ApplyPause ''p'' NewSignalState)"
    by (simp_all add: signal_defs NewSignalState_def)
  from pause_waits_for_resume [OF this] show ?thesis by simp
qed

text \<open>
  Modify signals do nothing. Taking every modify signal out of what is delivered to a sync changes
  nothing: not its result, its error, its effects or its status, nor whether it returns.
  (\<open>ConsumeModify\<close> is never called.)
\<close>

theorem modify_signals_ignored:
  "SyncOrchestrator (env\<lparr>oe_signals := \<lambda>i. filter (\<lambda>sig. \<not> is_ModifySignal sig) (oe_signals env i),
       oe_deliveries := \<lambda>i. filter (\<lambda>d. \<not> is_modify_delivery d) (oe_deliveries env i)\<rparr>) params
   = SyncOrchestrator env params"
proof -
  let ?w = "without_modify env"
  have phases: "executeExtractPhase ?w params = executeExtractPhase env params"
      "executeTransformPhase ?w params er = executeTransformPhase env params er"
      "executeLoadPhase ?w params tr = executeLoadPhase env params tr" for er tr
    by (simp_all add: without_modify_def executeExtractPhase_def executeTransformPhase_def executeLoadPhase_def)
  have clock: "oe_clock ?w = oe_clock env" "oe_workflow ?w = oe_workflow env" by (simp_all add: without_modify_def)
  have fail: "fail_phase ?w params st c ty err = fail_phase env params st c ty err" for st c ty err
    by (simp add: fail_phase_def clock)
  have load: "load_phase ?w params st er tr = load_phase env params st er tr" for st er tr
    by (simp add: load_phase_def clock phases fail Let_def split: sum.split)
  have trans: "transform_phase ?w params s' st er = transform_phase env params s st er"
    if "same_control s s'" for s s' st er
  proof (cases "executeTransformPhase env params er")
    case (Inr tr)
    from that Inr show ?thesis
      by (cases rule: same_control_check_cases [where env = env and i = 2
            and status = "st\<lparr>ss_phase := PhaseTransforming, ss_records_processed := tr_records_count tr\<rparr>"])
        (simp_all add: transform_phase_def clock phases load Let_def)
  qed (simp add: transform_phase_def clock phases fail Let_def)
  let ?st0 = "\<lparr>ss_phase = PhaseInitializing, ss_progress = 0, ss_records_processed = 0, ss_errors = [],
     ss_started_at = oe_clock env 0\<rparr>"
  have init: "same_control NewSignalState NewSignalState" by (simp add: same_control_def)
  have "SyncOrchestrator ?w params = SyncOrchestrator env params"
    using init
  proof (cases rule: same_control_check_cases [where env = env and i = 0 and status = ?st0])
    case (passed s s')
    show ?thesis
    proof (cases "executeExtractPhase env params")
      case (Inr er)
      from passed Inr show ?thesis
        by (cases rule: same_control_check_cases [OF passed(3), of env 1
              "?st0\<lparr>ss_phase := PhaseExtracting, ss_records_processed := er_records_count er\<rparr>"])
          (simp_all add: SyncOrchestrator_def clock phases trans Let_def)
    qed (use passed in \<open>simp add: SyncOrchestrator_def clock phases fail Let_def\<close>)
  qed (simp_all add: SyncOrchestrator_def clock Let_def)
  then show ?thesis by (simp add: without_modify_def)
qed

end
