(* ===== verification/Values.thy ===== *)
theory Values
  imports Json Protocol
begin

text \<open>
  The values of Go's \<open>interface{}\<close> that the mapping code handles, and what it uses of the packages
  strings, strconv, fmt, time and regexp. A \<open>float64\<close> is an element of the type parameter \<open>'f\<close>; its
  arithmetic, its conversions and its texts are operations of a record \<open>'f go_lib\<close>, with the layouts of
  package time, the compiler of package regexp and the clock. The functions on letters, digits and
  white space are those of Go on ASCII texts.
\<close>

section \<open>Values\<close>

text \<open>An instant with the offset of its zone in seconds.\<close>

type_synonym date_time = "time \<times> int"

datatype 'f go_value =
    VNil
  | VBool bool
  | VFloat 'f
  | VInt int
  | VString string
  | VTime date_time
  | VArray "'f go_value list"
  | VMap "(string \<times> 'f go_value) list"

record 'f go_lib =
  fl_add :: "'f \<Rightarrow> 'f \<Rightarrow> 'f"
  fl_sub :: "'f \<Rightarrow> 'f \<Rightarrow> 'f"
  fl_mul :: "'f \<Rightarrow> 'f \<Rightarrow> 'f"
  fl_div :: "'f \<Rightarrow> 'f \<Rightarrow> 'f"
  fl_neg :: "'f \<Rightarrow> 'f"
  fl_eq :: "'f \<Rightarrow> 'f \<Rightarrow> bool"
  fl_is_zero :: "'f \<Rightarrow> bool"          \<comment> \<open>\<open>v == 0\<close>\<close>
  fl_is_integral :: "'f \<Rightarrow> bool"      \<comment> \<open>\<open>v == math.Trunc(v)\<close>\<close>
  fl_of_int :: "int \<Rightarrow> 'f"            \<comment> \<open>\<open>float64(i)\<close>\<close>
  fl_to_int :: "'f \<Rightarrow> int"            \<comment> \<open>\<open>int64(v)\<close>\<close>
  fl_parse :: "string \<Rightarrow> 'f result"   \<comment> \<open>\<open>strconv.ParseFloat(s, 64)\<close>\<close>
  fl_text :: "'f \<Rightarrow> string"           \<comment> \<open>\<open>strconv.FormatFloat(v, 'f', -1, 64)\<close>\<close>
  fl_print :: "'f \<Rightarrow> string"          \<comment> \<open>\<open>%v\<close>\<close>
  fl_json :: "'f \<Rightarrow> string option"    \<comment> \<open>\<open>json.Marshal\<close>, \<open>None\<close> for infinities and NaN\<close>
  time_parse :: "string \<Rightarrow> string \<Rightarrow> date_time option"  \<comment> \<open>layout, text\<close>
  time_format :: "string \<Rightarrow> date_time \<Rightarrow> string"
  time_print :: "date_time \<Rightarrow> string"  \<comment> \<open>\<open>%v\<close>\<close>
  re_compile :: "string \<Rightarrow> (string \<Rightarrow> bool) result"
  clock_now :: date_time

definition utc :: "date_time \<Rightarrow> date_time" where
  "utc t = (fst t, 0)"

text \<open>\<open>%T\<close> and \<open>%v\<close>.\<close>

fun type_name :: "'f go_value \<Rightarrow> string" where
  "type_name VNil = ''<nil>''"
| "type_name (VBool _) = ''bool''"
| "type_name (VFloat _) = ''float64''"
| "type_name (VInt _) = ''int64''"
| "type_name (VString _) = ''string''"
| "type_name (VTime _) = ''time.Time''"
| "type_name (VArray _) = ''[]interface {}''"
| "type_name (VMap _) = ''map[string]interface {}''"

definition bool_text :: "bool \<Rightarrow> string" where
  "bool_text b = (if b then ''true'' else ''false'')"

fun print_v :: "'f go_lib \<Rightarrow> 'f go_value \<Rightarrow> string" where
  "print_v lib VNil = ''<nil>''"
| "print_v lib (VBool b) = bool_text b"
| "print_v lib (VFloat f) = fl_print lib f"
| "print_v lib (VInt i) = show_int i"
| "print_v lib (VString s) = s"
| "print_v lib (VTime t) = time_print lib t"
| "print_v lib (VArray vs) = ''['' @ join_with '' '' (map (print_v lib) vs) @ '']''"
| "print_v lib (VMap ms) = ''map['' @ join_with '' ''
     (map (\<lambda>(k, t). k @ '':'' @ t)
       (sort_key fst (decode_members (map (\<lambda>(k, v). (k, print_v lib v)) ms) []))) @ '']''"

section \<open>Decoding and encoding JSON\<close>

text \<open>\<open>json.Unmarshal\<close> into an \<open>interface{}\<close>: a number that no \<open>float64\<close> holds is an error.\<close>

fun decode_value :: "'f go_lib \<Rightarrow> json \<Rightarrow> 'f go_value option"
  and decode_values :: "'f go_lib \<Rightarrow> json list \<Rightarrow> 'f go_value list option"
  and decode_pairs :: "'f go_lib \<Rightarrow> (string \<times> json) list \<Rightarrow> (string \<times> 'f go_value) list option" where
  "decode_value lib JNull = Some VNil"
| "decode_value lib (JBool b) = Some (VBool b)"
| "decode_value lib (JNum t) = (case fl_parse lib t of Inl _ \<Rightarrow> None | Inr f \<Rightarrow> Some (VFloat f))"
| "decode_value lib (JStr s) = Some (VString s)"
| "decode_value lib (JArr vs) = map_option VArray (decode_values lib vs)"
| "decode_value lib (JObj ms) = map_option (\<lambda>ps. VMap (decode_members ps [])) (decode_pairs lib ms)"
| "decode_values lib [] = Some []"
| "decode_values lib (v # vs) = (case (decode_value lib v, decode_values lib vs) of
     (Some x, Some xs) \<Rightarrow> Some (x # xs) | _ \<Rightarrow> None)"
| "decode_pairs lib [] = Some []"
| "decode_pairs lib ((k, v) # ps) = (case (decode_value lib v, decode_pairs lib ps) of
     (Some x, Some xs) \<Rightarrow> Some ((k, x) # xs) | _ \<Rightarrow> None)"

text \<open>\<open>json.Unmarshal\<close> into a \<open>map[string]interface{}\<close>.\<close>

definition decode_object :: "'f go_lib \<Rightarrow> string \<Rightarrow> (string \<times> 'f go_value) list option" where
  "decode_object lib raw = (case json_parse raw of
     Some (JObj ms) \<Rightarrow> map_option (\<lambda>ps. decode_members ps []) (decode_pairs lib ms)
   | Some JNull \<Rightarrow> Some []
   | _ \<Rightarrow> None)"

text \<open>\<open>json.Marshal\<close>; a time is written in RFC 3339 with nanoseconds.\<close>

definition RFC3339Nano :: string where
  "RFC3339Nano = ''2006-01-02T15:04:05.999999999Z07:00''"

fun encode_value :: "'f go_lib \<Rightarrow> 'f go_value \<Rightarrow> string option"
  and encode_values :: "'f go_lib \<Rightarrow> 'f go_value list \<Rightarrow> string list option"
  and encode_pairs :: "'f go_lib \<Rightarrow> (string \<times> 'f go_value) list \<Rightarrow> (string \<times> string) list option" where
  "encode_value lib VNil = Some ''null''"
| "encode_value lib (VBool b) = Some (bool_text b)"
| "encode_value lib (VFloat f) = fl_json lib f"
| "encode_value lib (VInt i) = Some (show_int i)"
| "encode_value lib (VString s) = Some (encode_string s)"
| "encode_value lib (VTime t) = Some (encode_string (time_format lib RFC3339Nano t))"
| "encode_value lib (VArray vs) = map_option (\<lambda>ts. ''['' @ join_with '','' ts @ '']'') (encode_values lib vs)"
| "encode_value lib (VMap ms) = map_option (\<lambda>ps. ''{'' @ join_with '',''
     (map (\<lambda>(k, t). encode_string k @ '':'' @ t) (sort_key fst ps)) @ ''}'') (encode_pairs lib ms)"
| "encode_values lib [] = Some []"
| "encode_values lib (v # vs) = (case (encode_value lib v, encode_values lib vs) of
     (Some x, Some xs) \<Rightarrow> Some (x # xs) | _ \<Rightarrow> None)"
| "encode_pairs lib [] = Some []"
| "encode_pairs lib ((k, v) # ps) = (case (encode_value lib v, encode_pairs lib ps) of
     (Some x, Some xs) \<Rightarrow> Some ((k, x) # xs) | _ \<Rightarrow> None)"

section \<open>Package strings\<close>

definition is_space :: "char \<Rightarrow> bool" where
  "is_space c \<longleftrightarrow> byte c = 32 \<or> 9 \<le> byte c \<and> byte c \<le> 13"

definition is_letter :: "char \<Rightarrow> bool" where
  "is_letter c \<longleftrightarrow> 65 \<le> byte c \<and> byte c \<le> 90 \<or> 97 \<le> byte c \<and> byte c \<le> 122"

definition to_upper :: "char \<Rightarrow> char" where
  "to_upper c = (if 97 \<le> byte c \<and> byte c \<le> 122 then char_byte (byte c - 32) else c)"

definition trim_space :: "string \<Rightarrow> string" where
  "trim_space s = rev (dropWhile is_space (rev (dropWhile is_space s)))"

text \<open>The UTF-8 sequences of a string, an invalid byte standing alone.\<close>

function rune_chunks :: "string \<Rightarrow> string list" where
  "rune_chunks s = (if s = [] then [] else take (max 1 (utf8_len s)) s # rune_chunks (drop (max 1 (utf8_len s)) s))"
  by pat_completeness auto
termination by (relation "measure length") auto

declare rune_chunks.simps [simp del]

text \<open>\<open>[]rune(s)\<close>, each rune as the text that \<open>string\<close> makes of it.\<close>

definition rune_texts :: "string \<Rightarrow> string list" where
  "rune_texts s = map (\<lambda>r. if utf8_len r = 0 then utf8_encode 65533 else r) (rune_chunks s)"

text \<open>\<open>strings.Split\<close> on a non-empty separator: \<open>cur\<close> is the reversed current part.\<close>

function split_parts :: "string \<Rightarrow> string \<Rightarrow> string \<Rightarrow> string list" where
  "split_parts sep cur s = (case s of
     [] \<Rightarrow> [rev cur]
   | c # cs \<Rightarrow> if sep \<noteq> [] \<and> take (length sep) s = sep then rev cur # split_parts sep [] (drop (length sep) s)
               else split_parts sep (c # cur) cs)"
  by pat_completeness auto
termination by (relation "measure (\<lambda>(sep, cur, s). length s)") auto

declare split_parts.simps [simp del]

definition go_split :: "string \<Rightarrow> string \<Rightarrow> string list" where
  "go_split s sep = (if sep = [] then rune_chunks s else split_parts sep [] s)"

definition replace_all :: "string \<Rightarrow> string \<Rightarrow> string \<Rightarrow> string" where
  "replace_all s old new =
    (if old = [] then concat (map (\<lambda>r. new @ r) (rune_chunks s)) @ new
     else join_with new (split_parts old [] s))"

text \<open>A \<open>strings.Replacer\<close>: at each position the first of the old texts that matches is replaced.\<close>

function run_replacer :: "(string \<times> string) list \<Rightarrow> string \<Rightarrow> string" where
  "run_replacer pairs s = (case s of
     [] \<Rightarrow> []
   | c # cs \<Rightarrow> (case find (\<lambda>(old, new). old \<noteq> [] \<and> take (length old) s = old) pairs of
        None \<Rightarrow> c # run_replacer pairs cs
      | Some (old, new) \<Rightarrow> new @ run_replacer pairs (drop (max 1 (length old)) s)))"
  by pat_completeness auto
termination by (relation "measure (\<lambda>(pairs, s). length s)") auto

declare run_replacer.simps [simp del]

section \<open>Package strconv\<close>

definition syntax_error :: "string \<Rightarrow> string \<Rightarrow> go_error" where
  "syntax_error fn s = NewError (''strconv.'' @ fn @ '': parsing '' @ quoted s @ '': invalid syntax'')"

definition range_error :: "string \<Rightarrow> string \<Rightarrow> go_error" where
  "range_error fn s = NewError (''strconv.'' @ fn @ '': parsing '' @ quoted s @ '': value out of range'')"

text \<open>\<open>strconv.ParseInt(s, 10, 64)\<close>.\<close>

definition parse_int64 :: "string \<Rightarrow> int result" where
  "parse_int64 s =
    (let (neg, digits) = (case s of [] \<Rightarrow> (False, [])
           | c # cs \<Rightarrow> if c = CHR ''+'' then (False, cs) else if c = CHR ''-'' then (True, cs) else (False, s))
     in if digits = [] then Inl (syntax_error ''ParseInt'' s)
        else case read_nat 0 digits of
               None \<Rightarrow> Inl (syntax_error ''ParseInt'' s)
             | Some n \<Rightarrow> (let i = (if neg then - int n else int n)
                         in if in_i64 i then Inr i else Inl (range_error ''ParseInt'' s)))"

definition parse_bool :: "string \<Rightarrow> bool result" where
  "parse_bool s =
    (if s \<in> {''1'', ''t'', ''T'', ''TRUE'', ''true'', ''True''} then Inr True
     else if s \<in> {''0'', ''f'', ''F'', ''FALSE'', ''false'', ''False''} then Inr False
     else Inl (syntax_error ''ParseBool'' s))"

lemma is_space_digit [simp]: "is_digit c \<Longrightarrow> \<not> is_space c"
  by (simp add: is_space_def is_digit_def)

section \<open>Package time\<close>

text \<open>The result of the first of some layouts that a text matches.\<close>

fun first_parse :: "'f go_lib \<Rightarrow> string list \<Rightarrow> string \<Rightarrow> date_time option" where
  "first_parse lib [] s = None"
| "first_parse lib (f # fs) s = (case time_parse lib f s of Some t \<Rightarrow> Some t | None \<Rightarrow> first_parse lib fs s)"

definition unix_time :: "int \<Rightarrow> date_time" where
  "unix_time sec = (sec * 1000000000, 0)"

section \<open>An instance\<close>

text \<open>A library in which the numbers are integers.\<close>

definition int_lib :: "int go_lib" where
  "int_lib = \<lparr>fl_add = (+), fl_sub = (-), fl_mul = (*), fl_div = (\<lambda>a b. a sdiv b), fl_neg = uminus,
     fl_eq = (=), fl_is_zero = (\<lambda>f. f = 0), fl_is_integral = (\<lambda>f. True), fl_of_int = (\<lambda>i. i), fl_to_int = (\<lambda>f. f),
     fl_parse = parse_int64, fl_text = show_int, fl_print = show_int, fl_json = (\<lambda>f. Some (show_int f)),
     time_parse = (\<lambda>layout s. None), time_format = (\<lambda>layout t. []), time_print = (\<lambda>t. []),
     re_compile = (\<lambda>p. Inl (NewError ''pattern'')), clock_now = (0, 0)\<rparr>"

end
