(* ===== verification/Expression.thy ===== *)
theory Expression
  imports Values
begin

text \<open>
  The expression engine of the mapping layer, \<open>internal/mapping/expression/engine.go\<close>: the tokenizer,
  the recursive-descent parser that evaluates while it parses, and the built-in functions. The
  parser's state is the list of the tokens that are left. Its recursion is cut by fuel; one unit more
  than there are tokens is proved to be enough for every token list, so \<open>Evaluate\<close> never runs out.
  Characters are taken to be ASCII outside of string literals.
\<close>

section \<open>Results\<close>

text \<open>A function called from an expression returns a value or an error, or panics (\<open>None\<close>).\<close>

type_synonym 'f expr_func = "'f go_value list \<Rightarrow> 'f go_value result option"

datatype 'a outcome = Returns 'a | Fails go_error | Panics | OutOfFuel

definition outcome_of :: "'a result option \<Rightarrow> 'a outcome" where
  "outcome_of r = (case r of None \<Rightarrow> Panics | Some (Inl e) \<Rightarrow> Fails e | Some (Inr v) \<Rightarrow> Returns v)"

record 'f expr_engine =
  ee_lib :: "'f go_lib"
  ee_funcs :: "string \<rightharpoonup> 'f expr_func"

definition RegisterFunc :: "string \<Rightarrow> 'f expr_func \<Rightarrow> 'f expr_engine \<Rightarrow> 'f expr_engine" where
  "RegisterFunc name fn e = e\<lparr>ee_funcs := (ee_funcs e)(name \<mapsto> fn)\<rparr>"

definition getFunc :: "'f expr_engine \<Rightarrow> string \<Rightarrow> 'f expr_func option" where
  "getFunc e name = ee_funcs e name"

section \<open>Tokens\<close>

datatype token_type = tokNumber | tokString | tokField | tokIdent | tokLParen | tokRParen | tokComma
  | tokPlus | tokMinus | tokStar | tokSlash | tokEOF

type_synonym token = "token_type \<times> string"

text \<open>The number of characters up to the closing quote, \<open>None\<close> when there is none.\<close>

fun scan_string :: "char \<Rightarrow> string \<Rightarrow> nat option" where
  "scan_string quote [] = None"
| "scan_string quote (c # cs) =
    (if c = quote then Some 0
     else if c = CHR 0x5C then
       (case cs of [] \<Rightarrow> None | d # ds \<Rightarrow> map_option (\<lambda>n. n + 2) (scan_string quote ds))
     else map_option Suc (scan_string quote cs))"

definition field_char :: "char \<Rightarrow> bool" where
  "field_char c \<longleftrightarrow> is_letter c \<or> is_digit c \<or> c \<in> {CHR ''_'', CHR ''.'', CHR 0x5B, CHR 0x5D}"

definition number_char :: "char \<Rightarrow> bool" where
  "number_char c \<longleftrightarrow> is_digit c \<or> c = CHR ''.''"

definition ident_char :: "char \<Rightarrow> bool" where
  "ident_char c \<longleftrightarrow> is_letter c \<or> is_digit c \<or> c = CHR ''_''"

text \<open>After these tokens, or at the start, a minus before a digit belongs to the number.\<close>

definition allows_sign :: "token list \<Rightarrow> bool" where
  "allows_sign tokens \<longleftrightarrow> tokens = [] \<or>
     fst (last tokens) \<in> {tokLParen, tokComma, tokPlus, tokMinus, tokStar, tokSlash}"

definition symbol_token :: "char \<Rightarrow> token_type option" where
  "symbol_token c = (if c = CHR ''('' then Some tokLParen else if c = CHR '')'' then Some tokRParen
     else if c = CHR '','' then Some tokComma else if c = CHR ''+'' then Some tokPlus
     else if c = CHR ''-'' then Some tokMinus else if c = CHR ''*'' then Some tokStar
     else if c = CHR ''/'' then Some tokSlash else None)"

definition unexpected_char :: "char \<Rightarrow> nat \<Rightarrow> go_error" where
  "unexpected_char c i = NewError (''unexpected character '' @ quoted [c] @ '' at position '' @ show_nat i)"

text \<open>The loop of \<open>tokenize\<close>: the tokens so far, the position, and the characters from there on.\<close>

function tokenize_loop :: "token list \<Rightarrow> nat \<Rightarrow> string \<Rightarrow> token list result" where
  "tokenize_loop tokens i [] = Inr (tokens @ [(tokEOF, [])])"
| "tokenize_loop tokens i (c # cs) =
    (if is_space c then tokenize_loop tokens (i + 1) cs
     else if c = CHR 0x22 \<or> c = CHR 0x27 then
       (case scan_string c cs of
          None \<Rightarrow> Inl (NewError ''unterminated string literal'')
        | Some n \<Rightarrow> tokenize_loop (tokens @ [(tokString, take n cs)]) (i + n + 2) (drop (Suc n) cs))
     else if c = CHR ''$'' \<and> take 1 cs = ''.'' then
       (let f = takeWhile field_char (tl cs)
        in tokenize_loop (tokens @ [(tokField, f)]) (i + 2 + length f) (dropWhile field_char (tl cs)))
     else if is_digit c \<or> c = CHR ''-'' \<and> cs \<noteq> [] \<and> is_digit (hd cs) \<and> allows_sign tokens then
       (let num = c # takeWhile number_char cs
        in tokenize_loop (tokens @ [(tokNumber, num)]) (i + length num) (dropWhile number_char cs))
     else if is_letter c \<or> c = CHR ''_'' then
       (let ident = c # takeWhile ident_char cs
        in tokenize_loop (tokens @ [(tokIdent, ident)]) (i + length ident) (dropWhile ident_char cs))
     else (case symbol_token c of
         None \<Rightarrow> Inl (unexpected_char c i)
       | Some ty \<Rightarrow> tokenize_loop (tokens @ [(ty, [c])]) (i + 1) cs))"
  by pat_completeness auto

termination
  by (relation "measure (\<lambda>(tokens, i, s). length s)")
    (auto simp: less_Suc_eq_le length_dropWhile_le intro: le_trans [OF length_dropWhile_le])

declare tokenize_loop.simps [simp del]

definition tokenize :: "string \<Rightarrow> token list result" where
  "tokenize expr = tokenize_loop [] 0 expr"

section \<open>Conversions\<close>

definition toFloat :: "'f go_lib \<Rightarrow> 'f go_value \<Rightarrow> 'f result" where
  "toFloat lib v = (case v of
     VFloat f \<Rightarrow> Inr f
   | VInt i \<Rightarrow> Inr (fl_of_int lib i)
   | VString s \<Rightarrow> fl_parse lib s
   | VBool b \<Rightarrow> Inr (fl_of_int lib (if b then 1 else 0))
   | VNil \<Rightarrow> Inr (fl_of_int lib 0)
   | _ \<Rightarrow> Inl (NewError (''cannot convert '' @ type_name v @ '' to float64'')))"

definition toBool :: "'f go_lib \<Rightarrow> 'f go_value \<Rightarrow> bool" where
  "toBool lib v = (case v of
     VBool b \<Rightarrow> b
   | VFloat f \<Rightarrow> \<not> fl_is_zero lib f
   | VInt i \<Rightarrow> i \<noteq> 0
   | VString s \<Rightarrow> s \<noteq> [] \<and> s \<noteq> ''false'' \<and> s \<noteq> ''0''
   | VNil \<Rightarrow> False
   | _ \<Rightarrow> True)"

definition toString :: "'f go_lib \<Rightarrow> 'f go_value \<Rightarrow> string" where
  "toString lib v = (case v of
     VNil \<Rightarrow> []
   | VString s \<Rightarrow> s
   | VFloat f \<Rightarrow> if fl_is_integral lib f then show_int (fl_to_int lib f) else fl_text lib f
   | VBool b \<Rightarrow> bool_text b
   | _ \<Rightarrow> print_v lib v)"

definition toInt :: "'f go_lib \<Rightarrow> 'f go_value \<Rightarrow> int result" where
  "toInt lib v = (case v of
     VFloat f \<Rightarrow> Inr (fl_to_int lib f)
   | VInt i \<Rightarrow> Inr i
   | VString s \<Rightarrow> parse_int64 s
   | VBool b \<Rightarrow> Inr (if b then 1 else 0)
   | VNil \<Rightarrow> Inr 0
   | _ \<Rightarrow> Inl (NewError (''cannot convert '' @ type_name v @ '' to int'')))"

text \<open>Walking a dotted path through nested maps; a missing key gives nil.\<close>

fun resolve_parts :: "'f go_value \<Rightarrow> string list \<Rightarrow> 'f go_value" where
  "resolve_parts v [] = v"
| "resolve_parts v (p # ps) = (case v of
     VMap m \<Rightarrow> (case map_of m p of None \<Rightarrow> VNil | Some v \<Rightarrow> resolve_parts v ps)
   | _ \<Rightarrow> VNil)"

definition resolveField :: "(string \<times> 'f go_value) list \<Rightarrow> string \<Rightarrow> 'f go_value" where
  "resolveField data path = resolve_parts (VMap data) (go_split path ''.'')"

section \<open>Operators\<close>

definition add_values :: "'f go_lib \<Rightarrow> 'f go_value \<Rightarrow> 'f go_value \<Rightarrow> 'f go_value result" where
  "add_values lib left right = (case (left, right) of
     (VString ls, VString rs) \<Rightarrow> Inr (VString (ls @ rs))
   | (VString ls, _) \<Rightarrow> Inr (VString (ls @ print_v lib right))
   | (_, VString rs) \<Rightarrow> Inr (VString (print_v lib left @ rs))
   | _ \<Rightarrow> (case (toFloat lib left, toFloat lib right) of
       (Inr lf, Inr rf) \<Rightarrow> Inr (VFloat (fl_add lib lf rf))
     | _ \<Rightarrow> Inl (NewError (''cannot add '' @ type_name left @ '' and '' @ type_name right))))"

definition sub_values :: "'f go_lib \<Rightarrow> 'f go_value \<Rightarrow> 'f go_value \<Rightarrow> 'f go_value result" where
  "sub_values lib left right = (case (toFloat lib left, toFloat lib right) of
       (Inr lf, Inr rf) \<Rightarrow> Inr (VFloat (fl_sub lib lf rf))
     | _ \<Rightarrow> Inl (NewError (''cannot subtract '' @ type_name left @ '' and '' @ type_name right)))"

definition mul_values :: "'f go_lib \<Rightarrow> token_type \<Rightarrow> 'f go_value \<Rightarrow> 'f go_value \<Rightarrow> 'f go_value result" where
  "mul_values lib ty left right = (case (toFloat lib left, toFloat lib right) of
       (Inr lf, Inr rf) \<Rightarrow>
         if ty = tokStar then Inr (VFloat (fl_mul lib lf rf))
         else if fl_is_zero lib rf then Inl (NewError ''division by zero'')
         else Inr (VFloat (fl_div lib lf rf))
     | _ \<Rightarrow> Inl (NewError (''cannot perform arithmetic on '' @ type_name left @ '' and '' @ type_name right)))"

definition neg_value :: "'f go_lib \<Rightarrow> 'f go_value \<Rightarrow> 'f go_value result" where
  "neg_value lib v = (case toFloat lib v of
     Inl _ \<Rightarrow> Inl (NewError (''cannot negate '' @ type_name v))
   | Inr f \<Rightarrow> Inr (VFloat (fl_neg lib f)))"

definition number_value :: "'f go_lib \<Rightarrow> string \<Rightarrow> 'f go_value result" where
  "number_value lib t = (case fl_parse lib t of
     Inl e \<Rightarrow> Inl (Wrapped (''invalid number '' @ quoted t @ '': '') e)
   | Inr f \<Rightarrow> Inr (VFloat f))"

section \<open>The parser\<close>

definition peek :: "token list \<Rightarrow> token" where
  "peek ts = (case ts of [] \<Rightarrow> (tokEOF, []) | t # _ \<Rightarrow> t)"

definition advance :: "token list \<Rightarrow> token list" where
  "advance ts = tl ts"

text \<open>Going on with the value and the tokens of a step; anything else ends the parse.\<close>

definition and_then :: "'a outcome \<times> token list \<Rightarrow> ('a \<Rightarrow> token list \<Rightarrow> 'b outcome \<times> token list)
    \<Rightarrow> 'b outcome \<times> token list" where
  "and_then r f = (case fst r of
     Returns v \<Rightarrow> f v (snd r)
   | Fails err \<Rightarrow> (Fails err, snd r)
   | Panics \<Rightarrow> (Panics, snd r)
   | OutOfFuel \<Rightarrow> (OutOfFuel, snd r))"

definition yield :: "'a result \<Rightarrow> token list \<Rightarrow> 'a outcome \<times> token list" where
  "yield r ts = (outcome_of (Some r), ts)"

definition expected :: "string \<Rightarrow> string \<Rightarrow> go_error" where
  "expected token rest = NewError (''expected '' @ [CHR 0x27] @ token @ [CHR 0x27] @ rest)"

definition call_function :: "'f expr_engine \<Rightarrow> string \<Rightarrow> 'f go_value list \<Rightarrow> token list
    \<Rightarrow> 'f go_value outcome \<times> token list" where
  "call_function e name args ts =
    (if fst (peek ts) \<noteq> tokRParen
     then (Fails (expected '')'' ('' after arguments to '' @ quoted name)), ts)
     else (case getFunc e name of
         None \<Rightarrow> (Fails (NewError (''unknown function '' @ quoted name)), advance ts)
       | Some fn \<Rightarrow> (outcome_of (fn args), advance ts)))"

definition close_paren :: "'f go_value \<Rightarrow> token list \<Rightarrow> 'f go_value outcome \<times> token list" where
  "close_paren v ts = (if fst (peek ts) \<noteq> tokRParen then (Fails (expected '')'' []), ts) else (Returns v, advance ts))"

definition word_value :: "string \<Rightarrow> 'f go_value option" where
  "word_value name = (if name = ''true'' then Some (VBool True) else if name = ''false'' then Some (VBool False)
     else if name = ''null'' \<or> name = ''nil'' then Some VNil else None)"

text \<open>\<open>parsePrimary\<close> on the tokens that need no recursion; \<open>None\<close> for a call and a parenthesis.\<close>

definition simple_primary :: "'f expr_engine \<Rightarrow> (string \<times> 'f go_value) list \<Rightarrow> token list
    \<Rightarrow> ('f go_value outcome \<times> token list) option" where
  "simple_primary e data ts = (case peek ts of
     (tokNumber, val) \<Rightarrow> Some (yield (number_value (ee_lib e) val) (advance ts))
   | (tokString, val) \<Rightarrow> Some (Returns (VString val), advance ts)
   | (tokField, val) \<Rightarrow> Some (Returns (resolveField data val), advance ts)
   | (tokIdent, name) \<Rightarrow> (case word_value name of
        Some v \<Rightarrow> Some (Returns v, advance ts)
      | None \<Rightarrow> if fst (peek (advance ts)) \<noteq> tokLParen
               then Some (Fails (expected ''('' ('' after function name '' @ quoted name)), advance ts)
               else None)
   | (tokLParen, _) \<Rightarrow> None
   | (_, val) \<Rightarrow> Some (Fails (NewError (''unexpected token '' @ quoted val)), ts))"

text \<open>
  The parser methods, each over the method it calls: \<open>p\<close> is \<open>parsePrimary\<close> in \<open>parseUnary\<close> and
  \<open>parseTerm\<close>, \<open>parseUnary\<close> in \<open>term_loop\<close>, \<open>parseTerm\<close> in \<open>expr_loop\<close> and \<open>parseExpression\<close> in
  \<open>parse_args\<close>. \<open>parsePrimary\<close> closes the circle with one unit of fuel less.
\<close>

definition parseUnary :: "'f go_lib \<Rightarrow> (token list \<Rightarrow> 'f go_value outcome \<times> token list)
    \<Rightarrow> token list \<Rightarrow> 'f go_value outcome \<times> token list" where
  "parseUnary lib p ts =
    (if fst (peek ts) = tokMinus
     then and_then (p (advance ts)) (\<lambda>v. yield (neg_value lib v))
     else p ts)"

fun term_loop :: "'f go_lib \<Rightarrow> (token list \<Rightarrow> 'f go_value outcome \<times> token list) \<Rightarrow> nat \<Rightarrow> 'f go_value
    \<Rightarrow> token list \<Rightarrow> 'f go_value outcome \<times> token list" where
  "term_loop lib p 0 left ts = (OutOfFuel, ts)"
| "term_loop lib p (Suc n) left ts =
    (if fst (peek ts) = tokStar \<or> fst (peek ts) = tokSlash then
       and_then (p (advance ts)) (\<lambda>right ts'.
         and_then (yield (mul_values lib (fst (peek ts)) left right) ts') (term_loop lib p n))
     else (Returns left, ts))"

definition parseTerm :: "'f go_lib \<Rightarrow> (token list \<Rightarrow> 'f go_value outcome \<times> token list) \<Rightarrow> nat
    \<Rightarrow> token list \<Rightarrow> 'f go_value outcome \<times> token list" where
  "parseTerm lib p n ts = and_then (parseUnary lib p ts) (term_loop lib (parseUnary lib p) n)"

fun expr_loop :: "'f go_lib \<Rightarrow> (token list \<Rightarrow> 'f go_value outcome \<times> token list) \<Rightarrow> nat \<Rightarrow> 'f go_value
    \<Rightarrow> token list \<Rightarrow> 'f go_value outcome \<times> token list" where
  "expr_loop lib p 0 left ts = (OutOfFuel, ts)"
| "expr_loop lib p (Suc n) left ts =
    (if fst (peek ts) = tokPlus \<or> fst (peek ts) = tokMinus then
       and_then (p (advance ts)) (\<lambda>right ts'.
         and_then (yield (if fst (peek ts) = tokPlus then add_values lib left right else sub_values lib left right) ts')
           (expr_loop lib p n))
     else (Returns left, ts))"

definition parse_expr :: "'f go_lib \<Rightarrow> (token list \<Rightarrow> 'f go_value outcome \<times> token list) \<Rightarrow> nat
    \<Rightarrow> token list \<Rightarrow> 'f go_value outcome \<times> token list" where
  "parse_expr lib p n ts = and_then (parseTerm lib p n ts) (expr_loop lib (parseTerm lib p n) n)"

fun parse_args :: "(token list \<Rightarrow> 'f go_value outcome \<times> token list) \<Rightarrow> nat \<Rightarrow> 'f go_value list
    \<Rightarrow> token list \<Rightarrow> 'f go_value list outcome \<times> token list" where
  "parse_args p 0 args ts = (OutOfFuel, ts)"
| "parse_args p (Suc n) args ts =
     and_then (p ts) (\<lambda>v ts'.
       if fst (peek ts') = tokComma then parse_args p n (args @ [v]) (advance ts')
       else (Returns (args @ [v]), ts'))"

primrec parsePrimary :: "'f expr_engine \<Rightarrow> (string \<times> 'f go_value) list \<Rightarrow> nat \<Rightarrow> token list
      \<Rightarrow> 'f go_value outcome \<times> token list" where
  "parsePrimary e data 0 = (\<lambda>ts. (OutOfFuel, ts))"
| "parsePrimary e data (Suc n) = (\<lambda>ts. case simple_primary e data ts of
     Some r \<Rightarrow> r
   | None \<Rightarrow>
      if fst (peek ts) = tokLParen
      then and_then (parse_expr (ee_lib e) (parsePrimary e data n) n (advance ts)) close_paren
      else and_then
        (if fst (peek (advance (advance ts))) = tokRParen then (Returns [], advance (advance ts))
         else parse_args (parse_expr (ee_lib e) (parsePrimary e data n) n) n [] (advance (advance ts)))
        (call_function e (snd (peek ts))))"

definition parseExpression :: "'f expr_engine \<Rightarrow> (string \<times> 'f go_value) list \<Rightarrow> nat \<Rightarrow> token list
      \<Rightarrow> 'f go_value outcome \<times> token list" where
  "parseExpression e data n = parse_expr (ee_lib e) (parsePrimary e data n) n"

definition parse_fuel :: "token list \<Rightarrow> nat" where
  "parse_fuel ts = length ts + 1"

definition Evaluate :: "'f expr_engine \<Rightarrow> string \<Rightarrow> (string \<times> 'f go_value) list \<Rightarrow> 'f go_value outcome" where
  "Evaluate e expr data =
    (let expr = trim_space expr
     in if expr = [] then Fails (NewError ''empty expression'')
        else case tokenize expr of
            Inl err \<Rightarrow> Fails (Wrapped ''tokenize: '' err)
          | Inr tokens \<Rightarrow> (case fst (parseExpression e data (parse_fuel tokens) tokens) of
              Fails err \<Rightarrow> Fails (Wrapped (''evaluate '' @ quoted expr @ '': '') err)
            | r \<Rightarrow> r))"

section \<open>Built-in functions\<close>

definition arity_error :: "string \<Rightarrow> string \<Rightarrow> 'a list \<Rightarrow> 'f go_value result option" where
  "arity_error name needs args = Some (Inl (NewError (name @ '' requires '' @ needs @ '', got '' @ show_nat (length args))))"

text \<open>A function of one string.\<close>

definition string_func :: "'f go_lib \<Rightarrow> string \<Rightarrow> (string \<Rightarrow> string) \<Rightarrow> 'f expr_func" where
  "string_func lib name f args = (case args of
     [a] \<Rightarrow> Some (Inr (VString (f (toString lib a))))
   | _ \<Rightarrow> arity_error name ''1 argument'' args)"

definition fn_concat :: "'f go_lib \<Rightarrow> 'f expr_func" where
  "fn_concat lib args = Some (Inr (VString (concat (map (toString lib) args))))"

definition fn_split :: "'f go_lib \<Rightarrow> 'f expr_func" where
  "fn_split lib args = (case args of
     [a, b] \<Rightarrow> Some (Inr (VArray (map VString (go_split (toString lib a) (toString lib b)))))
   | _ \<Rightarrow> arity_error ''split'' ''2 arguments'' args)"

definition fn_join :: "'f go_lib \<Rightarrow> 'f expr_func" where
  "fn_join lib args = (case args of
     [a, b] \<Rightarrow> (case a of
        VArray vs \<Rightarrow> Some (Inr (VString (join_with (toString lib b) (map (toString lib) vs))))
      | _ \<Rightarrow> Some (Inl (NewError ''join first argument must be an array'')))
   | _ \<Rightarrow> arity_error ''join'' ''2 arguments (array, separator)'' args)"

fun fn_coalesce :: "'f expr_func" where
  "fn_coalesce [] = Some (Inr VNil)"
| "fn_coalesce (a # args) = (if a = VNil \<or> a = VString [] then fn_coalesce args else Some (Inr a))"

definition fn_if_null :: "'f expr_func" where
  "fn_if_null args = (case args of
     [a, b] \<Rightarrow> Some (Inr (if a = VNil then b else a))
   | _ \<Rightarrow> arity_error ''if_null'' ''2 arguments'' args)"

definition fn_to_int :: "'f go_lib \<Rightarrow> 'f expr_func" where
  "fn_to_int lib args = (case args of
     [a] \<Rightarrow> Some (case toInt lib a of Inl e \<Rightarrow> Inl (Wrapped ''to_int: '' e) | Inr i \<Rightarrow> Inr (VFloat (fl_of_int lib i)))
   | _ \<Rightarrow> arity_error ''to_int'' ''1 argument'' args)"

definition fn_to_float :: "'f go_lib \<Rightarrow> 'f expr_func" where
  "fn_to_float lib args = (case args of
     [a] \<Rightarrow> Some (case toFloat lib a of Inl e \<Rightarrow> Inl (Wrapped ''to_float: '' e) | Inr f \<Rightarrow> Inr (VFloat f))
   | _ \<Rightarrow> arity_error ''to_float'' ''1 argument'' args)"

definition fn_to_bool :: "'f go_lib \<Rightarrow> 'f expr_func" where
  "fn_to_bool lib args = (case args of
     [a] \<Rightarrow> Some (Inr (VBool (toBool lib a)))
   | _ \<Rightarrow> arity_error ''to_bool'' ''1 argument'' args)"

definition fn_now :: "'f go_lib \<Rightarrow> 'f expr_func" where
  "fn_now lib args = Some (Inr (VString (time_format lib RFC3339 (utc (clock_now lib)))))"

text \<open>The layouts of \<open>parseFlexibleDate\<close>, RFC 1123 and RFC 822 at the end.\<close>

definition flexible_layouts :: "string list" where
  "flexible_layouts = [RFC3339, RFC3339Nano, ''2006-01-02T15:04:05'', ''2006-01-02 15:04:05'', ''2006-01-02'',
     ''01/02/2006'', ''02-Jan-2006'', ''Jan 2, 2006'', ''Mon, 02 Jan 2006 15:04:05 MST'', ''02 Jan 06 15:04 MST'']"

definition parseFlexibleDate :: "'f go_lib \<Rightarrow> string \<Rightarrow> date_time result" where
  "parseFlexibleDate lib s = (case first_parse lib flexible_layouts s of
     Some t \<Rightarrow> Inr t
   | None \<Rightarrow> Inl (NewError (''unrecognized date format: '' @ s)))"

definition convertDateFormat :: "string \<Rightarrow> string" where
  "convertDateFormat format = run_replacer [(''YYYY'', ''2006''), (''YY'', ''06''), (''MM'', ''01''), (''DD'', ''02''),
     (''HH'', ''15''), (''mm'', ''04''), (''ss'', ''05''), (''SSS'', ''000'')] format"

definition fn_format_date :: "'f go_lib \<Rightarrow> 'f expr_func" where
  "fn_format_date lib args = (case args of
     [a, b] \<Rightarrow> (let dateStr = toString lib a in Some (case parseFlexibleDate lib dateStr of
        Inl e \<Rightarrow> Inl (Wrapped (''format_date: cannot parse '' @ quoted dateStr @ '': '') e)
      | Inr t \<Rightarrow> Inr (VString (time_format lib (convertDateFormat (toString lib b)) t))))
   | _ \<Rightarrow> arity_error ''format_date'' ''2 arguments (date_string, format)'' args)"

definition fn_parse_date :: "'f go_lib \<Rightarrow> 'f expr_func" where
  "fn_parse_date lib args =
    (if length args < 1 \<or> length args > 2 then arity_error ''parse_date'' ''1-2 arguments'' args
     else let dateStr = toString lib (hd args) in Some (case parseFlexibleDate lib dateStr of
        Inl e \<Rightarrow> Inl (Wrapped (''parse_date: cannot parse '' @ quoted dateStr @ '': '') e)
      | Inr t \<Rightarrow> Inr (VString (time_format lib RFC3339 (utc t)))))"

text \<open>The slice expression \<open>runes[start:end]\<close> panics when its bounds are out of order.\<close>

definition slice_runes :: "string list \<Rightarrow> int \<Rightarrow> int \<Rightarrow> string option" where
  "slice_runes runes start end' =
    (if 0 \<le> start \<and> start \<le> end' \<and> end' \<le> int (length runes) then Some (concat (slice runes (nat start) (nat end'))) else None)"

definition fn_substring :: "'f go_lib \<Rightarrow> 'f expr_func" where
  "fn_substring lib args =
    (if length args < 2 \<or> length args > 3
     then arity_error ''substring'' ''2-3 arguments (string, start[, length])'' args
     else case toInt lib (args ! 1) of
         Inl e \<Rightarrow> Some (Inl (Wrapped ''substring start: '' e))
       | Inr start \<Rightarrow>
          (let runes = rune_texts (toString lib (args ! 0));
               start = (if start < 0 then 0 else start)
           in if start \<ge> int (length runes) then Some (Inr (VString []))
              else if length args = 3
              then (case toInt lib (args ! 2) of
                  Inl e \<Rightarrow> Some (Inl (Wrapped ''substring length: '' e))
                | Inr len \<Rightarrow>
                   (let end' = wrap64 (start + len);
                        end' = (if end' > int (length runes) then int (length runes) else end')
                    in map_option (\<lambda>s. Inr (VString s)) (slice_runes runes start end')))
              else map_option (\<lambda>s. Inr (VString s)) (slice_runes runes start (int (length runes)))))"

definition fn_replace :: "'f go_lib \<Rightarrow> 'f expr_func" where
  "fn_replace lib args = (case args of
     [a, b, c] \<Rightarrow> Some (Inr (VString (replace_all (toString lib a) (toString lib b) (toString lib c))))
   | _ \<Rightarrow> arity_error ''replace'' ''3 arguments (string, old, new)'' args)"

definition fn_regex_match :: "'f go_lib \<Rightarrow> 'f expr_func" where
  "fn_regex_match lib args = (case args of
     [a, b] \<Rightarrow> (let pattern = toString lib b in Some (case re_compile lib pattern of
        Inl e \<Rightarrow> Inl (Wrapped (''regex_match: invalid pattern '' @ quoted pattern @ '': '') e)
      | Inr m \<Rightarrow> Inr (VBool (m (toString lib a)))))
   | _ \<Rightarrow> arity_error ''regex_match'' ''2 arguments (string, pattern)'' args)"

definition registerBuiltins :: "'f go_lib \<Rightarrow> (string \<times> 'f expr_func) list" where
  "registerBuiltins lib = [
     (''concat'', fn_concat lib),
     (''upper'', string_func lib ''upper'' (map to_upper)),
     (''lower'', string_func lib ''lower'' (map to_lower)),
     (''trim'', string_func lib ''trim'' trim_space),
     (''split'', fn_split lib), (''join'', fn_join lib),
     (''coalesce'', fn_coalesce), (''if_null'', fn_if_null),
     (''to_string'', string_func lib ''to_string'' (\<lambda>s. s)),
     (''to_int'', fn_to_int lib), (''to_float'', fn_to_float lib), (''to_bool'', fn_to_bool lib),
     (''now'', fn_now lib), (''format_date'', fn_format_date lib), (''parse_date'', fn_parse_date lib),
     (''substring'', fn_substring lib), (''replace'', fn_replace lib), (''regex_match'', fn_regex_match lib)]"

definition NewExprEngine :: "'f go_lib \<Rightarrow> 'f expr_engine" where
  "NewExprEngine lib = \<lparr>ee_lib = lib, ee_funcs = map_of (registerBuiltins lib)\<rparr>"

section \<open>Fuel\<close>

text \<open>
  A parsing function is good up to a length when it does not run out of fuel on shorter token lists
  and consumes a token whenever it returns a value.
\<close>

definition good :: "nat \<Rightarrow> (token list \<Rightarrow> 'a outcome \<times> token list) \<Rightarrow> bool" where
  "good m p \<longleftrightarrow> (\<forall>ts. length ts \<le> m \<longrightarrow> fst (p ts) \<noteq> OutOfFuel \<and>
     (\<forall>v ts'. p ts = (Returns v, ts') \<longrightarrow> length ts' < length ts))"

lemma and_then_simps [simp]:
  "and_then (Returns v, ts) f = f v ts"
  "and_then (Fails err, ts) f = (Fails err, ts)"
  "and_then (Panics, ts) f = (Panics, ts)"
  "and_then (OutOfFuel, ts) f = (OutOfFuel, ts)"
  by (simp_all add: and_then_def)

lemma yield_simps [simp]: "yield (Inl err) ts = (Fails err, ts)" "yield (Inr v) ts = (Returns v, ts)"
  by (simp_all add: yield_def outcome_of_def)

lemma and_then_returns:
  "and_then r f = (Returns v, ts) \<longleftrightarrow> (\<exists>w ts'. r = (Returns w, ts') \<and> f w ts' = (Returns v, ts))"
  by (cases r; cases "fst r") auto

lemma and_then_fuel:
  "fst (and_then r f) = OutOfFuel \<longleftrightarrow> fst r = OutOfFuel \<or> (\<exists>w ts'. r = (Returns w, ts') \<and> fst (f w ts') = OutOfFuel)"
  by (cases r; cases "fst r") auto

lemma yield_returns: "yield r ts = (Returns v, ts') \<longleftrightarrow> r = Inr v \<and> ts' = ts"
  by (cases r) auto

lemma yield_fuel [simp]: "fst (yield r ts) \<noteq> OutOfFuel"
  by (cases r) auto

lemma outcome_of_fuel [simp]: "outcome_of r \<noteq> OutOfFuel"
  by (auto simp: outcome_of_def split: option.splits sum.splits)

lemma peek_simps [simp]: "peek [] = (tokEOF, [])" "peek (t # ts) = t"
  by (simp_all add: peek_def)

lemma advance_simps [simp]: "advance [] = []" "advance (t # ts) = ts"
  by (simp_all add: advance_def)

lemma length_advance: "length (advance ts) \<le> length ts"
  by (simp add: advance_def)

lemma advance_shorter: "fst (peek ts) \<noteq> tokEOF \<Longrightarrow> length (advance ts) < length ts"
  by (cases ts) auto

lemma goodD:
  "good m p \<Longrightarrow> length ts \<le> m \<Longrightarrow> fst (p ts) \<noteq> OutOfFuel"
  "good m p \<Longrightarrow> length ts \<le> m \<Longrightarrow> p ts = (Returns v, ts') \<Longrightarrow> length ts' < length ts"
  by (auto simp: good_def)

text \<open>With enough fuel the loops neither run out of it nor depend on it, nor on more than the tokens left.\<close>

lemma term_loop_fuel:
  assumes "good m p" "\<And>ts. length ts \<le> m \<Longrightarrow> q ts = p ts" "length ts \<le> Suc m" "length ts < n" "length ts < k"
  shows "term_loop lib q k v ts = term_loop lib p n v ts \<and> fst (term_loop lib p n v ts) \<noteq> OutOfFuel
    \<and> (\<forall>w ts'. term_loop lib p n v ts = (Returns w, ts') \<longrightarrow> length ts' \<le> length ts)"
  using assms(3-5)
proof (induction n arbitrary: k v ts)
  case (Suc n)
  obtain k' where k: "k = Suc k'" using Suc.prems(3) by (cases k) auto
  show ?case
  proof (cases "fst (peek ts) = tokStar \<or> fst (peek ts) = tokSlash")
    case True
    then have adv: "length (advance ts) < length ts" by (intro advance_shorter) auto
    then have le: "length (advance ts) \<le> m" using Suc.prems(1) by linarith
    note q = assms(2) [OF le] and g = goodD [OF assms(1) le]
    have IH: "term_loop lib q k' w us = term_loop lib p n w us \<and> fst (term_loop lib p n w us) \<noteq> OutOfFuel
        \<and> (\<forall>x ts'. term_loop lib p n w us = (Returns x, ts') \<longrightarrow> length ts' \<le> length us)"
      if "p (advance ts) = (Returns r, us)" for r w us
      by (rule Suc.IH) (use g(2) [OF that] adv Suc.prems k in linarith)+
    show ?thesis
    proof (cases "p (advance ts)")
      case (Pair o' us)
      show ?thesis
      proof (cases o')
        case (Returns r)
        note IH = IH [OF Pair [unfolded Returns]]
        have us: "length us \<le> length ts" using g(2) [OF Pair [unfolded Returns]] adv by linarith
        show ?thesis
          using True Pair Returns q k IH us
          by (cases "mul_values lib (fst (peek ts)) v r") (auto intro: order_trans)
      qed (use True Pair q k g(1) in auto)
    qed
  qed (simp add: k)
qed simp

lemma expr_loop_fuel:
  assumes "good m p" "\<And>ts. length ts \<le> m \<Longrightarrow> q ts = p ts" "length ts \<le> Suc m" "length ts < n" "length ts < k"
  shows "expr_loop lib q k v ts = expr_loop lib p n v ts \<and> fst (expr_loop lib p n v ts) \<noteq> OutOfFuel
    \<and> (\<forall>w ts'. expr_loop lib p n v ts = (Returns w, ts') \<longrightarrow> length ts' \<le> length ts)"
  using assms(3-5)
proof (induction n arbitrary: k v ts)
  case (Suc n)
  obtain k' where k: "k = Suc k'" using Suc.prems(3) by (cases k) auto
  show ?case
  proof (cases "fst (peek ts) = tokPlus \<or> fst (peek ts) = tokMinus")
    case True
    then have adv: "length (advance ts) < length ts" by (intro advance_shorter) auto
    then have le: "length (advance ts) \<le> m" using Suc.prems(1) by linarith
    note q = assms(2) [OF le] and g = goodD [OF assms(1) le]
    have IH: "expr_loop lib q k' w us = expr_loop lib p n w us \<and> fst (expr_loop lib p n w us) \<noteq> OutOfFuel
        \<and> (\<forall>x ts'. expr_loop lib p n w us = (Returns x, ts') \<longrightarrow> length ts' \<le> length us)"
      if "p (advance ts) = (Returns r, us)" for r w us
      by (rule Suc.IH) (use g(2) [OF that] adv Suc.prems k in linarith)+
    show ?thesis
    proof (cases "p (advance ts)")
      case (Pair o' us)
      show ?thesis
      proof (cases o')
        case (Returns r)
        note IH = IH [OF Pair [unfolded Returns]]
        have us: "length us \<le> length ts" using g(2) [OF Pair [unfolded Returns]] adv by linarith
        show ?thesis
          using True Pair Returns q k IH us
          by (cases "if fst (peek ts) = tokPlus then add_values lib v r else sub_values lib v r") (auto intro: order_trans)
      qed (use True Pair q k g(1) in auto)
    qed
  qed (simp add: k)
qed simp

lemma parse_args_fuel:
  assumes "good m p" "\<And>ts. length ts \<le> m \<Longrightarrow> q ts = p ts" "length ts \<le> m" "length ts < n" "length ts < k"
  shows "parse_args q k args ts = parse_args p n args ts \<and> fst (parse_args p n args ts) \<noteq> OutOfFuel
    \<and> (\<forall>w ts'. parse_args p n args ts = (Returns w, ts') \<longrightarrow> length ts' \<le> length ts)"
  using assms(3-5)
proof (induction n arbitrary: k args ts)
  case (Suc n)
  obtain k' where k: "k = Suc k'" using Suc.prems(3) by (cases k) auto
  note q = assms(2) [OF Suc.prems(1)] and g = goodD [OF assms(1) Suc.prems(1)]
  show ?case
  proof (cases "p ts")
    case (Pair o' us)
    show ?thesis
    proof (cases o')
      case (Returns r)
      have us: "length us < length ts" using g(2) [OF Pair [unfolded Returns]] .
      have adv: "length (advance us) < length ts" using us length_advance [of us] by linarith
      have IH: "parse_args q k' (args @ [r]) (advance us) = parse_args p n (args @ [r]) (advance us)
          \<and> fst (parse_args p n (args @ [r]) (advance us)) \<noteq> OutOfFuel
          \<and> (\<forall>x ts'. parse_args p n (args @ [r]) (advance us) = (Returns x, ts') \<longrightarrow> length ts' \<le> length (advance us))"
        by (rule Suc.IH) (use adv Suc.prems k in linarith)+
      show ?thesis using Pair Returns q k IH us adv by (auto intro: order_trans less_imp_le)
    qed (use Pair q k g(1) in auto)
  qed
qed simp

lemma good_mono: "good m p \<Longrightarrow> k \<le> m \<Longrightarrow> good k p"
  by (auto simp: good_def)

lemma good_unary: "good m p \<Longrightarrow> good m (parseUnary lib p)"
proof -
  assume g: "good m p"
  show ?thesis
    unfolding good_def
  proof (intro allI impI conjI)
    fix ts :: "token list" assume ts: "length ts \<le> m"
    then have adv: "length (advance ts) \<le> m" using length_advance [of ts] by linarith
    show "fst (parseUnary lib p ts) \<noteq> OutOfFuel"
      using goodD(1) [OF g ts] goodD(1) [OF g adv] by (auto simp: parseUnary_def and_then_fuel)
    fix v ts' assume "parseUnary lib p ts = (Returns v, ts')"
    then show "length ts' < length ts"
      using goodD(2) [OF g ts] goodD(2) [OF g adv] length_advance [of ts]
      by (fastforce simp: parseUnary_def and_then_returns yield_returns split: if_splits)
  qed
qed

lemma unary_cong: "(\<And>ts. length ts \<le> m \<Longrightarrow> q ts = p ts) \<Longrightarrow> length ts \<le> m \<Longrightarrow> parseUnary lib q ts = parseUnary lib p ts"
  using length_advance [of ts] by (auto simp: parseUnary_def)

lemma parseTerm_fuel:
  assumes "good m p" "\<And>ts. length ts \<le> m \<Longrightarrow> q ts = p ts" "m < n" "m < k"
  shows "good m (parseTerm lib p n)" and "length ts \<le> m \<Longrightarrow> parseTerm lib q k ts = parseTerm lib p n ts"
proof -
  note g = good_unary [OF assms(1), of lib]
  have loop: "term_loop lib (parseUnary lib q) k v us = term_loop lib (parseUnary lib p) n v us
      \<and> fst (term_loop lib (parseUnary lib p) n v us) \<noteq> OutOfFuel
      \<and> (\<forall>w ts'. term_loop lib (parseUnary lib p) n v us = (Returns w, ts') \<longrightarrow> length ts' \<le> length us)"
    if "length us \<le> m" for v us
    by (rule term_loop_fuel [OF g]) (use unary_cong [of m q p, OF assms(2)] that assms(3,4) in auto)
  have unary: "length us \<le> m" if "parseUnary lib p ts = (Returns v, us)" "length ts \<le> m" for v us and ts :: "token list"
    using goodD(2) [OF g that(2,1)] that(2) by linarith
  show "good m (parseTerm lib p n)"
    unfolding good_def
  proof (intro allI impI conjI)
    fix ts :: "token list" assume ts: "length ts \<le> m"
    show "fst (parseTerm lib p n ts) \<noteq> OutOfFuel"
      using goodD(1) [OF g ts] loop unary [OF _ ts] by (auto simp: parseTerm_def and_then_fuel)
    fix v ts' assume "parseTerm lib p n ts = (Returns v, ts')"
    then obtain w us where u: "parseUnary lib p ts = (Returns w, us)"
        "term_loop lib (parseUnary lib p) n w us = (Returns v, ts')"
      by (auto simp: parseTerm_def and_then_returns)
    then show "length ts' < length ts" using goodD(2) [OF g ts u(1)] loop unary [OF u(1) ts] by fastforce
  qed
  assume ts: "length ts \<le> m"
  show "parseTerm lib q k ts = parseTerm lib p n ts"
    using unary_cong [of m q p, OF assms(2) ts] loop unary [OF _ ts]
    by (cases "parseUnary lib p ts"; cases "fst (parseUnary lib p ts)") (auto simp: parseTerm_def)
qed

lemma parse_expr_fuel:
  assumes "good m p" "\<And>ts. length ts \<le> m \<Longrightarrow> q ts = p ts" "m < n" "m < k"
  shows "good m (parse_expr lib p n)" and "length ts \<le> m \<Longrightarrow> parse_expr lib q k ts = parse_expr lib p n ts"
proof -
  have g: "good m (parseTerm lib p n)" by (rule parseTerm_fuel(1) [OF assms])
  have cong: "parseTerm lib q k us = parseTerm lib p n us" if "length us \<le> m" for us
    by (rule parseTerm_fuel(2) [of m]) (use assms that in auto)
  have loop: "expr_loop lib (parseTerm lib q k) k v us = expr_loop lib (parseTerm lib p n) n v us
      \<and> fst (expr_loop lib (parseTerm lib p n) n v us) \<noteq> OutOfFuel
      \<and> (\<forall>w ts'. expr_loop lib (parseTerm lib p n) n v us = (Returns w, ts') \<longrightarrow> length ts' \<le> length us)"
    if "length us \<le> m" for v us
    by (rule expr_loop_fuel [OF g]) (use cong that assms(3,4) in auto)
  have inner: "length us \<le> m" if "parseTerm lib p n ts = (Returns v, us)" "length ts \<le> m" for v us and ts :: "token list"
    using goodD(2) [OF g that(2,1)] that(2) by linarith
  show "good m (parse_expr lib p n)"
    unfolding good_def
  proof (intro allI impI conjI)
    fix ts :: "token list" assume ts: "length ts \<le> m"
    show "fst (parse_expr lib p n ts) \<noteq> OutOfFuel"
      using goodD(1) [OF g ts] loop inner [OF _ ts] by (auto simp: parse_expr_def and_then_fuel)
    fix v ts' assume "parse_expr lib p n ts = (Returns v, ts')"
    then obtain w us where u: "parseTerm lib p n ts = (Returns w, us)"
        "expr_loop lib (parseTerm lib p n) n w us = (Returns v, ts')"
      by (auto simp: parse_expr_def and_then_returns)
    then show "length ts' < length ts" using goodD(2) [OF g ts u(1)] loop inner [OF u(1) ts] by fastforce
  qed
  assume ts: "length ts \<le> m"
  show "parse_expr lib q k ts = parse_expr lib p n ts"
    using cong [OF ts] loop inner [OF _ ts]
    by (cases "parseTerm lib p n ts"; cases "fst (parseTerm lib p n ts)") (auto simp: parse_expr_def)
qed

lemma simple_primary_good:
  "simple_primary e data ts = Some r \<Longrightarrow> fst r \<noteq> OutOfFuel \<and> (\<forall>v ts'. r = (Returns v, ts') \<longrightarrow> length ts' < length ts)"
  by (cases ts; cases "fst (peek ts)")
    (auto simp: simple_primary_def yield_returns split: option.splits if_splits token_type.splits)

lemma simple_primary_None:
  "simple_primary e data ts = None \<Longrightarrow> fst (peek ts) = tokLParen \<or>
     fst (peek ts) = tokIdent \<and> fst (peek (advance ts)) = tokLParen"
  by (auto simp: simple_primary_def split: option.splits if_splits token_type.splits prod.splits)

lemma parsePrimary_Suc:
  "parsePrimary e data (Suc n) ts = (case simple_primary e data ts of
     Some r \<Rightarrow> r
   | None \<Rightarrow>
      if fst (peek ts) = tokLParen
      then and_then (parse_expr (ee_lib e) (parsePrimary e data n) n (advance ts)) close_paren
      else and_then
        (if fst (peek (advance (advance ts))) = tokRParen then (Returns [], advance (advance ts))
         else parse_args (parse_expr (ee_lib e) (parsePrimary e data n) n) n [] (advance (advance ts)))
        (call_function e (snd (peek ts))))"
  by simp

declare parsePrimary.simps(2) [simp del]

lemma primary_fuel:
  "good m (parsePrimary e data (Suc m))
   \<and> (\<forall>ts k. length ts \<le> m \<longrightarrow> m < k \<longrightarrow> parsePrimary e data k ts = parsePrimary e data (Suc m) ts)"
proof (induction m)
  case 0
  have "simple_primary e data [] = Some (Fails (NewError (''unexpected token '' @ quoted [])), [])"
    by (simp add: simple_primary_def)
  then show ?case by (auto simp: good_def gr0_conv_Suc parsePrimary_Suc)
next
  case (Suc m)
  let ?p = "parsePrimary e data (Suc m)"
  let ?x = "parse_expr (ee_lib e) ?p (Suc m)"
  have cong: "parsePrimary e data k ts = ?p ts" if "length ts \<le> m" "m < k" for k ts
    using Suc.IH that by blast
  have x_good: "good m ?x"
    by (rule parse_expr_fuel(1) [OF Suc.IH [THEN conjunct1] refl]) auto
  have x_cong: "parse_expr (ee_lib e) (parsePrimary e data k) k ts = ?x ts" if "length ts \<le> m" "m < k" for k ts
  proof (rule parse_expr_fuel(2) [OF Suc.IH [THEN conjunct1]])
    show "parsePrimary e data k us = ?p us" if "length us \<le> m" for us using that \<open>m < k\<close> by (rule cong)
  qed (rule lessI that)+
  have args: "parse_args (parse_expr (ee_lib e) (parsePrimary e data k) k) k [] ts = parse_args ?x (Suc m) [] ts
      \<and> fst (parse_args ?x (Suc m) [] ts) \<noteq> OutOfFuel
      \<and> (\<forall>w ts'. parse_args ?x (Suc m) [] ts = (Returns w, ts') \<longrightarrow> length ts' \<le> length ts)"
    if "length ts \<le> m" "m < k" for k ts
  proof (rule parse_args_fuel [OF x_good])
    show "parse_expr (ee_lib e) (parsePrimary e data k) k us = ?x us" if "length us \<le> m" for us
      using that \<open>m < k\<close> by (rule x_cong)
  qed (use that in linarith)+
  have short: "length (advance ts) < length ts \<and> length (advance ts) \<le> m
      \<and> (fst (peek ts) \<noteq> tokLParen \<longrightarrow> length (advance (advance ts)) < length ts \<and> length (advance (advance ts)) \<le> m)"
    if "simple_primary e data ts = None" "length ts \<le> Suc m" for ts
    using simple_primary_None [OF that(1)] advance_shorter [of ts] that(2) length_advance [of "advance ts"] by auto
  have close: "fst (close_paren v us) \<noteq> OutOfFuel"
      "close_paren v us = (Returns w, us') \<Longrightarrow> length us' \<le> length us" for v w :: "'a go_value" and us us'
    using length_advance [of us] by (auto simp: close_paren_def split: if_splits)
  have call: "fst (call_function e name vs us) \<noteq> OutOfFuel"
      "call_function e name vs us = (Returns w, us') \<Longrightarrow> length us' \<le> length us" for name vs w us us'
    using length_advance [of us] by (auto simp: call_function_def split: if_splits option.splits)
  have step: "parsePrimary e data (Suc k) ts = parsePrimary e data (Suc (Suc m)) ts"
    if "length ts \<le> Suc m" "m < k" for k ts
  proof (cases "simple_primary e data ts")
    case None
    note sh = short [OF None that(1)]
    have 1: "parse_expr (ee_lib e) (parsePrimary e data k) k (advance ts) = ?x (advance ts)"
      using x_cong sh that(2) by blast
    have 2: "parse_args (parse_expr (ee_lib e) (parsePrimary e data k) k) k [] (advance (advance ts))
        = parse_args ?x (Suc m) [] (advance (advance ts))" if "fst (peek ts) \<noteq> tokLParen"
      using args sh that \<open>m < k\<close> by blast
    show ?thesis
      unfolding parsePrimary_Suc [of e data k ts] parsePrimary_Suc [of e data "Suc m" ts] None option.case 1
      using 2 by (cases "fst (peek ts) = tokLParen") simp_all
  qed (simp add: parsePrimary_Suc)
  have "good (Suc m) (parsePrimary e data (Suc (Suc m)))"
    unfolding good_def
  proof (intro allI impI conjI)
    fix ts :: "token list" assume ts: "length ts \<le> Suc m"
    show "fst (parsePrimary e data (Suc (Suc m)) ts) \<noteq> OutOfFuel"
    proof (cases "simple_primary e data ts")
      case None
      note sh = short [OF None ts] and a = args [of "advance (advance ts)" "Suc m"]
      show ?thesis
        unfolding parsePrimary_Suc [of e data "Suc m" ts] None option.case
        using sh a goodD(1) [OF x_good, of "advance ts"]
        by (cases "fst (peek ts) = tokLParen"; cases "fst (peek (advance (advance ts))) = tokRParen")
          (simp_all add: and_then_fuel close call)
    qed (use simple_primary_good [of e data ts] in \<open>auto simp: parsePrimary_Suc [of e data "Suc m"]\<close>)
    fix v ts' assume r: "parsePrimary e data (Suc (Suc m)) ts = (Returns v, ts')"
    show "length ts' < length ts"
    proof (cases "simple_primary e data ts")
      case None
      note sh = short [OF None ts]
      show ?thesis
      proof (cases "fst (peek ts) = tokLParen")
        case True
        with r None obtain w us where x: "?x (advance ts) = (Returns w, us)" "close_paren w us = (Returns v, ts')"
          by (auto simp: and_then_returns simp: parsePrimary_Suc [of e data "Suc m"])
        with goodD(2) [OF x_good _ x(1)] close(2) [OF x(2)] sh show ?thesis by linarith
      next
        case False
        with r None obtain ws us where x: "(if fst (peek (advance (advance ts))) = tokRParen then (Returns [], advance (advance ts))
            else parse_args ?x (Suc m) [] (advance (advance ts))) = (Returns ws, us)"
            "call_function e (snd (peek ts)) ws us = (Returns v, ts')"
          by (auto simp: and_then_returns simp: parsePrimary_Suc [of e data "Suc m"])
        have "length us \<le> length (advance (advance ts))"
          using x(1) args [of "advance (advance ts)" "Suc m"] sh False by (auto split: if_splits)
        with call(2) [OF x(2)] sh False show ?thesis by linarith
      qed
    qed (use simple_primary_good [of e data ts] r in \<open>auto simp: parsePrimary_Suc [of e data "Suc m"]\<close>)
  qed
  then show ?case using step by (metis Suc_lessE le_less_trans lessI)
qed

section \<open>The parser without fuel\<close>

text \<open>
  With the fuel \<open>Evaluate\<close> gives, the methods satisfy the recursion equations of the source, in which
  there is no fuel.
\<close>

definition run_primary :: "'f expr_engine \<Rightarrow> (string \<times> 'f go_value) list \<Rightarrow> token list \<Rightarrow> 'f go_value outcome \<times> token list" where
  "run_primary e data ts = parsePrimary e data (Suc (length ts)) ts"

definition run_unary :: "'f expr_engine \<Rightarrow> (string \<times> 'f go_value) list \<Rightarrow> token list \<Rightarrow> 'f go_value outcome \<times> token list" where
  "run_unary e data = parseUnary (ee_lib e) (run_primary e data)"

definition run_term_loop :: "'f expr_engine \<Rightarrow> (string \<times> 'f go_value) list \<Rightarrow> 'f go_value \<Rightarrow> token list
    \<Rightarrow> 'f go_value outcome \<times> token list" where
  "run_term_loop e data v ts = term_loop (ee_lib e) (run_unary e data) (Suc (length ts)) v ts"

definition run_term :: "'f expr_engine \<Rightarrow> (string \<times> 'f go_value) list \<Rightarrow> token list \<Rightarrow> 'f go_value outcome \<times> token list" where
  "run_term e data ts = and_then (run_unary e data ts) (run_term_loop e data)"

definition run_expr_loop :: "'f expr_engine \<Rightarrow> (string \<times> 'f go_value) list \<Rightarrow> 'f go_value \<Rightarrow> token list
    \<Rightarrow> 'f go_value outcome \<times> token list" where
  "run_expr_loop e data v ts = expr_loop (ee_lib e) (run_term e data) (Suc (length ts)) v ts"

definition run_expr :: "'f expr_engine \<Rightarrow> (string \<times> 'f go_value) list \<Rightarrow> token list \<Rightarrow> 'f go_value outcome \<times> token list" where
  "run_expr e data ts = and_then (run_term e data ts) (run_expr_loop e data)"

definition run_args :: "'f expr_engine \<Rightarrow> (string \<times> 'f go_value) list \<Rightarrow> 'f go_value list \<Rightarrow> token list
    \<Rightarrow> 'f go_value list outcome \<times> token list" where
  "run_args e data args ts = parse_args (run_expr e data) (Suc (length ts)) args ts"

lemma and_then_cong [fundef_cong]:
  "r = r' \<Longrightarrow> (\<And>v ts. r' = (Returns v, ts) \<Longrightarrow> f v ts = g v ts) \<Longrightarrow> and_then r f = and_then r' g"
  by (cases r'; cases "fst r'") auto

lemma parsePrimary_run: "length ts < k \<Longrightarrow> parsePrimary e data k ts = run_primary e data ts"
  unfolding run_primary_def using primary_fuel [of "length ts" e data] by blast

lemma good_cong: "good m p \<Longrightarrow> (\<And>ts. length ts \<le> m \<Longrightarrow> p ts = q ts) \<Longrightarrow> good m q"
  by (simp add: good_def)

lemma good_run_primary: "good m (run_primary e data)"
  by (rule good_cong [OF primary_fuel [THEN conjunct1], of m e data]) (simp add: parsePrimary_run)

lemma good_run_unary: "good m (run_unary e data)"
  unfolding run_unary_def by (rule good_unary [OF good_run_primary])

lemma term_loop_run:
  assumes "\<And>us. length us \<le> length ts \<Longrightarrow> q us = run_unary e data us" "length ts < k"
  shows "term_loop (ee_lib e) q k v ts = run_term_loop e data v ts"
proof -
  have "term_loop (ee_lib e) q k v ts = term_loop (ee_lib e) (run_unary e data) (Suc (length ts)) v ts
      \<and> fst (term_loop (ee_lib e) (run_unary e data) (Suc (length ts)) v ts) \<noteq> OutOfFuel
      \<and> (\<forall>w ts'. term_loop (ee_lib e) (run_unary e data) (Suc (length ts)) v ts = (Returns w, ts')
           \<longrightarrow> length ts' \<le> length ts)"
    by (rule term_loop_fuel [OF good_run_unary [of "length ts"]]) (simp_all add: assms)
  then show ?thesis by (simp add: run_term_loop_def)
qed

lemma run_term_eq: "m < k \<Longrightarrow> length ts \<le> m \<Longrightarrow> parseTerm (ee_lib e) (run_primary e data) k ts = run_term e data ts"
  unfolding parseTerm_def run_term_def run_unary_def [symmetric]
  by (rule and_then_cong [OF refl], rule term_loop_run)
    (auto dest: goodD(2) [OF good_run_unary [of m], rotated])

lemma good_run_term: "good m (run_term e data)"
proof -
  have "good m (parseTerm (ee_lib e) (run_primary e data) (Suc m))"
    by (rule parseTerm_fuel(1) [OF good_run_primary refl]) auto
  then show ?thesis by (rule good_cong) (simp add: run_term_eq [of m])
qed

lemma expr_loop_run:
  assumes "\<And>us. length us \<le> length ts \<Longrightarrow> q us = run_term e data us" "length ts < k"
  shows "expr_loop (ee_lib e) q k v ts = run_expr_loop e data v ts"
proof -
  have "expr_loop (ee_lib e) q k v ts = expr_loop (ee_lib e) (run_term e data) (Suc (length ts)) v ts
      \<and> fst (expr_loop (ee_lib e) (run_term e data) (Suc (length ts)) v ts) \<noteq> OutOfFuel
      \<and> (\<forall>w ts'. expr_loop (ee_lib e) (run_term e data) (Suc (length ts)) v ts = (Returns w, ts')
           \<longrightarrow> length ts' \<le> length ts)"
    by (rule expr_loop_fuel [OF good_run_term [of "length ts"]]) (simp_all add: assms)
  then show ?thesis by (simp add: run_expr_loop_def)
qed

lemma run_expr_eq:
  assumes "m < k" "length ts \<le> m"
  shows "parse_expr (ee_lib e) (run_primary e data) k ts = run_expr e data ts"
  unfolding parse_expr_def run_expr_def run_term_eq [OF assms]
proof (rule and_then_cong [OF refl], rule expr_loop_run)
  fix v us and vs :: "token list" assume "run_term e data ts = (Returns v, us)"
  then have us: "length us < length ts" by (rule goodD(2) [OF good_run_term order_refl])
  then show "length us < k" using assms by linarith
  assume "length vs \<le> length us"
  then show "parseTerm (ee_lib e) (run_primary e data) k vs = run_term e data vs"
    using assms us by (intro run_term_eq [of m]) auto
qed

lemma good_run_expr: "good m (run_expr e data)"
proof -
  have "good m (parse_expr (ee_lib e) (run_primary e data) (Suc m))"
    by (rule parse_expr_fuel(1) [OF good_run_primary refl]) auto
  then show ?thesis by (rule good_cong) (simp add: run_expr_eq [of m])
qed

lemma parse_expr_run:
  assumes "length ts < k"
  shows "parse_expr (ee_lib e) (parsePrimary e data k) k ts = run_expr e data ts"
proof -
  have "parse_expr (ee_lib e) (parsePrimary e data k) k ts = parse_expr (ee_lib e) (run_primary e data) k ts"
    by (rule parse_expr_fuel(2) [OF good_run_primary, of "length ts"]) (simp_all add: assms parsePrimary_run le_less_trans [OF _ assms])
  then show ?thesis using run_expr_eq [OF assms order_refl] by simp
qed

lemma parse_args_run:
  assumes "\<And>us. length us \<le> length ts \<Longrightarrow> q us = run_expr e data us" "length ts < k"
  shows "parse_args q k args ts = run_args e data args ts"
proof -
  have "parse_args q k args ts = parse_args (run_expr e data) (Suc (length ts)) args ts
      \<and> fst (parse_args (run_expr e data) (Suc (length ts)) args ts) \<noteq> OutOfFuel
      \<and> (\<forall>w ts'. parse_args (run_expr e data) (Suc (length ts)) args ts = (Returns w, ts')
           \<longrightarrow> length ts' \<le> length ts)"
    by (rule parse_args_fuel [OF good_run_expr [of "length ts"]]) (simp_all add: assms)
  then show ?thesis by (simp add: run_args_def)
qed

text \<open>The equations.\<close>

lemma run_term_loop_eq:
  "run_term_loop e data left ts =
    (if fst (peek ts) = tokStar \<or> fst (peek ts) = tokSlash then
       and_then (run_unary e data (advance ts)) (\<lambda>right ts'.
         and_then (yield (mul_values (ee_lib e) (fst (peek ts)) left right) ts') (run_term_loop e data))
     else (Returns left, ts))"
proof -
  have "term_loop (ee_lib e) (run_unary e data) (length ts) w us = run_term_loop e data w us"
    if "run_unary e data (advance ts) = (Returns r, us)" "fst (peek ts) \<noteq> tokEOF" for r w us
    using goodD(2) [OF good_run_unary order_refl that(1)] advance_shorter [OF that(2)]
    by (intro term_loop_run) auto
  then show ?thesis
    unfolding run_term_loop_def [of e data left ts]
    by (auto intro!: and_then_cong simp: yield_returns)
qed

lemma run_expr_loop_eq:
  "run_expr_loop e data left ts =
    (if fst (peek ts) = tokPlus \<or> fst (peek ts) = tokMinus then
       and_then (run_term e data (advance ts)) (\<lambda>right ts'.
         and_then (yield (if fst (peek ts) = tokPlus then add_values (ee_lib e) left right
                          else sub_values (ee_lib e) left right) ts') (run_expr_loop e data))
     else (Returns left, ts))"
proof -
  have "expr_loop (ee_lib e) (run_term e data) (length ts) w us = run_expr_loop e data w us"
    if "run_term e data (advance ts) = (Returns r, us)" "fst (peek ts) \<noteq> tokEOF" for r w us
    using goodD(2) [OF good_run_term order_refl that(1)] advance_shorter [OF that(2)]
    by (intro expr_loop_run) auto
  then show ?thesis
    unfolding run_expr_loop_def [of e data left ts]
    by (auto intro!: and_then_cong simp: yield_returns)
qed

lemma run_args_eq:
  "run_args e data args ts =
     and_then (run_expr e data ts) (\<lambda>v ts'.
       if fst (peek ts') = tokComma then run_args e data (args @ [v]) (advance ts')
       else (Returns (args @ [v]), ts'))"
proof -
  have "parse_args (run_expr e data) (length ts) (args @ [v]) (advance us) = run_args e data (args @ [v]) (advance us)"
    if "run_expr e data ts = (Returns v, us)" for v us
    using goodD(2) [OF good_run_expr order_refl that] length_advance [of us]
    by (intro parse_args_run) auto
  then show ?thesis
    unfolding run_args_def [of e data args ts]
    by (auto intro!: and_then_cong)
qed

lemma run_primary_eq:
  "run_primary e data ts = (case simple_primary e data ts of
     Some r \<Rightarrow> r
   | None \<Rightarrow>
      if fst (peek ts) = tokLParen
      then and_then (run_expr e data (advance ts)) close_paren
      else and_then
        (if fst (peek (advance (advance ts))) = tokRParen then (Returns [], advance (advance ts))
         else run_args e data [] (advance (advance ts)))
        (call_function e (snd (peek ts))))"
proof (cases "simple_primary e data ts")
  case None
  then have adv: "length (advance ts) < length ts"
    using simple_primary_None [OF None] by (intro advance_shorter) auto
  have 1: "parse_expr (ee_lib e) (parsePrimary e data (length ts)) (length ts) us = run_expr e data us"
    if "length us < length ts" for us using that by (rule parse_expr_run)
  have 2: "parse_args (parse_expr (ee_lib e) (parsePrimary e data (length ts)) (length ts)) (length ts) []
      (advance (advance ts)) = run_args e data [] (advance (advance ts))"
    by (rule parse_args_run) (use 1 adv length_advance [of "advance ts"] in auto)
  show ?thesis
    unfolding run_primary_def parsePrimary_Suc None option.case 1 [OF adv] 2 ..
qed (simp add: run_primary_def parsePrimary_Suc)

lemma parseExpression_run: "length ts < k \<Longrightarrow> parseExpression e data k ts = run_expr e data ts"
  by (simp add: parseExpression_def parse_expr_run)

lemma Evaluate_run:
  "Evaluate e expr data = (if trim_space expr = [] then Fails (NewError ''empty expression'')
     else case tokenize (trim_space expr) of
         Inl err \<Rightarrow> Fails (Wrapped ''tokenize: '' err)
       | Inr tokens \<Rightarrow> (case fst (run_expr e data tokens) of
           Fails err \<Rightarrow> Fails (Wrapped (''evaluate '' @ quoted (trim_space expr) @ '': '') err)
         | r \<Rightarrow> r))"
  by (simp add: Evaluate_def Let_def parse_fuel_def parseExpression_run split: sum.split)

section \<open>The grammar\<close>

text \<open>Expression trees, their values, and their tokens with the fewest parentheses.\<close>

datatype expr_tree =
    SNumber string
  | SText string
  | SField string
  | SWord string
  | SNeg expr_tree
  | SBin token_type expr_tree expr_tree
  | SCall string "expr_tree list"

definition bind_outcome :: "'a outcome \<Rightarrow> ('a \<Rightarrow> 'b outcome) \<Rightarrow> 'b outcome" where
  "bind_outcome r f = (case r of Returns v \<Rightarrow> f v | Fails e \<Rightarrow> Fails e | Panics \<Rightarrow> Panics | OutOfFuel \<Rightarrow> OutOfFuel)"

definition binary_value :: "'f go_lib \<Rightarrow> token_type \<Rightarrow> 'f go_value \<Rightarrow> 'f go_value \<Rightarrow> 'f go_value result" where
  "binary_value lib ty = (if ty = tokPlus then add_values lib else if ty = tokMinus then sub_values lib
     else mul_values lib ty)"

fun value_of :: "'f expr_engine \<Rightarrow> (string \<times> 'f go_value) list \<Rightarrow> expr_tree \<Rightarrow> 'f go_value outcome"
  and values_of :: "'f expr_engine \<Rightarrow> (string \<times> 'f go_value) list \<Rightarrow> expr_tree list \<Rightarrow> 'f go_value list outcome" where
  "value_of e data (SNumber t) = outcome_of (Some (number_value (ee_lib e) t))"
| "value_of e data (SText t) = Returns (VString t)"
| "value_of e data (SField t) = Returns (resolveField data t)"
| "value_of e data (SWord t) = Returns (the (word_value t))"
| "value_of e data (SNeg a) = bind_outcome (value_of e data a) (\<lambda>v. outcome_of (Some (neg_value (ee_lib e) v)))"
| "value_of e data (SBin ty a b) = bind_outcome (value_of e data a) (\<lambda>v.
     bind_outcome (value_of e data b) (\<lambda>w. outcome_of (Some (binary_value (ee_lib e) ty v w))))"
| "value_of e data (SCall f as) = bind_outcome (values_of e data as) (\<lambda>vs. case getFunc e f of
     None \<Rightarrow> Fails (NewError (''unknown function '' @ quoted f)) | Some fn \<Rightarrow> outcome_of (fn vs))"
| "values_of e data [] = Returns []"
| "values_of e data (a # as) = bind_outcome (value_of e data a) (\<lambda>v.
     bind_outcome (values_of e data as) (\<lambda>vs. Returns (v # vs)))"

definition precedence :: "token_type \<Rightarrow> nat" where
  "precedence ty = (if ty = tokPlus \<or> ty = tokMinus then 0 else 1)"

definition op_text :: "token_type \<Rightarrow> string" where
  "op_text ty = (if ty = tokPlus then ''+'' else if ty = tokMinus then ''-'' else if ty = tokStar then ''*'' else ''/'')"

definition in_parens :: "bool \<Rightarrow> token list \<Rightarrow> token list" where
  "in_parens b ts = (if b then (tokLParen, ''('') # ts @ [(tokRParen, '')'')] else ts)"

fun with_commas :: "token list list \<Rightarrow> token list" where
  "with_commas [] = []"
| "with_commas [ts] = ts"
| "with_commas (ts # tss) = ts @ (tokComma, '','') # with_commas tss"

fun render :: "nat \<Rightarrow> expr_tree \<Rightarrow> token list" where
  "render k (SNumber t) = [(tokNumber, t)]"
| "render k (SText t) = [(tokString, t)]"
| "render k (SField t) = [(tokField, t)]"
| "render k (SWord t) = [(tokIdent, t)]"
| "render k (SNeg a) = in_parens (k > 2) ((tokMinus, ''-'') # render 3 a)"
| "render k (SBin ty a b) = in_parens (k > precedence ty)
     (render (precedence ty) a @ (ty, op_text ty) # render (Suc (precedence ty)) b)"
| "render k (SCall f as) = (tokIdent, f) # (tokLParen, ''('') # with_commas (map (render 0) as) @ [(tokRParen, '')'')]"

text \<open>Words are the literals, calls are of other names, operators are operators.\<close>

fun wf_tree :: "expr_tree \<Rightarrow> bool" where
  "wf_tree (SWord t) \<longleftrightarrow> word_value t \<noteq> (None :: unit go_value option)"
| "wf_tree (SNeg a) \<longleftrightarrow> wf_tree a"
| "wf_tree (SBin ty a b) \<longleftrightarrow> ty \<in> {tokPlus, tokMinus, tokStar, tokSlash} \<and> wf_tree a \<and> wf_tree b"
| "wf_tree (SCall f as) \<longleftrightarrow> word_value f = (None :: unit go_value option) \<and> list_all wf_tree as"
| "wf_tree _ \<longleftrightarrow> True"

lemma word_value_unit: "word_value t = (None :: 'f go_value option) \<longleftrightarrow> word_value t = (None :: unit go_value option)"
  by (simp add: word_value_def)

text \<open>The result of a parse agrees with a value: it goes on as \<open>K\<close> says, or ends with the same failure.\<close>

definition agrees :: "'b outcome \<times> token list \<Rightarrow> 'a outcome \<Rightarrow> ('a \<Rightarrow> 'b outcome \<times> token list) \<Rightarrow> bool" where
  "agrees r v K \<longleftrightarrow> (case v of Returns x \<Rightarrow> r = K x | Fails err \<Rightarrow> fst r = Fails err | Panics \<Rightarrow> fst r = Panics
     | OutOfFuel \<Rightarrow> False)"

lemma agrees_Returns [simp]: "agrees r (Returns x) K \<longleftrightarrow> r = K x"
  by (simp add: agrees_def)

lemma agrees_yield:
  "agrees (yield r ts) (outcome_of (Some r)) (\<lambda>v. (Returns v, ts))"
  by (cases r) (simp_all add: agrees_def outcome_of_def)

lemma agrees_and_then:
  "agrees r v (\<lambda>x. (Returns x, ts)) \<Longrightarrow> (\<And>x. v = Returns x \<Longrightarrow> agrees (f x ts) (g x) K) \<Longrightarrow>
   agrees (and_then r f) (bind_outcome v g) K"
  by (cases r; cases v) (auto simp: agrees_def bind_outcome_def)

lemma agrees_lift:
  "agrees r v (\<lambda>x. (Returns x, ts)) \<Longrightarrow> agrees (and_then r f) v (\<lambda>x. f x ts)"
  by (cases r; cases v) (auto simp: agrees_def)

lemma agrees_loop:
  "agrees r v (\<lambda>x. K x) \<Longrightarrow> (\<And>x. v = Returns x \<Longrightarrow> agrees (K x) (g x) L) \<Longrightarrow> agrees r (bind_outcome v g) L"
  by (cases v) (auto simp: agrees_def bind_outcome_def)

abbreviation no_factor :: "token list \<Rightarrow> bool" where
  "no_factor ts \<equiv> fst (peek ts) \<noteq> tokStar \<and> fst (peek ts) \<noteq> tokSlash"

lemma run_loops_stop:
  "no_factor ts \<Longrightarrow> run_term_loop e data v ts = (Returns v, ts)"
  "fst (peek ts) \<noteq> tokPlus \<Longrightarrow> fst (peek ts) \<noteq> tokMinus \<Longrightarrow> run_expr_loop e data v ts = (Returns v, ts)"
  by (simp_all add: run_term_loop_eq [of e data v ts] run_expr_loop_eq [of e data v ts])

lemma render_head: "fst (peek (render k s @ ts)) \<noteq> tokRParen \<and> (k = 3 \<longrightarrow> fst (peek (render k s @ ts)) \<noteq> tokMinus)"
proof (induction s arbitrary: k ts)
  case (SBin ty a b)
  show ?case using SBin.IH(1) [of "precedence ty"] by (auto simp: in_parens_def precedence_def)
qed (auto simp: in_parens_def)

text \<open>What is shown of a tree at the four levels of the grammar.\<close>

definition primary_ok :: "'f expr_engine \<Rightarrow> (string \<times> 'f go_value) list \<Rightarrow> expr_tree \<Rightarrow> bool" where
  "primary_ok e data s \<longleftrightarrow> (\<forall>ts. agrees (run_primary e data (render 3 s @ ts)) (value_of e data s) (\<lambda>v. (Returns v, ts)))"

definition unary_ok :: "'f expr_engine \<Rightarrow> (string \<times> 'f go_value) list \<Rightarrow> expr_tree \<Rightarrow> bool" where
  "unary_ok e data s \<longleftrightarrow> (\<forall>ts. agrees (run_unary e data (render 2 s @ ts)) (value_of e data s) (\<lambda>v. (Returns v, ts)))"

definition term_ok :: "'f expr_engine \<Rightarrow> (string \<times> 'f go_value) list \<Rightarrow> expr_tree \<Rightarrow> bool" where
  "term_ok e data s \<longleftrightarrow> (\<forall>ts. agrees (run_term e data (render 1 s @ ts)) (value_of e data s) (\<lambda>v. run_term_loop e data v ts))"

definition expr_ok :: "'f expr_engine \<Rightarrow> (string \<times> 'f go_value) list \<Rightarrow> expr_tree \<Rightarrow> bool" where
  "expr_ok e data s \<longleftrightarrow> (\<forall>ts. no_factor ts \<longrightarrow>
     agrees (run_expr e data (render 0 s @ ts)) (value_of e data s) (\<lambda>v. run_expr_loop e data v ts))"

lemma unary_of_primary: "primary_ok e data s \<Longrightarrow> render 2 s = render 3 s \<Longrightarrow> unary_ok e data s"
  using render_head [of 3 s] by (simp add: unary_ok_def primary_ok_def run_unary_def parseUnary_def)

lemma term_of_unary: "unary_ok e data s \<Longrightarrow> render 1 s = render 2 s \<Longrightarrow> term_ok e data s"
  by (simp add: unary_ok_def term_ok_def run_term_def agrees_lift)

lemma expr_of_term: "term_ok e data s \<Longrightarrow> render 0 s = render 1 s \<Longrightarrow> expr_ok e data s"
  unfolding term_ok_def expr_ok_def run_expr_def
proof (intro allI impI)
  fix ts assume t: "\<forall>ts. agrees (run_term e data (render 1 s @ ts)) (value_of e data s) (\<lambda>v. run_term_loop e data v ts)"
    and r: "render 0 s = render 1 s" and ts: "no_factor ts"
  have "agrees (run_term e data (render 0 s @ ts)) (value_of e data s) (\<lambda>v. (Returns v, ts))"
    using t [rule_format, of ts] r by (simp add: run_loops_stop(1) [OF ts])
  then show "agrees (and_then (run_term e data (render 0 s @ ts)) (run_expr_loop e data)) (value_of e data s)
      (\<lambda>v. run_expr_loop e data v ts)"
    by (rule agrees_lift)
qed

lemma simple_primary_LParen [simp]: "simple_primary e data ((tokLParen, t) # ts) = None"
  by (simp add: simple_primary_def)

lemma primary_of_expr:
  assumes "expr_ok e data s" "render 3 s = (tokLParen, ''('') # render 0 s @ [(tokRParen, '')'')]"
  shows "primary_ok e data s"
  unfolding primary_ok_def
proof
  fix ts
  have "agrees (run_expr e data (render 0 s @ (tokRParen, '')'') # ts)) (value_of e data s)
      (\<lambda>v. (Returns v, (tokRParen, '')'') # ts))"
    using assms(1) [unfolded expr_ok_def, rule_format, of "(tokRParen, '')'') # ts"] by (simp add: run_loops_stop)
  then show "agrees (run_primary e data (render 3 s @ ts)) (value_of e data s) (\<lambda>v. (Returns v, ts))"
    unfolding assms(2) using agrees_lift [where f = close_paren]
    by (fastforce simp: run_primary_eq close_paren_def)
qed

lemma atom_ok:
  assumes "primary_ok e data s" "\<And>k. render k s = render 3 s"
  shows "primary_ok e data s \<and> unary_ok e data s \<and> term_ok e data s \<and> expr_ok e data s"
  using assms by (metis unary_of_primary term_of_unary expr_of_term)

lemma expr_ok_stop:
  assumes "expr_ok e data s" "fst (peek ts) \<in> {tokRParen, tokComma, tokEOF}"
  shows "agrees (run_expr e data (render 0 s @ ts)) (value_of e data s) (\<lambda>v. (Returns v, ts))"
proof -
  have "(\<lambda>v. run_expr_loop e data v ts) = (\<lambda>v. (Returns v, ts))"
    using assms(2) by (intro ext run_loops_stop) auto
  moreover have "no_factor ts" using assms(2) by auto
  ultimately show ?thesis using assms(1) unfolding expr_ok_def by metis
qed

lemma term_ok_stop:
  assumes "term_ok e data s" "no_factor ts"
  shows "agrees (run_term e data (render 1 s @ ts)) (value_of e data s) (\<lambda>v. (Returns v, ts))"
proof -
  have "(\<lambda>v. run_term_loop e data v ts) = (\<lambda>v. (Returns v, ts))"
    using assms(2) by (intro ext run_loops_stop)
  then show ?thesis using assms(1) unfolding term_ok_def by metis
qed

lemma SNeg_ok:
  assumes "primary_ok e data a"
  shows "primary_ok e data (SNeg a) \<and> unary_ok e data (SNeg a) \<and> term_ok e data (SNeg a) \<and> expr_ok e data (SNeg a)"
proof -
  have u: "unary_ok e data (SNeg a)"
    unfolding unary_ok_def
  proof
    fix ts
    have "agrees (run_primary e data (render 3 a @ ts)) (value_of e data a) (\<lambda>v. (Returns v, ts))"
      using assms by (simp add: primary_ok_def)
    then have "agrees (and_then (run_primary e data (render 3 a @ ts)) (\<lambda>v. yield (neg_value (ee_lib e) v)))
        (value_of e data (SNeg a)) (\<lambda>v. (Returns v, ts))"
      unfolding value_of.simps by (rule agrees_and_then) (rule agrees_yield)
    then show "agrees (run_unary e data (render 2 (SNeg a) @ ts)) (value_of e data (SNeg a)) (\<lambda>v. (Returns v, ts))"
      by (simp add: run_unary_def parseUnary_def in_parens_def)
  qed
  have t: "term_ok e data (SNeg a)" by (rule term_of_unary [OF u]) (simp add: in_parens_def)
  have x: "expr_ok e data (SNeg a)" by (rule expr_of_term [OF t]) (simp add: in_parens_def)
  have "primary_ok e data (SNeg a)" by (rule primary_of_expr [OF x]) (simp add: in_parens_def)
  with u t x show ?thesis by blast
qed

lemma factor_ok:
  assumes "term_ok e data a" "unary_ok e data b" "ty = tokStar \<or> ty = tokSlash"
  shows "term_ok e data (SBin ty a b)"
  unfolding term_ok_def
proof
  fix ts
  let ?rest = "(ty, op_text ty) # render 2 b @ ts"
  have p: "precedence ty = 1" using assms(3) by (auto simp: precedence_def)
  have a: "agrees (run_term e data (render 1 a @ ?rest)) (value_of e data a) (\<lambda>v. run_term_loop e data v ?rest)"
    using assms(1) by (simp add: term_ok_def)
  have b: "agrees (run_unary e data (render 2 b @ ts)) (value_of e data b) (\<lambda>v. (Returns v, ts))"
    using assms(2) by (simp add: unary_ok_def)
  have loop: "agrees (run_term_loop e data v ?rest)
      (bind_outcome (value_of e data b) (\<lambda>w. outcome_of (Some (binary_value (ee_lib e) ty v w))))
      (\<lambda>v. run_term_loop e data v ts)" for v
  proof -
    have "run_term_loop e data v ?rest = and_then (run_unary e data (render 2 b @ ts)) (\<lambda>right ts'.
        and_then (yield (binary_value (ee_lib e) ty v right) ts') (run_term_loop e data))"
      using assms(3) by (subst run_term_loop_eq) (auto simp: binary_value_def)
    then show ?thesis
      by (simp only:) (rule agrees_and_then [OF b], rule agrees_lift [OF agrees_yield])
  qed
  have "agrees (run_term e data (render 1 a @ ?rest)) (value_of e data (SBin ty a b))
      (\<lambda>v. run_term_loop e data v ts)"
    unfolding value_of.simps by (rule agrees_loop [OF a loop])
  then show "agrees (run_term e data (render 1 (SBin ty a b) @ ts)) (value_of e data (SBin ty a b))
      (\<lambda>v. run_term_loop e data v ts)"
    by (simp add: p in_parens_def numeral_2_eq_2)
qed

lemma sum_ok:
  assumes "expr_ok e data a" "term_ok e data b" "ty = tokPlus \<or> ty = tokMinus"
  shows "expr_ok e data (SBin ty a b)"
  unfolding expr_ok_def
proof (intro allI impI)
  fix ts assume ts: "no_factor ts"
  let ?rest = "(ty, op_text ty) # render 1 b @ ts"
  have p: "precedence ty = 0" using assms(3) by (auto simp: precedence_def)
  have "no_factor ?rest" using assms(3) by auto
  then have a: "agrees (run_expr e data (render 0 a @ ?rest)) (value_of e data a) (\<lambda>v. run_expr_loop e data v ?rest)"
    using assms(1) unfolding expr_ok_def by blast
  have b: "agrees (run_term e data (render 1 b @ ts)) (value_of e data b) (\<lambda>v. (Returns v, ts))"
    by (rule term_ok_stop [OF assms(2) ts])
  have loop: "agrees (run_expr_loop e data v ?rest)
      (bind_outcome (value_of e data b) (\<lambda>w. outcome_of (Some (binary_value (ee_lib e) ty v w))))
      (\<lambda>v. run_expr_loop e data v ts)" for v
  proof -
    have "run_expr_loop e data v ?rest = and_then (run_term e data (render 1 b @ ts)) (\<lambda>right ts'.
        and_then (yield (binary_value (ee_lib e) ty v right) ts') (run_expr_loop e data))"
      using assms(3) by (subst run_expr_loop_eq) (auto simp: binary_value_def)
    then show ?thesis
      by (simp only:) (rule agrees_and_then [OF b], rule agrees_lift [OF agrees_yield])
  qed
  have "agrees (run_expr e data (render 0 a @ ?rest)) (value_of e data (SBin ty a b))
      (\<lambda>v. run_expr_loop e data v ts)"
    unfolding value_of.simps by (rule agrees_loop [OF a loop])
  then show "agrees (run_expr e data (render 0 (SBin ty a b) @ ts)) (value_of e data (SBin ty a b))
      (\<lambda>v. run_expr_loop e data v ts)"
    by (simp add: p in_parens_def)
qed

lemma SBin_ok:
  assumes "expr_ok e data a" "term_ok e data a" "term_ok e data b" "unary_ok e data b"
    and "ty \<in> {tokPlus, tokMinus, tokStar, tokSlash}"
  shows "primary_ok e data (SBin ty a b) \<and> unary_ok e data (SBin ty a b) \<and> term_ok e data (SBin ty a b)
    \<and> expr_ok e data (SBin ty a b)"
proof (cases "ty = tokPlus \<or> ty = tokMinus")
  case True
  then have p: "precedence ty = 0" by (auto simp: precedence_def)
  have x: "expr_ok e data (SBin ty a b)" by (rule sum_ok [OF assms(1,3) True])
  have pr: "primary_ok e data (SBin ty a b)" by (rule primary_of_expr [OF x]) (simp add: p in_parens_def)
  have u: "unary_ok e data (SBin ty a b)" by (rule unary_of_primary [OF pr]) (simp add: p in_parens_def)
  have "term_ok e data (SBin ty a b)" by (rule term_of_unary [OF u]) (simp add: p in_parens_def)
  with x pr u show ?thesis by blast
next
  case False
  with assms(5) have op: "ty = tokStar \<or> ty = tokSlash" by blast
  then have p: "precedence ty = 1" by (auto simp: precedence_def)
  have t: "term_ok e data (SBin ty a b)" by (rule factor_ok [OF assms(2,4) op])
  have x: "expr_ok e data (SBin ty a b)" by (rule expr_of_term [OF t]) (simp add: p in_parens_def)
  have pr: "primary_ok e data (SBin ty a b)" by (rule primary_of_expr [OF x]) (simp add: p in_parens_def)
  have "unary_ok e data (SBin ty a b)" by (rule unary_of_primary [OF pr]) (simp add: p in_parens_def)
  with t x pr show ?thesis by blast
qed

lemma args_ok:
  assumes "as \<noteq> []" "\<And>a. a \<in> set as \<Longrightarrow> expr_ok e data a"
  shows "agrees (run_args e data vs (with_commas (map (render 0) as) @ (tokRParen, '')'') # ts))
    (bind_outcome (values_of e data as) (\<lambda>ws. Returns (vs @ ws))) (\<lambda>ws. (Returns ws, (tokRParen, '')'') # ts))"
  using assms
proof (induction as arbitrary: vs rule: induct_list012)
  case (2 a)
  have "agrees (run_expr e data (render 0 a @ (tokRParen, '')'') # ts)) (value_of e data a)
      (\<lambda>v. (Returns v, (tokRParen, '')'') # ts))"
    by (rule expr_ok_stop) (use 2 in auto)
  then show ?case
    by (subst run_args_eq) (cases "value_of e data a"; auto simp: agrees_def bind_outcome_def and_then_def)
next
  case (3 a b as)
  let ?rest = "with_commas (map (render 0) (b # as)) @ (tokRParen, '')'') # ts"
  have "agrees (run_expr e data (render 0 a @ (tokComma, '','') # ?rest)) (value_of e data a)
      (\<lambda>v. (Returns v, (tokComma, '','') # ?rest))"
    by (rule expr_ok_stop) (use 3 in auto)
  moreover have "agrees (run_args e data (vs @ [v]) ?rest)
      (bind_outcome (values_of e data (b # as)) (\<lambda>ws. Returns ((vs @ [v]) @ ws))) (\<lambda>ws. (Returns ws, (tokRParen, '')'') # ts))" for v
    by (rule "3.IH"(2)) (use 3(4) in auto)
  ultimately show ?case
    by (subst run_args_eq) (cases "value_of e data a"; cases "values_of e data (b # as)";
        auto simp: agrees_def bind_outcome_def and_then_def)
qed simp

lemma call_ok:
  assumes "\<And>a. a \<in> set as \<Longrightarrow> expr_ok e data a" "word_value f = (None :: 'f go_value option)"
  shows "primary_ok (e :: 'f expr_engine) data (SCall f as)"
  unfolding primary_ok_def
proof
  fix ts
  let ?rest = "with_commas (map (render 0) as) @ (tokRParen, '')'') # ts"
  have simple: "simple_primary e data ((tokIdent, f) # (tokLParen, ''('') # ?rest) = None"
    by (simp add: simple_primary_def assms(2))
  let ?args = "if fst (peek ?rest) = tokRParen then (Returns [], ?rest) else run_args e data [] ?rest"
  have "agrees ?args (values_of e data as) (\<lambda>ws. (Returns ws, (tokRParen, '')'') # ts))"
  proof (cases as)
    case (Cons a as')
    have "fst (peek ?rest) \<noteq> tokRParen"
      using render_head [of 0 a] by (cases as') (simp_all add: Cons)
    moreover have "agrees (run_args e data [] ?rest) (bind_outcome (values_of e data as) (\<lambda>ws. Returns ([] @ ws)))
        (\<lambda>ws. (Returns ws, (tokRParen, '')'') # ts))"
      by (rule args_ok) (use assms(1) Cons in auto)
    moreover have "bind_outcome (values_of e data as) (\<lambda>ws. Returns ([] @ ws)) = values_of e data as"
      by (cases "values_of e data as") (simp_all add: bind_outcome_def)
    ultimately show ?thesis by simp
  qed simp
  then have "agrees (and_then ?args (call_function e f)) (value_of e data (SCall f as)) (\<lambda>v. (Returns v, ts))"
    unfolding value_of.simps
    by (rule agrees_and_then) (auto simp: call_function_def agrees_def split: option.splits outcome.splits)
  moreover have "run_primary e data ((tokIdent, f) # (tokLParen, ''('') # ?rest) = and_then ?args (call_function e f)"
    unfolding run_primary_eq simple by simp
  ultimately show "agrees (run_primary e data (render 3 (SCall f as) @ ts)) (value_of e data (SCall f as))
      (\<lambda>v. (Returns v, ts))" by simp
qed

lemma simple_ok:
  assumes "\<And>ts. \<exists>r. simple_primary e data (render 3 s @ ts) = Some r \<and> agrees r (value_of e data s) (\<lambda>v. (Returns v, ts))"
  shows "primary_ok e data s"
  unfolding primary_ok_def
proof
  fix ts
  from assms [of ts] show "agrees (run_primary e data (render 3 s @ ts)) (value_of e data s) (\<lambda>v. (Returns v, ts))"
    by (auto simp: run_primary_eq)
qed

lemma tree_ok:
  "wf_tree s \<Longrightarrow> primary_ok e data s \<and> unary_ok e data s \<and> term_ok e data s \<and> expr_ok e data s"
proof (induction s)
  case (SNumber t)
  show ?case
    by (rule atom_ok, rule simple_ok) (simp_all add: simple_primary_def agrees_yield)
next
  case (SText t)
  show ?case by (rule atom_ok, rule simple_ok) (simp_all add: simple_primary_def)
next
  case (SField t)
  show ?case by (rule atom_ok, rule simple_ok) (simp_all add: simple_primary_def)
next
  case (SWord t)
  then have "word_value t \<noteq> (None :: 'a go_value option)" using word_value_unit [where ?'f = 'a, of t] by simp
  then show ?case by (intro atom_ok simple_ok) (auto simp: simple_primary_def)
next
  case (SNeg a)
  then show ?case by (intro SNeg_ok) simp
next
  case (SBin ty a b)
  then show ?case by (intro SBin_ok) simp_all
next
  case (SCall f as)
  have "word_value f = (None :: 'a go_value option)" using SCall.prems word_value_unit [where ?'f = 'a, of f] by simp
  moreover have "expr_ok e data a" if "a \<in> set as" for a
    using SCall.IH [OF that] SCall.prems that by (simp add: list_all_iff)
  ultimately have "primary_ok e data (SCall f as)" by (intro call_ok)
  then show ?case by (rule atom_ok) simp
qed

section \<open>Tokens as text\<close>

text \<open>Tokens that can be written down again, and their text, one space between two tokens.\<close>

definition lexable :: "token \<Rightarrow> bool" where
  "lexable t = (case t of
     (tokNumber, s) \<Rightarrow> s \<noteq> [] \<and> is_digit (hd s) \<and> list_all number_char (tl s)
   | (tokString, s) \<Rightarrow> list_all (\<lambda>c. c \<noteq> CHR 0x22 \<and> c \<noteq> CHR 0x5C) s
   | (tokField, s) \<Rightarrow> list_all field_char s
   | (tokIdent, s) \<Rightarrow> s \<noteq> [] \<and> (is_letter (hd s) \<or> hd s = CHR ''_'') \<and> list_all ident_char (tl s)
   | (tokEOF, s) \<Rightarrow> False
   | (ty, s) \<Rightarrow> length s = 1 \<and> symbol_token (hd s) = Some ty)"

definition token_text :: "token \<Rightarrow> string" where
  "token_text t = (case t of
     (tokString, s) \<Rightarrow> CHR 0x22 # s @ [CHR 0x22]
   | (tokField, s) \<Rightarrow> CHR ''$'' # CHR ''.'' # s
   | (_, s) \<Rightarrow> s)"

definition tokens_text :: "token list \<Rightarrow> string" where
  "tokens_text ts = join_with '' '' (map token_text ts)"

lemma scan_string_plain:
  "list_all (\<lambda>c. c \<noteq> q \<and> c \<noteq> CHR 0x5C) s \<Longrightarrow> scan_string q (s @ q # r) = Some (length s)"
  by (induction s) auto

lemma span_append:
  "list_all P xs \<Longrightarrow> (r = [] \<or> \<not> P (hd r)) \<Longrightarrow> takeWhile P (xs @ r) = xs \<and> dropWhile P (xs @ r) = r"
  by (induction xs) (cases r; auto)+

lemma byte_inj [simp]: "byte c = byte d \<longleftrightarrow> c = d"
  by (simp add: byte_def)

lemmas char_classes = is_space_def is_letter_def is_digit_def number_char_def field_char_def ident_char_def

lemma space_class [simp]:
  "is_space CHR '' ''" "\<not> number_char CHR '' ''" "\<not> field_char CHR '' ''" "\<not> ident_char CHR '' ''"
  "\<not> is_digit CHR '' ''"
  by (simp_all add: char_classes byte_def)

lemma symbol_token_cases:
  "symbol_token c = Some ty \<Longrightarrow> c \<in> {CHR ''('', CHR '')'', CHR '','', CHR ''+'', CHR ''-'', CHR ''*'', CHR ''/''}"
  by (auto simp: symbol_token_def split: if_splits)

lemma tokenize_symbol:
  assumes "symbol_token c = Some ty" "c = CHR ''-'' \<Longrightarrow> r = [] \<or> \<not> is_digit (hd r)"
  shows "tokenize_loop acc i (c # r) = tokenize_loop (acc @ [(ty, [c])]) (i + 1) r"
  using symbol_token_cases [OF assms(1)] assms
  by (subst tokenize_loop.simps) (elim insertE; auto simp: char_classes byte_def)

lemma tokenize_one:
  assumes "lexable t" "r = [] \<or> hd r = CHR '' ''"
  shows "\<exists>j. tokenize_loop acc i (token_text t @ r) = tokenize_loop (acc @ [t]) j r"
proof (cases t)
  case (Pair ty s)
  have stop: "r = [] \<or> \<not> number_char (hd r)" "r = [] \<or> \<not> field_char (hd r)" "r = [] \<or> \<not> ident_char (hd r)"
      "r = [] \<or> \<not> is_digit (hd r)"
    using assms(2) by auto
  show ?thesis
  proof (cases "ty \<in> {tokNumber, tokString, tokField, tokIdent, tokEOF}")
    case False
    with assms(1) Pair obtain c where c: "s = [c]" "symbol_token c = Some ty"
      by (cases s) (auto simp: lexable_def split: token_type.splits)
    have "token_text t = [c]" using False Pair c(1) by (auto simp: token_text_def split: token_type.splits)
    with tokenize_symbol [OF c(2), of r acc i] stop(4) Pair c(1) show ?thesis by auto
  next
    case True
    then show ?thesis
    proof (elim insertE emptyE)
      assume ty: "ty = tokNumber"
      with assms(1) Pair obtain c cs where s: "s = c # cs" "is_digit c" "list_all number_char cs"
        by (cases s) (auto simp: lexable_def)
      have "\<not> is_space c \<and> c \<noteq> CHR 0x22 \<and> c \<noteq> CHR 0x27 \<and> c \<noteq> CHR ''$''"
        using s(2) by (auto simp: char_classes byte_def)
      moreover have "token_text t @ r = c # cs @ r" using ty Pair s(1) by (simp add: token_text_def)
      ultimately have "tokenize_loop acc i (token_text t @ r) = tokenize_loop (acc @ [t]) (i + length s) r"
        using s span_append [OF s(3) stop(1)] ty Pair by (simp add: tokenize_loop.simps(2) Let_def)
      then show ?thesis ..
    next
      assume ty: "ty = tokString"
      with assms(1) Pair have "list_all (\<lambda>c. c \<noteq> CHR 0x22 \<and> c \<noteq> CHR 0x5C) s" by (simp add: lexable_def)
      moreover have "token_text t @ r = CHR 0x22 # s @ CHR 0x22 # r" using ty Pair by (simp add: token_text_def)
      ultimately have "tokenize_loop acc i (token_text t @ r) = tokenize_loop (acc @ [t]) (i + length s + 2) r"
        using scan_string_plain [of "CHR 0x22" s r] ty Pair
        by (simp add: tokenize_loop.simps(2) is_space_def byte_def)
      then show ?thesis ..
    next
      assume ty: "ty = tokField"
      with assms(1) Pair have "list_all field_char s" by (simp add: lexable_def)
      moreover have "token_text t @ r = CHR ''$'' # CHR ''.'' # s @ r" using ty Pair by (simp add: token_text_def)
      ultimately have "tokenize_loop acc i (token_text t @ r) = tokenize_loop (acc @ [t]) (i + 2 + length s) r"
        using span_append [of field_char s r] stop(2) ty Pair
        by (simp add: tokenize_loop.simps(2) is_space_def byte_def Let_def)
      then show ?thesis ..
    next
      assume ty: "ty = tokIdent"
      with assms(1) Pair obtain c cs where s: "s = c # cs" "is_letter c \<or> c = CHR ''_''" "list_all ident_char cs"
        by (cases s) (auto simp: lexable_def)
      have "\<not> is_space c \<and> c \<noteq> CHR 0x22 \<and> c \<noteq> CHR 0x27 \<and> c \<noteq> CHR ''$'' \<and> \<not> is_digit c \<and> c \<noteq> CHR ''-''"
        using s(2) by (auto simp: char_classes byte_def)
      moreover have "token_text t @ r = c # cs @ r" using ty Pair s(1) by (simp add: token_text_def)
      ultimately have "tokenize_loop acc i (token_text t @ r) = tokenize_loop (acc @ [t]) (i + length s) r"
        using s span_append [OF s(3) stop(3)] ty Pair by (simp add: tokenize_loop.simps(2) Let_def)
      then show ?thesis ..
    next
      assume "ty = tokEOF"
      with assms(1) Pair show ?thesis by (simp add: lexable_def)
    qed
  qed
qed

lemma tokenize_tokens:
  "list_all lexable ts \<Longrightarrow> tokenize_loop acc i (tokens_text ts) = Inr (acc @ ts @ [(tokEOF, [])])"
proof (induction ts arbitrary: acc i rule: induct_list012)
  case (2 t)
  obtain j where "tokenize_loop acc i (token_text t @ []) = tokenize_loop (acc @ [t]) j []"
    using tokenize_one [of t "[]" acc i] 2 by auto
  then show ?case by (simp add: tokens_text_def tokenize_loop.simps)
next
  case (3 t u ts)
  let ?r = "tokens_text (u # ts)"
  obtain j where "tokenize_loop acc i (token_text t @ CHR '' '' # ?r) = tokenize_loop (acc @ [t]) j (CHR '' '' # ?r)"
    using tokenize_one [of t "CHR '' '' # ?r" acc i] 3(3) by auto
  also have "\<dots> = tokenize_loop (acc @ [t]) (j + 1) ?r" by (subst tokenize_loop.simps) simp
  also have "\<dots> = Inr ((acc @ [t]) @ (u # ts) @ [(tokEOF, [])])"
    using "3.IH"(2) [of "acc @ [t]" "j + 1"] 3(3) by (simp only: list.pred_inject)
  finally show ?case by (simp add: tokens_text_def)
qed (simp add: tokens_text_def tokenize_loop.simps)

lemma number_char_no_space: "number_char c \<Longrightarrow> \<not> is_space c"
  and field_char_no_space: "field_char c \<Longrightarrow> \<not> is_space c"
  and ident_char_no_space: "ident_char c \<Longrightarrow> \<not> is_space c"
  by (auto simp: char_classes byte_def)

lemma symbol_no_space: "symbol_token c = Some ty \<Longrightarrow> \<not> is_space c"
  using symbol_token_cases [of c ty] by (auto simp: is_space_def byte_def)

lemma token_text_ends:
  assumes "lexable t"
  shows "token_text t \<noteq> [] \<and> \<not> is_space (hd (token_text t)) \<and> \<not> is_space (last (token_text t))"
proof (cases t)
  case (Pair ty s)
  have q: "\<not> is_space CHR 0x22" "\<not> is_space CHR ''$''" "\<not> is_space CHR ''.''" by (simp_all add: is_space_def byte_def)
  have plain: "token_text t = s" "s \<noteq> []" "\<forall>c \<in> set s. \<not> is_space c" if "ty \<noteq> tokString" "ty \<noteq> tokField"
  proof -
    show "token_text t = s" using that Pair by (simp add: token_text_def split: token_type.splits)
    show ne: "s \<noteq> []" using assms that Pair by (auto simp: lexable_def split: token_type.splits)
    have "number_char (hd s) \<or> ident_char (hd s) \<or> symbol_token (hd s) \<noteq> None"
      using assms that Pair
      by (auto simp: lexable_def number_char_def ident_char_def split: token_type.splits)
    moreover have "list_all number_char (tl s) \<or> list_all ident_char (tl s) \<or> tl s = []"
      using assms that Pair by (cases s) (auto simp: lexable_def split: token_type.splits)
    ultimately show "\<forall>c \<in> set s. \<not> is_space c"
      using ne number_char_no_space ident_char_no_space symbol_no_space
      by (cases s) (auto simp: list_all_iff)
  qed
  show ?thesis
  proof (cases "ty = tokString \<or> ty = tokField")
    case True
    moreover have "\<not> is_space (last (CHR ''.'' # s))" if "list_all field_char s"
      using that field_char_no_space q(3) last_in_set [of s] by (auto simp: list_all_iff)
    ultimately show ?thesis using Pair q assms by (auto simp: token_text_def lexable_def split: if_splits)
  next
    case False
    with plain show ?thesis by (metis hd_in_set last_in_set)
  qed
qed

lemma tokens_text_ends:
  "ts \<noteq> [] \<Longrightarrow> list_all lexable ts \<Longrightarrow>
   tokens_text ts \<noteq> [] \<and> \<not> is_space (hd (tokens_text ts)) \<and> \<not> is_space (last (tokens_text ts))"
proof (induction ts rule: induct_list012)
  case (2 t)
  then show ?case using token_text_ends [of t] by (simp add: tokens_text_def)
next
  case (3 t u ts)
  then show ?case using token_text_ends [of t] by (auto simp: tokens_text_def)
qed simp

lemma trim_space_id: "s \<noteq> [] \<Longrightarrow> \<not> is_space (hd s) \<Longrightarrow> \<not> is_space (last s) \<Longrightarrow> trim_space s = s"
proof -
  assume "s \<noteq> []" "\<not> is_space (hd s)" "\<not> is_space (last s)"
  then have "dropWhile is_space s = s" "dropWhile is_space (rev s) = rev s"
    by (simp_all only: dropWhile_eq_self_iff hd_rev simp_thms)
  then show ?thesis by (simp add: trim_space_def)
qed

lemma render_not_Nil [simp]: "render k s \<noteq> []"
  using render_head [of k s "[(tokRParen, [])]"] by auto

lemma Evaluate_tree:
  assumes "wf_tree s" "list_all lexable (render 0 s @ rest)"
    and "fst (peek (rest @ [(tokEOF, [])])) \<notin> {tokPlus, tokMinus, tokStar, tokSlash}"
    and "text = tokens_text (render 0 s @ rest)"
  shows "Evaluate e text data = (case value_of e data s of
     Fails err \<Rightarrow> Fails (Wrapped (''evaluate '' @ quoted text @ '': '') err)
   | r \<Rightarrow> r)"
proof -
  have ends: "text \<noteq> []" "trim_space text = text"
    using tokens_text_ends [of "render 0 s @ rest"] assms(2,4) by (auto intro: trim_space_id)
  have tok: "tokenize text = Inr (render 0 s @ rest @ [(tokEOF, [])])"
    using tokenize_tokens [OF assms(2), of "[]" 0] assms(4) by (simp add: tokenize_def)
  let ?r = "rest @ [(tokEOF, [])]"
  have "agrees (run_expr e data (render 0 s @ ?r)) (value_of e data s) (\<lambda>v. run_expr_loop e data v ?r)"
    using tree_ok [OF assms(1), of e data] assms(3) unfolding expr_ok_def by auto
  moreover have "(\<lambda>v. run_expr_loop e data v ?r) = (\<lambda>v. (Returns v, ?r))"
    using assms(3) by (intro ext run_loops_stop) auto
  ultimately have "fst (run_expr e data (render 0 s @ ?r)) = value_of e data s"
    by (cases "value_of e data s") (auto simp: agrees_def)
  then show ?thesis unfolding Evaluate_run ends(2) tok using ends(1) by simp
qed

section \<open>Properties\<close>

text \<open>
  C18: evaluation always ends. For every engine, expression and record the parser needs no more fuel
  than \<open>Evaluate\<close> gives it, that is one unit more than there are tokens: \<open>Evaluate\<close> returns a value or
  an error or a called function panics. More fuel never changes the result of the parse.
\<close>

theorem evaluate_ends:
  "Evaluate e expr data \<noteq> OutOfFuel \<and>
   parseExpression e data (parse_fuel tokens + n) tokens = parseExpression e data (parse_fuel tokens) tokens"
proof
  have "fst (run_expr e data tokens) \<noteq> OutOfFuel" for tokens
    by (rule goodD(1) [OF good_run_expr order_refl])
  then show "Evaluate e expr data \<noteq> OutOfFuel"
    by (auto simp: Evaluate_run split: sum.splits outcome.splits)
qed (simp add: parse_fuel_def parseExpression_run)

text \<open>
  C8: expressions mean what the usual grammar says. Let an expression be written with the fewest
  parentheses that multiplication and division before addition and subtraction, all of them to the
  left, and unary minus before all of them, require. Then \<open>Evaluate\<close> on its text returns the value of
  its tree: literals, fields, operators on the values of their operands from left to right, functions on
  the values of their arguments, and the first error met that way.
\<close>

theorem evaluate_follows_grammar:
  assumes "wf_tree s" "list_all lexable (render 0 s)" "text = tokens_text (render 0 s)"
  shows "Evaluate e text data = (case value_of e data s of
     Fails err \<Rightarrow> Fails (Wrapped (''evaluate '' @ quoted text @ '': '') err)
   | r \<Rightarrow> r)"
  by (rule Evaluate_tree [where rest = "[]"]) (use assms in simp_all)

definition sample_tree :: expr_tree where
  "sample_tree = SBin tokMinus (SBin tokMinus (SNumber ''9'') (SBin tokStar (SNumber ''2'') (SNumber ''3'')))
     (SNeg (SBin tokPlus (SNumber ''4'') (SField ''a'')))"

lemmas sample_defs = sample_tree_def tokens_text_def token_text_def lexable_def symbol_token_def op_text_def
  in_parens_def precedence_def char_classes byte_def

theorem evaluate_follows_grammar_witness:
  "Evaluate (NewExprEngine int_lib) ''9 - 2 * 3 - - ( 4 + $.a )'' [(''a'', VFloat 5)] = Returns (VFloat 12)"
proof -
  have wf: "wf_tree sample_tree" by (simp add: sample_tree_def)
  have lex: "list_all lexable (render 0 sample_tree)" by (simp add: sample_defs)
  have written: "''9 - 2 * 3 - - ( 4 + $.a )'' = tokens_text (render 0 sample_tree)" by (simp add: sample_defs)
  have num: "number_value int_lib [c] = Inr (VFloat (int (of_char c - 48)))"
    if "c \<in> {CHR ''9'', CHR ''2'', CHR ''3'', CHR ''4''}" for c
    using that by (auto simp: number_value_def int_lib_def parse_int64_def in_i64_def)
  have "value_of (NewExprEngine int_lib) [(''a'', VFloat 5)] sample_tree = Returns (VFloat 12)"
    by (simp add: sample_tree_def NewExprEngine_def num bind_outcome_def outcome_of_def binary_value_def mul_values_def
        sub_values_def add_values_def neg_value_def toFloat_def resolveField_def go_split_def split_parts.simps,
        simp add: int_lib_def)
  with evaluate_follows_grammar [OF wf lex written, of "NewExprEngine int_lib" "[(''a'', VFloat 5)]"] show ?thesis by simp
qed

text \<open>
  What follows a complete expression is ignored. If the tokens after an expression do not start with
  an operator, \<open>Evaluate\<close> returns the value of the expression alone, whatever they are; the parser does
  not check that it has reached the end.
\<close>

theorem evaluate_ignores_rest:
  assumes "wf_tree s" "list_all lexable (render 0 s @ t # rest)"
    and "fst t \<notin> {tokPlus, tokMinus, tokStar, tokSlash}"
    and "value_of e data s = Returns v"
  shows "Evaluate e (tokens_text (render 0 s @ t # rest)) data = Returns v"
  by (subst Evaluate_tree [OF assms(1,2) _ refl]) (use assms(3,4) in simp_all)

theorem evaluate_ignores_rest_witness:
  "Evaluate (NewExprEngine int_lib) ''true ) $.b'' [] = Returns (VBool True)"
proof -
  have lex: "list_all lexable (render 0 (SWord ''true'') @ (tokRParen, '')'') # [(tokField, ''b'')])"
    by (simp add: sample_defs)
  have "tokens_text (render 0 (SWord ''true'') @ (tokRParen, '')'') # [(tokField, ''b'')]) = ''true ) $.b''"
    by (simp add: sample_defs)
  then show ?thesis
    using evaluate_ignores_rest [OF _ lex, of "NewExprEngine int_lib" "[]" "VBool True"] by (simp add: word_value_def)
qed

text \<open>
  \<open>substring\<close> with a negative length panics. On a string with more than \<open>start\<close> runes, a length that
  is negative makes the slice bounds run backwards; every non-negative length that does not overflow
  gives the runes from \<open>start\<close> on, at most \<open>length\<close> of them.
\<close>

theorem substring_outcome:
  assumes "toInt lib a = Inr start" "toInt lib b = Inr len" "0 \<le> start" "in_i64 (start + len)"
    and "start < int (length (rune_texts (toString lib s)))"
  shows "fn_substring lib [s, a, b] = (if len < 0 then None
     else Some (Inr (VString (concat (take (nat len) (drop (nat start) (rune_texts (toString lib s))))))))"
proof -
  let ?r = "rune_texts (toString lib s)"
  have w: "wrap64 (start + len) = start + len" using assms(4) by (rule wrap64_id)
  have "take (min (nat len) (length ?r - nat start)) (drop (nat start) ?r) = take (nat len) (drop (nat start) ?r)"
    by (simp add: min_def)
  moreover have "nat (min (start + len) (int (length ?r))) - nat start = min (nat len) (length ?r - nat start)"
    if "0 \<le> len" using that assms(3,5) by (simp add: min_def nat_add_distrib) linarith
  ultimately show ?thesis
    using assms(1-3,5) w
    by (auto simp: fn_substring_def slice_runes_def slice_def Let_def min_def)
qed

theorem substring_outcome_witness:
  "fn_substring int_lib [VString ''abc'', VFloat 1, VFloat (-1)] = None"
proof -
  have r: "rune_texts ''abc'' = [''a'', ''b'', ''c'']"
    by (simp add: rune_texts_def rune_chunks.simps utf8_len_def byte_def)
  show ?thesis
    using substring_outcome [of int_lib "VFloat 1" 1 "VFloat (-1)" "-1" "VString ''abc''"]
    by (simp add: toInt_def toString_def int_lib_def in_i64_def r)
qed

end
