(* ===== verification/Objects.thy ===== *)
theory Objects
  imports Values "HOL-Library.AList"
begin

text \<open>
  Go's \<open>map[string]interface{}\<close> as it is: a reference. The mapping code moves maps from one record
  to another and writes into them later, so what it computes depends on which maps are the same
  object. A heap is the list of the objects allocated so far, an object an association list with
  distinct keys, a value holds the address of an object. A nil map can be read but not written.
\<close>

section \<open>Values with references\<close>

datatype 'f hval =
    HNil
  | HBool bool
  | HFloat 'f
  | HInt int
  | HString string
  | HTime date_time
  | HArray "'f hval list"
  | HNilMap
  | HRef nat

type_synonym 'f object = "(string \<times> 'f hval) list"
type_synonym 'f heap = "'f object list"

text \<open>The members of the map that a value is, if it is one.\<close>

definition members_of :: "'f heap \<Rightarrow> 'f hval \<Rightarrow> 'f object option" where
  "members_of h v = (case v of
     HNilMap \<Rightarrow> Some []
   | HRef a \<Rightarrow> (if a < length h then Some (h ! a) else None)
   | _ \<Rightarrow> None)"

definition new_map :: "'f heap \<Rightarrow> 'f hval \<times> 'f heap" where
  "new_map h = (HRef (length h), h @ [[]])"

text \<open>\<open>m[k] = v\<close>; \<open>None\<close> is the panic on a nil map.\<close>

definition assign :: "'f heap \<Rightarrow> 'f hval \<Rightarrow> string \<Rightarrow> 'f hval \<Rightarrow> 'f heap option" where
  "assign h m k v = (case m of
     HRef a \<Rightarrow> (if a < length h then Some (h[a := AList.update k v (h ! a)]) else None)
   | _ \<Rightarrow> None)"

section \<open>Between the heap and trees\<close>

text \<open>The values that \<open>json.Unmarshal\<close> builds: a new object for every JSON object.\<close>

fun place :: "'f go_value \<Rightarrow> 'f heap \<Rightarrow> 'f hval \<times> 'f heap"
  and place_list :: "'f go_value list \<Rightarrow> 'f heap \<Rightarrow> 'f hval list \<times> 'f heap"
  and place_pairs :: "(string \<times> 'f go_value) list \<Rightarrow> 'f heap \<Rightarrow> (string \<times> 'f hval) list \<times> 'f heap" where
  "place VNil h = (HNil, h)"
| "place (VBool b) h = (HBool b, h)"
| "place (VFloat f) h = (HFloat f, h)"
| "place (VInt i) h = (HInt i, h)"
| "place (VString s) h = (HString s, h)"
| "place (VTime t) h = (HTime t, h)"
| "place (VArray vs) h = (case place_list vs h of (xs, h') \<Rightarrow> (HArray xs, h'))"
| "place (VMap ms) h = (case place_pairs ms h of (ps, h') \<Rightarrow> (HRef (length h'), h' @ [ps]))"
| "place_list [] h = ([], h)"
| "place_list (v # vs) h = (case place v h of (x, h1) \<Rightarrow> case place_list vs h1 of (xs, h2) \<Rightarrow> (x # xs, h2))"
| "place_pairs [] h = ([], h)"
| "place_pairs ((k, v) # ps) h =
    (case place v h of (x, h1) \<Rightarrow> case place_pairs ps h1 of (xs, h2) \<Rightarrow> ((k, x) # xs, h2))"

text \<open>
  The tree that a value is, for the functions that walk it to the end. \<open>seen\<close> are the objects on the
  way: \<open>None\<close> is a walk that comes back to one of them and so never ends. \<open>nilmap\<close> is what the walk
  makes of a nil map.
\<close>

function (sequential) read_back :: "'f go_value \<Rightarrow> 'f heap \<Rightarrow> nat list \<Rightarrow> 'f hval \<Rightarrow> 'f go_value option" where
  "read_back nilmap h seen HNil = Some VNil"
| "read_back nilmap h seen (HBool b) = Some (VBool b)"
| "read_back nilmap h seen (HFloat f) = Some (VFloat f)"
| "read_back nilmap h seen (HInt i) = Some (VInt i)"
| "read_back nilmap h seen (HString s) = Some (VString s)"
| "read_back nilmap h seen (HTime t) = Some (VTime t)"
| "read_back nilmap h seen (HArray vs) = map_option VArray (those (map (read_back nilmap h seen) vs))"
| "read_back nilmap h seen HNilMap = Some nilmap"
| "read_back nilmap h seen (HRef a) =
    (if a < length h \<and> a \<notin> set seen
     then map_option VMap (those (map (\<lambda>kv. map_option (Pair (fst kv)) (read_back nilmap h (a # seen) (snd kv))) (h ! a)))
     else None)"
  by pat_completeness auto
termination
proof (relation "(\<lambda>(nilmap, h, seen, v). card ({..<length h} - set seen)) <*mlex*>
    measure (\<lambda>(nilmap, h, seen, v). size v)", goal_cases)
  case 1
  then show ?case by (intro wf_mlex wf_measure)
next
  case (2 nilmap h seen vs v)
  then show ?case by (auto simp: mlex_prod_def less_Suc_eq_le intro: size_list_estimation')
next
  case (3 nilmap h seen a kv)
  then have "{..<length h} - set (a # seen) \<subset> {..<length h} - set seen" by auto
  then have "card ({..<length h} - set (a # seen)) < card ({..<length h} - set seen)"
    by (intro psubset_card_mono) auto
  then show ?case by (simp add: mlex_prod_def)
qed

definition tree_of :: "'f go_value \<Rightarrow> 'f heap \<Rightarrow> 'f hval \<Rightarrow> 'f go_value option" where
  "tree_of nilmap h v = read_back nilmap h [] v"

text \<open>\<open>fmt.Sprintf("%v", v)\<close>, without an end on a cyclic value (\<open>None\<close>).\<close>

definition sprint_h :: "'f go_lib \<Rightarrow> 'f heap \<Rightarrow> 'f hval \<Rightarrow> string option" where
  "sprint_h lib h v = map_option (print_v lib) (tree_of (VMap []) h v)"

text \<open>\<open>%T\<close>.\<close>

fun type_h :: "'f hval \<Rightarrow> string" where
  "type_h HNil = ''<nil>''"
| "type_h (HBool _) = ''bool''"
| "type_h (HFloat _) = ''float64''"
| "type_h (HInt _) = ''int64''"
| "type_h (HString _) = ''string''"
| "type_h (HTime _) = ''time.Time''"
| "type_h (HArray _) = ''[]interface {}''"
| "type_h _ = ''map[string]interface {}''"


section \<open>Reachable objects\<close>

inductive reaches :: "'f heap \<Rightarrow> 'f hval \<Rightarrow> nat \<Rightarrow> bool" for h where
  reaches_here: "reaches h (HRef a) a"
| reaches_array: "v \<in> set vs \<Longrightarrow> reaches h v a \<Longrightarrow> reaches h (HArray vs) a"
| reaches_member: "b < length h \<Longrightarrow> kv \<in> set (h ! b) \<Longrightarrow> reaches h (snd kv) a \<Longrightarrow> reaches h (HRef b) a"

inductive_cases reaches_RefE: "reaches h (HRef b) a"
inductive_simps reaches_simps:
  "reaches h HNil a" "reaches h (HBool x) a" "reaches h (HFloat f) a" "reaches h (HInt i) a"
  "reaches h (HString s) a" "reaches h (HTime t) a" "reaches h HNilMap a"

declare reaches_simps [simp]

lemma those_None: "those xs = None \<longleftrightarrow> None \<in> set xs"
  by (induction xs) (auto split: option.splits)

lemma read_back_reaches: "reaches h v a \<Longrightarrow> a \<in> set seen \<Longrightarrow> read_back nilmap h seen v = None"
proof (induction arbitrary: seen rule: reaches.induct)
  case (reaches_array v vs a)
  then have "None \<in> set (map (read_back nilmap h seen) vs)" by (auto simp: image_iff intro!: bexI [of _ v])
  then show ?case by (simp add: those_None del: set_map)
next
  case (reaches_member b kv a)
  then have "read_back nilmap h (b # seen) (snd kv) = None" by simp
  then have "None \<in> set (map (\<lambda>kv. map_option (Pair (fst kv)) (read_back nilmap h (b # seen) (snd kv))) (h ! b))"
    using reaches_member.hyps(2) by (auto simp: image_iff intro!: bexI [of _ kv])
  then show ?case by (simp add: those_None del: set_map)
qed simp

text \<open>An object that the walk from \<open>v\<close> passes is not below itself.\<close>

lemma acyclic_member:
  assumes "read_back nilmap h seen (HRef b) = Some t" "kv \<in> set (h ! b)"
  shows "\<not> reaches h (snd kv) b" and "\<exists>t'. read_back nilmap h (b # seen) (snd kv) = Some t'"
proof -
  have b: "b < length h" "b \<notin> set seen" using assms(1) by (auto split: if_splits)
  then have "None \<notin> set (map (\<lambda>kv. map_option (Pair (fst kv)) (read_back nilmap h (b # seen) (snd kv))) (h ! b))"
    using assms(1) by (auto simp: those_None simp del: set_map dest: those_None [THEN iffD2])
  with assms(2) have some: "read_back nilmap h (b # seen) (snd kv) \<noteq> None" by (force simp: image_iff)
  then show "\<exists>t'. read_back nilmap h (b # seen) (snd kv) = Some t'" by blast
  show "\<not> reaches h (snd kv) b" using some read_back_reaches [of h "snd kv" b "b # seen" nilmap] by auto
qed

end
