(* ===== verification/Coercer.thy ===== *)
theory Coercer
  imports Objects
begin

text \<open>
  The type coercer of the transform worker, \<open>internal/worker/transform/coercer.go\<close>: a table of
  conversion functions under keys such as \<open>string->int\<close>, filled with the built-in ones. A conversion
  reads the heap, since printing a value walks it; \<open>None\<close> is a walk that never ends.
\<close>

type_synonym 'f coerce_func = "'f heap \<Rightarrow> 'f hval \<Rightarrow> 'f hval result option"

text \<open>\<open>TypeCoercer\<close>: the converters by key.\<close>

type_synonym 'f type_coercer = "(string \<times> 'f coerce_func) list"

section \<open>Conversion functions\<close>

text \<open>\<open>toString\<close>, \<open>toInt64\<close> and \<open>toFloat64\<close>; a \<open>time.Time\<close> is a \<open>fmt.Stringer\<close> and prints as under \<open>%v\<close>.\<close>

definition coercer_toString :: "'f go_lib \<Rightarrow> 'f heap \<Rightarrow> 'f hval \<Rightarrow> string option" where
  "coercer_toString lib h v = (case v of HString s \<Rightarrow> Some s | HTime t \<Rightarrow> Some (time_print lib t) | _ \<Rightarrow> sprint_h lib h v)"

definition toInt64 :: "'f go_lib \<Rightarrow> 'f hval \<Rightarrow> int option" where
  "toInt64 lib v = (case v of HInt i \<Rightarrow> Some i | HFloat f \<Rightarrow> Some (fl_to_int lib f) | _ \<Rightarrow> None)"

definition toFloat64 :: "'f go_lib \<Rightarrow> 'f hval \<Rightarrow> 'f option" where
  "toFloat64 lib v = (case v of HFloat f \<Rightarrow> Some f | HInt i \<Rightarrow> Some (fl_of_int lib i) | _ \<Rightarrow> None)"

definition on_text :: "'f go_lib \<Rightarrow> (string \<Rightarrow> 'f hval result) \<Rightarrow> 'f coerce_func" where
  "on_text lib f h v = map_option f (coercer_toString lib h v)"

definition print_as :: "'f go_lib \<Rightarrow> 'f coerce_func" where
  "print_as lib h v = map_option (\<lambda>s. Inr (HString s)) (sprint_h lib h v)"

definition cannot_convert :: "'f hval \<Rightarrow> string \<Rightarrow> string \<Rightarrow> go_error" where
  "cannot_convert v a b = NewError (''cannot convert '' @ type_h v @ '' to '' @ a @ '' for '' @ b @ '' conversion'')"

definition string_to_int :: "'f go_lib \<Rightarrow> 'f coerce_func" where
  "string_to_int lib = on_text lib (\<lambda>text. let s = trim_space text in case parse_int64 s of
     Inr i \<Rightarrow> Inr (HInt i)
   | Inl err \<Rightarrow> (case fl_parse lib s of
        Inl _ \<Rightarrow> Inl (Wrapped (''cannot parse '' @ quoted s @ '' as int: '') err)
      | Inr f \<Rightarrow> Inr (HInt (fl_to_int lib f))))"

definition int_to_string :: "'f go_lib \<Rightarrow> 'f coerce_func" where
  "int_to_string lib h v = (case toInt64 lib v of
     None \<Rightarrow> print_as lib h v
   | Some i \<Rightarrow> Some (Inr (HString (show_int i))))"

definition string_to_float :: "'f go_lib \<Rightarrow> 'f coerce_func" where
  "string_to_float lib = on_text lib (\<lambda>s. case fl_parse lib (trim_space s) of
     Inl err \<Rightarrow> Inl (Wrapped (''cannot parse '' @ quoted s @ '' as float: '') err)
   | Inr f \<Rightarrow> Inr (HFloat f))"

definition float_to_string :: "'f go_lib \<Rightarrow> 'f coerce_func" where
  "float_to_string lib h v = (case toFloat64 lib v of
     None \<Rightarrow> print_as lib h v
   | Some f \<Rightarrow> Some (Inr (HString (fl_text lib f))))"

definition string_to_bool :: "'f go_lib \<Rightarrow> 'f coerce_func" where
  "string_to_bool lib = on_text lib (\<lambda>s. case parse_bool (trim_space s) of
     Inr b \<Rightarrow> Inr (HBool b)
   | Inl err \<Rightarrow>
      (let lower = map to_lower (trim_space s)
       in if lower \<in> {''yes'', ''y'', ''1'', ''on''} then Inr (HBool True)
          else if lower \<in> {''no'', ''n'', ''0'', ''off''} then Inr (HBool False)
          else Inl (Wrapped (''cannot parse '' @ quoted s @ '' as bool: '') err)))"

definition bool_to_string :: "'f go_lib \<Rightarrow> 'f coerce_func" where
  "bool_to_string lib h v = (case v of HBool b \<Rightarrow> Some (Inr (HString (bool_text b))) | _ \<Rightarrow> print_as lib h v)"

text \<open>The layouts of the conversion to a time, RFC 1123 at the end.\<close>

definition coercer_layouts :: "string list" where
  "coercer_layouts = [RFC3339, RFC3339Nano, ''2006-01-02T15:04:05'', ''2006-01-02 15:04:05'', ''2006-01-02'',
     ''Mon, 02 Jan 2006 15:04:05 MST'', ''Mon, 02 Jan 2006 15:04:05 -0700'']"

definition string_to_time :: "'f go_lib \<Rightarrow> 'f coerce_func" where
  "string_to_time lib = on_text lib (\<lambda>text. let s = trim_space text in case first_parse lib coercer_layouts s of
     Some t \<Rightarrow> Inr (HTime t)
   | None \<Rightarrow> (case parse_int64 s of
        Inr ts \<Rightarrow> Inr (HTime (unix_time ts))
      | Inl _ \<Rightarrow> Inl (NewError (''cannot parse '' @ quoted s @ '' as time: no matching format''))))"

definition time_to_string :: "'f go_lib \<Rightarrow> 'f coerce_func" where
  "time_to_string lib h v = (case v of
     HTime t \<Rightarrow> Some (Inr (HString (time_format lib RFC3339 t)))
   | HString s \<Rightarrow> Some (Inr (HString s))
   | _ \<Rightarrow> print_as lib h v)"

definition int_to_float :: "'f go_lib \<Rightarrow> 'f coerce_func" where
  "int_to_float lib h v = Some (case toInt64 lib v of
     None \<Rightarrow> Inl (cannot_convert v ''int'' ''float'') | Some i \<Rightarrow> Inr (HFloat (fl_of_int lib i)))"

definition float_to_int :: "'f go_lib \<Rightarrow> 'f coerce_func" where
  "float_to_int lib h v = Some (case toFloat64 lib v of
     None \<Rightarrow> Inl (cannot_convert v ''float'' ''int'') | Some f \<Rightarrow> Inr (HInt (fl_to_int lib f)))"

definition int_to_bool :: "'f go_lib \<Rightarrow> 'f coerce_func" where
  "int_to_bool lib h v = Some (case toInt64 lib v of
     None \<Rightarrow> Inl (cannot_convert v ''int'' ''bool'') | Some i \<Rightarrow> Inr (HBool (i \<noteq> 0)))"

definition bool_to_int :: "'f go_lib \<Rightarrow> 'f coerce_func" where
  "bool_to_int lib h v = Some (case v of
     HBool b \<Rightarrow> Inr (HInt (if b then 1 else 0)) | _ \<Rightarrow> Inl (cannot_convert v ''bool'' ''int''))"

definition float_to_bool :: "'f go_lib \<Rightarrow> 'f coerce_func" where
  "float_to_bool lib h v = Some (case toFloat64 lib v of
     None \<Rightarrow> Inl (cannot_convert v ''float'' ''bool'') | Some f \<Rightarrow> Inr (HBool (\<not> fl_is_zero lib f)))"

definition bool_to_float :: "'f go_lib \<Rightarrow> 'f coerce_func" where
  "bool_to_float lib h v = Some (case v of
     HBool b \<Rightarrow> Inr (HFloat (fl_of_int lib (if b then 1 else 0))) | _ \<Rightarrow> Inl (cannot_convert v ''bool'' ''float''))"

section \<open>The table\<close>

definition coercionKey :: "string \<Rightarrow> string \<Rightarrow> string" where
  "coercionKey from to = from @ ''->'' @ to"

definition coercer_builtins :: "'f go_lib \<Rightarrow> 'f type_coercer" where
  "coercer_builtins lib =
    [(''string->int'', string_to_int lib), (''int->string'', int_to_string lib),
     (''string->float'', string_to_float lib), (''float->string'', float_to_string lib),
     (''string->bool'', string_to_bool lib), (''bool->string'', bool_to_string lib),
     (''string->time'', string_to_time lib), (''time->string'', time_to_string lib),
     (''int->float'', int_to_float lib), (''float->int'', float_to_int lib),
     (''int->bool'', int_to_bool lib), (''bool->int'', bool_to_int lib),
     (''float->bool'', float_to_bool lib), (''bool->float'', bool_to_float lib)]"

definition NewTypeCoercer :: "'f go_lib \<Rightarrow> 'f type_coercer" where
  "NewTypeCoercer lib = coercer_builtins lib"

definition RegisterConverter :: "string \<Rightarrow> string \<Rightarrow> 'f coerce_func \<Rightarrow> 'f type_coercer \<Rightarrow> 'f type_coercer" where
  "RegisterConverter from to fn tc = AList.update (coercionKey from to) fn tc"

definition normalizeType :: "string \<Rightarrow> string" where
  "normalizeType t =
    (let s = map to_lower (trim_space t)
     in if s \<in> {''string'', ''str'', ''text'', ''varchar''} then ''string''
        else if s \<in> {''int'', ''int32'', ''int64'', ''integer'', ''bigint''} then ''int''
        else if s \<in> {''float'', ''float32'', ''float64'', ''double'', ''decimal'', ''number''} then ''float''
        else if s \<in> {''bool'', ''boolean''} then ''bool''
        else if s \<in> {''time'', ''timestamp'', ''datetime'', ''date''} then ''time''
        else s)"

definition Coerce :: "'f type_coercer \<Rightarrow> 'f heap \<Rightarrow> 'f hval \<Rightarrow> string \<Rightarrow> string \<Rightarrow> 'f hval result option" where
  "Coerce tc h v fromType toType =
    (if v = HNil then Some (Inr HNil)
     else let from = normalizeType fromType; to = normalizeType toType
          in if from = to then Some (Inr v)
             else case map_of tc (coercionKey from to) of
                    None \<Rightarrow> Some (Inl (NewError (''no converter registered for '' @ from @ '' -> '' @ to)))
                  | Some fn \<Rightarrow> fn h v)"

section \<open>Names of types\<close>

lemma dropWhile_unspaced: "xs = [] \<or> \<not> is_space (hd xs) \<Longrightarrow> dropWhile is_space xs = xs"
  by (cases xs) auto

lemma trim_space_unspaced: "\<forall>c \<in> set s. \<not> is_space c \<Longrightarrow> trim_space s = s"
proof -
  assume ns: "\<forall>c \<in> set s. \<not> is_space c"
  then have "dropWhile is_space s = s" "dropWhile is_space (rev s) = rev s"
    by (auto intro!: dropWhile_unspaced simp: hd_rev)
  then show ?thesis by (simp add: trim_space_def)
qed

lemma trim_space_trim [simp]: "trim_space (trim_space s) = trim_space s"
proof -
  let ?d = "dropWhile is_space"
  define a where "a = rev (?d s)"
  define b where "b = ?d a"
  have "?d s = [] \<or> \<not> is_space (hd (?d s))" using hd_dropWhile [of is_space s] by blast
  then have last_a: "a = [] \<or> \<not> is_space (last a)" by (simp add: a_def last_rev)
  have "last b = last a" if "b \<noteq> []"
    using that unfolding b_def by (metis last_appendR takeWhile_dropWhile_id)
  moreover have "a \<noteq> []" if "b \<noteq> []" using that by (auto simp: b_def)
  ultimately have "b = [] \<or> \<not> is_space (last b)" using last_a by auto
  then have "?d (rev b) = rev b" by (intro dropWhile_unspaced) (auto simp: hd_rev)
  moreover have "?d b = b"
    unfolding b_def by (rule dropWhile_unspaced) (use hd_dropWhile [of is_space a] in blast)
  ultimately show ?thesis by (simp add: trim_space_def flip: a_def b_def)
qed

lemma to_lower_lower [simp]: "to_lower (to_lower c) = to_lower c"
  by (cases c) (auto simp: to_lower_def byte_def char_byte_def)

lemma byte_char_byte: "n < 256 \<Longrightarrow> byte (char_byte n) = n"
  by (simp add: byte_def char_byte_def)

lemma is_space_to_lower [simp]: "is_space (to_lower c) \<longleftrightarrow> is_space c"
  by (auto simp: is_space_def to_lower_def byte_char_byte)

lemma trim_space_lower: "trim_space (map to_lower s) = map to_lower (trim_space s)"
  by (simp add: trim_space_def dropWhile_map rev_map o_def)

lemma normalizeType_idem [simp]: "normalizeType (normalizeType t) = normalizeType t"
proof -
  have "map to_lower (trim_space (map to_lower (trim_space t))) = map to_lower (trim_space t)"
    by (simp add: trim_space_lower)
  then show ?thesis
    unfolding normalizeType_def Let_def
    by (auto simp: trim_space_def is_space_def byte_def to_lower_def char_byte_def)
qed

lemma split_at_minus:
  "CHR ''-'' \<notin> set f \<Longrightarrow> CHR ''-'' \<notin> set f' \<Longrightarrow> f @ CHR ''-'' # t = f' @ CHR ''-'' # t' \<longleftrightarrow> f = f' \<and> t = t'"
  by (auto simp: append_eq_append_conv2 append_eq_Cons_conv Cons_eq_append_conv)

lemma coercionKey_inject:
  assumes "CHR ''-'' \<notin> set f" "CHR ''-'' \<notin> set t"
  shows "coercionKey f t = coercionKey f' t' \<longleftrightarrow> f = f' \<and> t = t'"
proof
  assume eq: "coercionKey f t = coercionKey f' t'"
  moreover have "count_list (coercionKey f t) (CHR ''-'') = 1"
    using assms by (simp add: coercionKey_def count_notin)
  ultimately have "count_list (coercionKey f' t') (CHR ''-'') = 1" by simp
  then have "CHR ''-'' \<notin> set f'" by (auto simp: coercionKey_def count_list_0_iff)
  with eq assms show "f = f' \<and> t = t'" by (simp add: coercionKey_def split_at_minus)
qed auto

text \<open>
  What registering a converter changes. For names without a minus sign, \<open>Coerce\<close> uses the registered
  function for exactly the values whose type names normalise to the names it was registered under; nil and
  values that already have the target type never reach it. Since \<open>RegisterConverter\<close> does not normalise,
  a converter registered under an alias such as \<open>text\<close> or \<open>int64\<close> is never used.
\<close>

theorem registered_converter_used:
  assumes "CHR ''-'' \<notin> set from" "CHR ''-'' \<notin> set to"
  shows "Coerce (RegisterConverter from to fn tc) h v a b =
      (if v \<noteq> HNil \<and> normalizeType a \<noteq> normalizeType b \<and> from = normalizeType a \<and> to = normalizeType b
       then fn h v else Coerce tc h v a b)
    \<and> (normalizeType from \<noteq> from \<or> normalizeType to \<noteq> to
      \<longrightarrow> Coerce (RegisterConverter from to fn tc) h v a b = Coerce tc h v a b)"
proof -
  have inj: "coercionKey (normalizeType a) (normalizeType b) = coercionKey from to
      \<longleftrightarrow> from = normalizeType a \<and> to = normalizeType b"
    using coercionKey_inject [OF assms] by metis
  have "Coerce (RegisterConverter from to fn tc) h v a b =
      (if v \<noteq> HNil \<and> normalizeType a \<noteq> normalizeType b \<and> from = normalizeType a \<and> to = normalizeType b
       then fn h v else Coerce tc h v a b)"
    by (simp add: Coerce_def RegisterConverter_def update_conv' Let_def inj)
  moreover have "\<not> (from = normalizeType a \<and> to = normalizeType b)"
    if "normalizeType from \<noteq> from \<or> normalizeType to \<noteq> to"
    using that normalizeType_idem by metis
  ultimately show ?thesis by (metis (full_types))
qed

theorem registered_converter_used_witness:
  "Coerce (RegisterConverter ''string'' ''uuid'' (\<lambda>h v. Some (Inr (HInt 7))) (NewTypeCoercer int_lib)) []
      (HString ''x'') ''text'' ''UUID'' = Some (Inr (HInt 7))
    \<and> Coerce (RegisterConverter ''text'' ''int'' (\<lambda>h v. Some (Inr (HInt 7))) (NewTypeCoercer int_lib)) []
      (HString ''3'') ''text'' ''int'' = Some (Inr (HInt 3))"
proof -
  have n: "normalizeType ''text'' = ''string''" "normalizeType ''UUID'' = ''uuid''" "normalizeType ''int'' = ''int''"
    by code_simp+
  let ?fn = "\<lambda>(h :: int heap) (v :: int hval). Some (Inr (HInt 7 :: int hval) :: int hval result)"
  have "Coerce (NewTypeCoercer int_lib) [] (HString ''3'') ''text'' ''int'' = Some (Inr (HInt 3))"
    by (simp add: Coerce_def n coercionKey_def NewTypeCoercer_def coercer_builtins_def string_to_int_def on_text_def
        coercer_toString_def trim_space_def is_space_def byte_def parse_int64_def in_i64_def)
  moreover have "Coerce (RegisterConverter ''text'' ''int'' ?fn (NewTypeCoercer int_lib)) [] (HString ''3'') ''text'' ''int''
      = Coerce (NewTypeCoercer int_lib) [] (HString ''3'') ''text'' ''int''"
    using registered_converter_used [of "''text''" "''int''" ?fn] n by simp
  moreover have "Coerce (RegisterConverter ''string'' ''uuid'' ?fn (NewTypeCoercer int_lib)) []
      (HString ''x'') ''text'' ''UUID'' = Some (Inr (HInt 7))"
    using registered_converter_used [of "''string''" "''uuid''" ?fn] n by simp
  ultimately show ?thesis by simp
qed

section \<open>Built-in conversions\<close>

lemma show_nat_digits: "c \<in> set (show_nat n) \<Longrightarrow> is_digit c"
proof (induction n rule: show_nat.induct)
  case (1 n)
  have "is_digit (digit_char d)" if "d < 10" for d
    using that by (simp add: is_digit_def byte_def)
  with 1 show ?case by (subst (asm) show_nat.simps) (auto split: if_splits)
qed

lemma trim_show_int [simp]: "trim_space (show_int i) = show_int i"
proof (rule trim_space_unspaced)
  have "\<not> is_space (CHR ''-'')" by (simp add: is_space_def byte_def)
  then show "\<forall>c \<in> set (show_int i). \<not> is_space c"
    by (auto simp: show_int_def intro: is_space_digit dest: show_nat_digits)
qed

lemma parse_show_int [simp]: "in_i64 i \<Longrightarrow> parse_int64 (show_int i) = Inr i"
proof -
  assume i: "in_i64 i"
  obtain c cs where s: "show_nat (nat i) = c # cs" by (cases "show_nat (nat i)") auto
  then have d: "is_digit c" using show_nat_digits [of c "nat i"] by simp
  have "c \<noteq> CHR ''+''" "c \<noteq> CHR ''-''" using d by (auto simp: is_digit_def byte_def)
  then show ?thesis
    using i s read_show_nat [of "nat i"] read_show_nat [of "nat (- i)"]
    by (simp add: parse_int64_def show_int_def Let_def)
qed

definition type_label :: "'f hval \<Rightarrow> string option" where
  "type_label v = (case v of HString _ \<Rightarrow> Some ''string'' | HInt _ \<Rightarrow> Some ''int'' | HFloat _ \<Rightarrow> Some ''float''
     | HBool _ \<Rightarrow> Some ''bool'' | HTime _ \<Rightarrow> Some ''time'' | _ \<Rightarrow> None)"

text \<open>The pairs of types that the table has no conversion for, and the conversions that parse.\<close>

definition may_fail :: "string \<Rightarrow> string \<Rightarrow> bool" where
  "may_fail from to \<longleftrightarrow> from = ''string'' \<or> to = ''time'' \<or> from = ''time'' \<and> to \<noteq> ''string''
     \<or> to \<notin> {''string'', ''int'', ''float'', ''bool''}"

lemmas conversions = string_to_int_def int_to_string_def string_to_float_def float_to_string_def
  string_to_bool_def bool_to_string_def string_to_time_def time_to_string_def int_to_float_def float_to_int_def
  int_to_bool_def bool_to_int_def float_to_bool_def bool_to_float_def on_text_def print_as_def
  coercer_toString_def toInt64_def toFloat64_def

lemma coercionKey_eq:
  "CHR ''-'' \<notin> set f \<Longrightarrow> CHR ''-'' \<notin> set t \<Longrightarrow> f @ CHR ''-'' # CHR ''>'' # t = k \<Longrightarrow>
    coercionKey f' t' = k \<longleftrightarrow> f' = f \<and> t' = t"
  using coercionKey_inject [of f t f' t'] by (auto simp: coercionKey_def)

lemma key_table:
  "coercionKey f t = ''string->int'' \<longleftrightarrow> f = ''string'' \<and> t = ''int''"
  "coercionKey f t = ''int->string'' \<longleftrightarrow> f = ''int'' \<and> t = ''string''"
  "coercionKey f t = ''string->float'' \<longleftrightarrow> f = ''string'' \<and> t = ''float''"
  "coercionKey f t = ''float->string'' \<longleftrightarrow> f = ''float'' \<and> t = ''string''"
  "coercionKey f t = ''string->bool'' \<longleftrightarrow> f = ''string'' \<and> t = ''bool''"
  "coercionKey f t = ''bool->string'' \<longleftrightarrow> f = ''bool'' \<and> t = ''string''"
  "coercionKey f t = ''string->time'' \<longleftrightarrow> f = ''string'' \<and> t = ''time''"
  "coercionKey f t = ''time->string'' \<longleftrightarrow> f = ''time'' \<and> t = ''string''"
  "coercionKey f t = ''int->float'' \<longleftrightarrow> f = ''int'' \<and> t = ''float''"
  "coercionKey f t = ''float->int'' \<longleftrightarrow> f = ''float'' \<and> t = ''int''"
  "coercionKey f t = ''int->bool'' \<longleftrightarrow> f = ''int'' \<and> t = ''bool''"
  "coercionKey f t = ''bool->int'' \<longleftrightarrow> f = ''bool'' \<and> t = ''int''"
  "coercionKey f t = ''float->bool'' \<longleftrightarrow> f = ''float'' \<and> t = ''bool''"
  "coercionKey f t = ''bool->float'' \<longleftrightarrow> f = ''bool'' \<and> t = ''float''"
  by (rule coercionKey_eq; simp)+

lemma builtin_lookup: "map_of (NewTypeCoercer lib) (coercionKey from to) =
    (if from = ''string'' then (if to = ''int'' then Some (string_to_int lib) else if to = ''float'' then Some (string_to_float lib) else if to = ''bool'' then Some (string_to_bool lib) else if to = ''time'' then Some (string_to_time lib) else None)
     else if from = ''int'' then (if to = ''string'' then Some (int_to_string lib) else if to = ''float'' then Some (int_to_float lib) else if to = ''bool'' then Some (int_to_bool lib) else None)
     else if from = ''float'' then (if to = ''string'' then Some (float_to_string lib) else if to = ''int'' then Some (float_to_int lib) else if to = ''bool'' then Some (float_to_bool lib) else None)
     else if from = ''bool'' then (if to = ''string'' then Some (bool_to_string lib) else if to = ''int'' then Some (bool_to_int lib) else if to = ''float'' then Some (bool_to_float lib) else None)
     else if from = ''time'' then (if to = ''string'' then Some (time_to_string lib) else None)
     else None)"
  unfolding NewTypeCoercer_def coercer_builtins_def map_of.simps fst_conv snd_conv fun_upd_apply key_table
  by (auto simp del: )

definition typed_outcome :: "string \<Rightarrow> string \<Rightarrow> 'f hval result option \<Rightarrow> bool" where
  "typed_outcome from to res \<longleftrightarrow> (case res of
     None \<Rightarrow> False
   | Some (Inl _) \<Rightarrow> may_fail from to
   | Some (Inr w) \<Rightarrow> type_label w = Some to)"

definition typed_conv :: "string \<Rightarrow> string \<Rightarrow> 'f coerce_func \<Rightarrow> bool" where
  "typed_conv from to fn \<longleftrightarrow> (\<forall>h v. type_label v = Some from \<longrightarrow> typed_outcome from to (fn h v))"

lemma type_label_iff:
  "type_label v = Some ''string'' \<longleftrightarrow> (\<exists>s. v = HString s)" "type_label v = Some ''int'' \<longleftrightarrow> (\<exists>i. v = HInt i)"
  "type_label v = Some ''float'' \<longleftrightarrow> (\<exists>f. v = HFloat f)" "type_label v = Some ''bool'' \<longleftrightarrow> (\<exists>b. v = HBool b)"
  "type_label v = Some ''time'' \<longleftrightarrow> (\<exists>t. v = HTime t)"
  by (auto simp: type_label_def split: hval.splits)

lemma typed_convs:
  "typed_conv ''string'' ''int'' (string_to_int lib)"
  "typed_conv ''int'' ''string'' (int_to_string lib)"
  "typed_conv ''string'' ''float'' (string_to_float lib)"
  "typed_conv ''float'' ''string'' (float_to_string lib)"
  "typed_conv ''string'' ''bool'' (string_to_bool lib)"
  "typed_conv ''bool'' ''string'' (bool_to_string lib)"
  "typed_conv ''string'' ''time'' (string_to_time lib)"
  "typed_conv ''time'' ''string'' (time_to_string lib)"
  "typed_conv ''int'' ''float'' (int_to_float lib)"
  "typed_conv ''float'' ''int'' (float_to_int lib)"
  "typed_conv ''int'' ''bool'' (int_to_bool lib)"
  "typed_conv ''bool'' ''int'' (bool_to_int lib)"
  "typed_conv ''float'' ''bool'' (float_to_bool lib)"
  "typed_conv ''bool'' ''float'' (bool_to_float lib)"
  unfolding typed_conv_def type_label_iff
  by (auto simp: conversions typed_outcome_def type_label_def Let_def may_fail_def split: sum.split option.split)

lemma builtin_missing:
  "from \<in> {''string'', ''int'', ''float'', ''bool'', ''time''} \<Longrightarrow> from \<noteq> to \<Longrightarrow>
    map_of (NewTypeCoercer lib) (coercionKey from to) = None \<Longrightarrow> may_fail from to"
  unfolding builtin_lookup may_fail_def by (auto split: if_splits)

lemma builtin_typed:
  "map_of (NewTypeCoercer lib) (coercionKey from to) = Some fn \<Longrightarrow> typed_conv from to fn"
  unfolding builtin_lookup by (auto split: if_splits intro: typed_convs)

text \<open>
  C20: the built-in coercions are typed. Given a string, number, boolean or time under a name of its own
  type, \<open>Coerce\<close> ends and delivers a value of the target type or an error, and an error only where it
  parses a string, where the target or source is a time that is not exchanged with a string, or where the
  target type is unknown: between strings, numbers and booleans every other coercion succeeds.
\<close>

theorem coerce_typed:
  assumes "type_label v = Some (normalizeType a)"
  shows "typed_outcome (normalizeType a) (normalizeType b) (Coerce (NewTypeCoercer lib) h v a b)"
proof -
  have "v \<noteq> HNil" "normalizeType a \<in> {''string'', ''int'', ''float'', ''bool'', ''time''}"
    using assms by (auto simp: type_label_def split: hval.splits)
  with assms show ?thesis
    using builtin_typed [of lib "normalizeType a" "normalizeType b"]
      builtin_missing [of "normalizeType a" "normalizeType b" lib]
    by (cases "map_of (NewTypeCoercer lib) (coercionKey (normalizeType a) (normalizeType b))")
      (simp_all add: Coerce_def Let_def typed_conv_def typed_outcome_def)
qed

theorem coerce_typed_witness:
  "typed_outcome ''bool'' ''int'' (Coerce (NewTypeCoercer int_lib) [] (HBool True) ''bool'' ''int'')"
proof -
  have n: "normalizeType ''bool'' = ''bool''" "normalizeType ''int'' = ''int''" by code_simp+
  then have "type_label (HBool True :: int hval) = Some (normalizeType ''bool'')" by (simp add: type_label_def)
  from coerce_typed [OF this, of "''int''" int_lib "[]"] show ?thesis unfolding n .
qed

text \<open>A coercion and the one back.\<close>

definition there_and_back :: "'f type_coercer \<Rightarrow> 'f heap \<Rightarrow> 'f hval \<Rightarrow> string \<Rightarrow> string \<Rightarrow> 'f hval result option" where
  "there_and_back tc h v a b = (case Coerce tc h v a b of
     Some (Inr w) \<Rightarrow> Coerce tc h w b a
   | r \<Rightarrow> r)"

lemma normalize_canonical [simp]: "t \<in> {''string'', ''int'', ''float'', ''bool'', ''time''} \<Longrightarrow> normalizeType t = t"
proof -
  have "list_all (\<lambda>t. normalizeType t = t) [''string'', ''int'', ''float'', ''bool'', ''time'']" by code_simp
  then show "t \<in> {''string'', ''int'', ''float'', ''bool'', ''time''} \<Longrightarrow> normalizeType t = t" by auto
qed

lemma parse_bool_text [simp]: "parse_bool (trim_space (bool_text b)) = Inr b"
proof -
  have "parse_bool (trim_space (bool_text True)) = Inr True" "parse_bool (trim_space (bool_text False)) = Inr False"
    by code_simp+
  then show ?thesis by (cases b) auto
qed

text \<open>
  C21: the coercions to text and back, of booleans to numbers and back, lose nothing. An integer of 64 bits
  and a boolean survive the way through a string, a boolean the way through an integer or a float, and a
  float the way through a string, given that \<open>strconv\<close> parses the shortest decimal text of a float to that
  float, that this text has no spaces, and that \<open>float64\<close> tells 0 from 1.
\<close>

theorem coercion_roundtrips:
  fixes h :: "'f heap"
  assumes "in_i64 i" "fl_parse lib (fl_text lib f) = Inr f" "\<forall>c \<in> set (fl_text lib f). \<not> is_space c"
    and "fl_is_zero lib (fl_of_int lib 0)" "\<not> fl_is_zero lib (fl_of_int lib 1)"
  defines "back \<equiv> there_and_back (NewTypeCoercer lib) h"
  shows "back (HInt i) ''int'' ''string'' = Some (Inr (HInt i))
    \<and> back (HFloat f) ''float'' ''string'' = Some (Inr (HFloat f))
    \<and> back (HBool b) ''bool'' ''string'' = Some (Inr (HBool b))
    \<and> back (HBool b) ''bool'' ''int'' = Some (Inr (HBool b))
    \<and> back (HBool b) ''bool'' ''float'' = Some (Inr (HBool b))"
  using assms(1-5) trim_space_unspaced [of "fl_text lib f"]
  by (simp add: back_def there_and_back_def Coerce_def coercionKey_def NewTypeCoercer_def coercer_builtins_def
      conversions)

theorem coercion_roundtrips_witness:
  "there_and_back (NewTypeCoercer int_lib) [] (HInt (- 5)) ''int'' ''string'' = Some (Inr (HInt (- 5)))"
proof -
  have "in_i64 (- 5)" by (simp add: in_i64_def)
  moreover have "\<forall>c \<in> set (show_int 12). \<not> is_space c" by code_simp
  ultimately show ?thesis
    using coercion_roundtrips [of "- 5" int_lib 12 "[]" True] by (simp add: int_lib_def in_i64_def)
qed

end
