(* ===== verification/Mapper.thy ===== *)
theory Mapper
  imports Coercer
begin

text \<open>
  The field mapper of the transform worker, \<open>internal/worker/transform/mapper.go\<close>: paths, access to
  nested values, the transformations, and \<open>Apply\<close>, which builds a record from the mapped fields of
  another. Maps are objects of a heap, since \<open>Apply\<close> stores maps of the source record and of the
  mappings in the destination and may write into them afterwards. \<open>None\<close> as the outcome of a call is a
  panic or a walk of a cyclic value that overflows the stack.
\<close>

section \<open>Paths\<close>

text \<open>\<open>parsePath\<close>: \<open>cur\<close> is the reversed text of the segment being read.\<close>

definition emit :: "string \<Rightarrow> string list \<Rightarrow> string list" where
  "emit cur segs = (if cur = [] then segs else rev cur # segs)"

function parse_from :: "string \<Rightarrow> string \<Rightarrow> string list" where
  "parse_from cur [] = emit cur []"
| "parse_from cur (ch # cs) =
    (if ch = CHR ''.'' then emit cur (parse_from [] cs)
     else if ch = CHR ''['' then
       (let idx = takeWhile (\<lambda>c. c \<noteq> CHR '']'') cs; rest = dropWhile (\<lambda>c. c \<noteq> CHR '']'') cs
        in emit cur ((CHR ''['' # idx @ take 1 rest) # parse_from [] (drop 1 rest)))
     else parse_from (ch # cur) cs)"
  by pat_completeness auto
termination
  by (relation "measure (\<lambda>(cur, s). length s)") (auto simp: less_Suc_eq_le intro!: diff_le_self [THEN le_trans] length_dropWhile_le)

definition parsePath :: "string \<Rightarrow> string list" where
  "parsePath path = parse_from [] path"

definition bracketed :: "string \<Rightarrow> bool" where
  "bracketed seg \<longleftrightarrow> take 1 seg = ''['' \<and> seg \<noteq> [] \<and> last seg = CHR '']''"

fun get_segments :: "'f heap \<Rightarrow> 'f hval \<Rightarrow> string list \<Rightarrow> 'f hval" where
  "get_segments h current [] = current"
| "get_segments h current (seg # segs) =
    (if current = HNil then HNil
     else if bracketed seg then
       (case parse_int64 (butlast (tl seg)) of
          Inl _ \<Rightarrow> HNil
        | Inr idx \<Rightarrow> (case current of
             HArray arr \<Rightarrow> if idx < 0 \<or> idx \<ge> int (length arr) then HNil else get_segments h (arr ! nat idx) segs
           | _ \<Rightarrow> HNil))
     else (case members_of h current of
          None \<Rightarrow> HNil
        | Some m \<Rightarrow> (case map_of m seg of None \<Rightarrow> HNil | Some v \<Rightarrow> get_segments h v segs)))"

definition getNestedValue :: "'f heap \<Rightarrow> 'f hval \<Rightarrow> string \<Rightarrow> 'f hval" where
  "getNestedValue h data path = get_segments h data (parsePath path)"

fun set_parts :: "'f heap \<Rightarrow> 'f hval \<Rightarrow> string list \<Rightarrow> 'f hval \<Rightarrow> 'f heap option" where
  "set_parts h current [] v = Some h"
| "set_parts h current [k] v = assign h current k v"
| "set_parts h current (k # ks) v =
    (case Option.bind (members_of h current) (\<lambda>m. map_of m k) of
       Some (HRef a) \<Rightarrow> set_parts h (HRef a) ks v
     | Some HNilMap \<Rightarrow> set_parts h HNilMap ks v
     | _ \<Rightarrow> (case new_map h of (nested, h1) \<Rightarrow>
         Option.bind (assign h1 current k nested) (\<lambda>h2. set_parts h2 nested ks v)))"

definition setNestedValue :: "'f heap \<Rightarrow> 'f hval \<Rightarrow> string \<Rightarrow> 'f hval \<Rightarrow> 'f heap option" where
  "setNestedValue h data path v = set_parts h data (go_split path ''.'') v"

section \<open>Transformations\<close>

datatype transform_type =
  TransformRename | TransformCast | TransformExpression | TransformDefault | TransformOther string

text \<open>\<open>FieldMapping\<close>; a default value is part of the program's heap.\<close>

record 'f mapping =
  m_source :: string
  m_dest :: string
  m_transform :: transform_type
  m_cast_type :: string
  m_expression :: string
  m_default :: "'f hval"

definition inferTypeString :: "'f hval \<Rightarrow> string" where
  "inferTypeString v = (case v of
     HFloat _ \<Rightarrow> ''float'' | HInt _ \<Rightarrow> ''int'' | HBool _ \<Rightarrow> ''bool'' | _ \<Rightarrow> ''string'')"

definition evaluateExpression :: "'f go_lib \<Rightarrow> 'f heap \<Rightarrow> string \<Rightarrow> 'f hval \<Rightarrow> 'f hval option" where
  "evaluateExpression lib h expr v =
    (let e = map to_lower (trim_space expr) in
     if v = HNil then Some HNil
     else if e = ''upper'' then Some (case v of HString s \<Rightarrow> HString (map to_upper s) | _ \<Rightarrow> v)
     else if e = ''lower'' then Some (case v of HString s \<Rightarrow> HString (map to_lower s) | _ \<Rightarrow> v)
     else if e = ''trim'' then Some (case v of HString s \<Rightarrow> HString (trim_space s) | _ \<Rightarrow> v)
     else if e = ''negate'' then
       Some (case v of HFloat f \<Rightarrow> HFloat (fl_neg lib f) | HInt i \<Rightarrow> HInt (wrap64 (- i)) | _ \<Rightarrow> v)
     else if e = ''tostring'' then map_option HString (coercer_toString lib h v)
     else if e = ''length'' then
       Some (case v of HString s \<Rightarrow> HInt (int (length s)) | HArray vs \<Rightarrow> HInt (int (length vs)) | _ \<Rightarrow> v)
     else Some v)"

section \<open>Apply\<close>

text \<open>What the mapper uses beside the library of values: its coercer and the errors of \<open>encoding/json\<close>.\<close>

record 'f field_mapper =
  fm_lib :: "'f go_lib"
  fm_coercer :: "'f type_coercer"
  unmarshal_err :: "raw_message \<Rightarrow> go_error"
  marshal_err :: "'f go_value option \<Rightarrow> go_error"  \<comment> \<open>\<open>None\<close>: a cycle\<close>

text \<open>The value of a mapping; an error ends \<open>Apply\<close>.\<close>

definition mapping_value :: "'f field_mapper \<Rightarrow> 'f heap \<Rightarrow> 'f hval \<Rightarrow> 'f mapping \<Rightarrow> 'f hval result option" where
  "mapping_value fm h src m =
    (let v = getNestedValue h src (m_source m) in case m_transform m of
       TransformRename \<Rightarrow> Some (Inr v)
     | TransformCast \<Rightarrow>
        (if v \<noteq> HNil \<and> m_cast_type m \<noteq> []
         then map_option (\<lambda>r. case r of
             Inl err \<Rightarrow> Inl (Wrapped (''cast '' @ m_source m @ '' to '' @ m_cast_type m @ '': '') err)
           | Inr w \<Rightarrow> Inr w) (Coerce (fm_coercer fm) h v (inferTypeString v) (m_cast_type m))
         else Some (Inr v))
     | TransformExpression \<Rightarrow> map_option Inr (evaluateExpression (fm_lib fm) h (m_expression m) v)
     | TransformDefault \<Rightarrow> Some (Inr (if v = HNil then m_default m else v))
     | TransformOther _ \<Rightarrow> Some (Inr v))"

fun apply_mappings :: "'f field_mapper \<Rightarrow> 'f hval \<Rightarrow> 'f hval \<Rightarrow> 'f mapping list \<Rightarrow> 'f heap
    \<Rightarrow> (unit result \<times> 'f heap) option" where
  "apply_mappings fm src dest [] h = Some (Inr (), h)"
| "apply_mappings fm src dest (m # ms) h = (case mapping_value fm h src m of
     None \<Rightarrow> None
   | Some (Inl err) \<Rightarrow> Some (Inl err, h)
   | Some (Inr v) \<Rightarrow>
      (if v = HNil then apply_mappings fm src dest ms h
       else case setNestedValue h dest (m_dest m) v of
              None \<Rightarrow> None
            | Some h' \<Rightarrow> apply_mappings fm src dest ms h'))"

text \<open>\<open>json.Unmarshal\<close> into a map: \<open>null\<close> leaves the map nil.\<close>

definition unmarshal_object :: "'f go_lib \<Rightarrow> raw_message \<Rightarrow> 'f heap \<Rightarrow> ('f hval \<times> 'f heap) option" where
  "unmarshal_object lib raw h =
    (if json_parse raw = Some JNull then Some (HNilMap, h)
     else map_option (\<lambda>ms. place (VMap ms) h) (decode_object lib raw))"

text \<open>\<open>json.Marshal\<close>, which refuses a cyclic value and an infinite number.\<close>

definition marshal_value :: "'f field_mapper \<Rightarrow> 'f go_value option \<Rightarrow> raw_message result" where
  "marshal_value fm t = (case Option.bind t (encode_value (fm_lib fm)) of
     None \<Rightarrow> Inl (Wrapped ''marshal mapped record: '' (marshal_err fm t))
   | Some raw \<Rightarrow> Inr raw)"

definition Apply :: "'f field_mapper \<Rightarrow> raw_message \<Rightarrow> 'f mapping list \<Rightarrow> 'f heap
    \<Rightarrow> (raw_message result \<times> 'f heap) option" where
  "Apply fm record mappings h = (case unmarshal_object (fm_lib fm) record h of
     None \<Rightarrow> Some (Inl (Wrapped ''unmarshal source record: '' (unmarshal_err fm record)), h)
   | Some (src, h1) \<Rightarrow>
      (case new_map h1 of (dest, h2) \<Rightarrow>
        (case apply_mappings fm src dest mappings h2 of
           None \<Rightarrow> None
         | Some (Inl err, h3) \<Rightarrow> Some (Inl err, h3)
         | Some (Inr _, h3) \<Rightarrow> Some (marshal_value fm (tree_of VNil h3 dest), h3))))"

declare parse_from.simps [simp del]

section \<open>Paths: lemmas\<close>

text \<open>A segment of a path as it is written: a key, or an index in brackets.\<close>

definition plain_key :: "string \<Rightarrow> bool" where
  "plain_key k \<longleftrightarrow> k \<noteq> [] \<and> CHR ''.'' \<notin> set k \<and> CHR ''['' \<notin> set k"

definition index_segment :: "string \<Rightarrow> bool" where
  "index_segment seg \<longleftrightarrow> (\<exists>i. seg = CHR ''['' # i @ '']'' \<and> CHR '']'' \<notin> set i)"

text \<open>The text of a path: a dot before every key but the first.\<close>

fun path_text :: "string list \<Rightarrow> string" where
  "path_text [] = []"
| "path_text [s] = s"
| "path_text (s # t # ts) = (if index_segment t then s @ path_text (t # ts) else s @ CHR ''.'' # path_text (t # ts))"

lemma parse_from_plain:
  "CHR ''.'' \<notin> set k \<Longrightarrow> CHR ''['' \<notin> set k \<Longrightarrow> parse_from cur (k @ s) = parse_from (rev k @ cur) s"
  by (induction k arbitrary: cur) (auto simp: parse_from.simps)

lemma emit_rev: "k \<noteq> [] \<Longrightarrow> emit (rev k) segs = k # segs"
  by (simp add: emit_def)

lemma parse_key:
  assumes "plain_key k"
  shows "parse_from [] k = [k]" and "parse_from [] (k @ CHR ''.'' # s) = k # parse_from [] s"
    and "parse_from [] (k @ CHR ''['' # s) = k # parse_from [] (CHR ''['' # s)"
  using assms parse_from_plain [of k "[]" "[]"] parse_from_plain [of k "[]" "CHR ''.'' # s"]
    parse_from_plain [of k "[]" "CHR ''['' # s"]
  by (simp_all add: plain_key_def emit_rev parse_from.simps emit_def Let_def)

lemma parse_index:
  "CHR '']'' \<notin> set i \<Longrightarrow> parse_from [] (CHR ''['' # i @ CHR '']'' # s) = (CHR ''['' # i @ '']'') # parse_from [] s"
proof -
  assume i: "CHR '']'' \<notin> set i"
  then have "takeWhile (\<lambda>c. c \<noteq> CHR '']'') (i @ CHR '']'' # s) = i"
    "dropWhile (\<lambda>c. c \<noteq> CHR '']'') (i @ CHR '']'' # s) = CHR '']'' # s"
    by (simp_all add: takeWhile_append dropWhile_append)
  then show ?thesis by (simp add: parse_from.simps emit_def Let_def)
qed

lemma path_text_index: "index_segment t \<Longrightarrow> \<exists>s. path_text (t # ts) = CHR ''['' # s"
  by (cases ts) (auto simp: index_segment_def)

lemma parsePath_path_text:
  "list_all (\<lambda>s. plain_key s \<or> index_segment s) segs \<Longrightarrow> parsePath (path_text segs) = segs"
  unfolding parsePath_def
proof (induction segs rule: path_text.induct)
  case 1
  then show ?case by (simp add: parse_from.simps emit_def)
next
  case (2 s)
  then show ?case
    by (auto simp: parse_key index_segment_def parse_index parse_from.simps(1) emit_def
        intro: parse_index [where s = "[]", simplified])
next
  case (3 s t ts)
  then have IH: "parse_from [] (path_text (t # ts)) = t # ts" by auto
  have dot: "parse_from [] (CHR ''.'' # u) = parse_from [] u" for u
    by (simp add: parse_from.simps emit_def)
  from 3 consider "plain_key s" | i where "s = CHR ''['' # i @ '']''" "CHR '']'' \<notin> set i"
    by (auto simp: index_segment_def)
  then show ?case
  proof cases
    case 1
    then show ?thesis
      using IH path_text_index [of t ts] parse_key [OF 1] by (auto simp: dot)
  next
    case 2
    then show ?thesis using IH parse_index [of i] by (auto simp: dot)
  qed
qed

section \<open>Writing and reading back\<close>

lemma assign_Some:
  "assign h m k v = Some h' \<longleftrightarrow> (\<exists>a. m = HRef a \<and> a < length h \<and> h' = h[a := AList.update k v (h ! a)])"
  by (cases m) (auto simp: assign_def)

text \<open>Writing changes the objects that the map reaches, and new ones, only.\<close>

lemma set_parts_frame:
  "set_parts h current ks v = Some h' \<Longrightarrow>
    length h \<le> length h' \<and> (\<forall>a < length h. \<not> reaches h current a \<longrightarrow> h' ! a = h ! a)"
proof (induction h current ks v arbitrary: h' rule: set_parts.induct)
  case (2 h current k v)
  then show ?case by (auto simp: assign_Some nth_list_update intro: reaches.intros)
next
  case (3 h current k k2 ks v)
  have fresh: ?case if h1: "h1 = h @ [[]]" and h2: "assign h1 current k (HRef (length h)) = Some h2"
    and h': "set_parts h2 (HRef (length h)) (k2 # ks) v = Some h'"
    and IH: "length h2 \<le> length h' \<and> (\<forall>a < length h2. \<not> reaches h2 (HRef (length h)) a \<longrightarrow> h' ! a = h2 ! a)" for h1 h2
  proof -
    from h2 obtain b where b: "current = HRef b" "b < Suc (length h)" "h2 = h1[b := AList.update k (HRef (length h)) (h1 ! b)]"
      by (auto simp: assign_Some h1)
    have only: "a = length h" if "reaches h2 x a" "x = HRef (length h)" for x a
    proof -
      have fresh: "snd kv = HRef (length h)" if "kv \<in> set (h2 ! length h)" for kv
        using that b(2) by (cases "b = length h") (auto simp: b(3) h1 nth_append)
      show ?thesis using that by (induction rule: reaches.induct) (auto dest: fresh)
    qed
    have len: "length h2 = Suc (length h)" by (simp add: b(3) h1)
    have "h' ! a = h2 ! a" if "a < length h" for a
    proof -
      have "\<not> reaches h2 (HRef (length h)) a" using only [OF _ refl, of a] that by auto
      then show ?thesis using IH that len by simp
    qed
    moreover have "h2 ! a = h ! a" if "a < length h" "\<not> reaches h current a" for a
      using that b(1) by (auto simp: b(3) h1 nth_append nth_list_update intro: reaches.intros)
    ultimately show ?thesis using IH len by simp
  qed
  let ?next = "Option.bind (members_of h current) (\<lambda>m. map_of m k)"
  have below: "reaches h current a" if "?next = Some (HRef b)" "reaches h (HRef b) a" for a b
    using that by (cases current) (auto simp: members_of_def bind_eq_Some_conv split: if_splits dest!: map_of_SomeD
        intro: reaches_member [where kv = "(k, HRef b)"])
  show ?case
  proof (cases ?next)
    case None
    then show ?thesis using 3 fresh by (auto simp: new_map_def bind_eq_Some_conv)
  next
    case (Some w)
    show ?thesis
    proof (cases "\<exists>x. w = HRef x")
      case True
      then obtain x where w: "w = HRef x" by blast
      then have "set_parts h (HRef x) (k2 # ks) v = Some h'" using 3 Some by simp
      then have "length h \<le> length h' \<and> (\<forall>a < length h. \<not> reaches h (HRef x) a \<longrightarrow> h' ! a = h ! a)"
        using 3 Some w by simp
      moreover have "reaches h current a" if "reaches h (HRef x) a" for a
        using below that Some w by blast
      ultimately show ?thesis by blast
    next
      case False
      then show ?thesis using 3 Some fresh by (cases w) (auto simp: new_map_def bind_eq_Some_conv)
    qed
  qed
qed simp

text \<open>A heap without nil maps, in which no write panics.\<close>

definition no_nil_maps :: "'f heap \<Rightarrow> bool" where
  "no_nil_maps h \<longleftrightarrow> (\<forall>obj \<in> set h. \<forall>kv \<in> set obj. snd kv \<noteq> HNilMap)"

lemma set_update_subset: "set (AList.update k v al) \<subseteq> insert (k, v) (set al)"
  by (induction al) auto

lemma no_nil_maps_update:
  "no_nil_maps h \<Longrightarrow> v \<noteq> HNilMap \<Longrightarrow> b < length h \<Longrightarrow> no_nil_maps (h[b := AList.update k v (h ! b)])"
  unfolding no_nil_maps_def
  by (auto dest!: set_update_subset_insert [THEN subsetD] set_update_subset [THEN subsetD] intro: nth_mem)

lemma no_nil_maps_new: "no_nil_maps h \<Longrightarrow> no_nil_maps (h @ [[]])"
  by (auto simp: no_nil_maps_def)

lemma plain_not_bracketed [simp]: "plain_key k \<Longrightarrow> \<not> bracketed k"
  by (cases k) (auto simp: plain_key_def bracketed_def)

lemma get_segments_step:
  "plain_key k \<Longrightarrow> b < length h \<Longrightarrow> map_of (h ! b) k = Some v \<Longrightarrow>
    get_segments h (HRef b) (k # ks) = get_segments h v ks"
  by (simp add: members_of_def)

lemma set_then_get:
  assumes "read_back nilmap h seen (HRef b) = Some t" "no_nil_maps h" "list_all plain_key ks" "ks \<noteq> []"
  shows "\<exists>h'. set_parts h (HRef b) ks v = Some h' \<and> get_segments h' (HRef b) ks = v"
  using assms
proof (induction ks arbitrary: h seen b t)
  case (Cons k ks)
  have b: "b < length h" using Cons.prems(1) by (auto split: if_splits)
  show ?case
  proof (cases ks)
    case Nil
    with b Cons.prems(3) show ?thesis by (simp add: assign_def members_of_def update_conv')
  next
    case (Cons k2 ks')
    let ?next = "map_of (h ! b) k"
    have nxt: "Option.bind (members_of h (HRef b)) (\<lambda>m. map_of m k) = ?next"
      using b by (simp add: members_of_def)
    show ?thesis
    proof (cases "\<exists>x. ?next = Some (HRef x)")
      case True
      then obtain x where x: "?next = Some (HRef x)" by blast
      then have kv: "(k, HRef x) \<in> set (h ! b)" by (rule map_of_SomeD)
      from acyclic_member [OF Cons.prems(1) kv] obtain t' where t': "read_back nilmap h (b # seen) (HRef x) = Some t'"
        and below: "\<not> reaches h (HRef x) b" by auto
      from Cons.IH [OF t'] Cons.prems Cons obtain h' where h': "set_parts h (HRef x) ks v = Some h'"
        "get_segments h' (HRef x) ks = v" by auto
      from set_parts_frame [OF h'(1)] below b have "h' ! b = h ! b" "b < length h'" by auto
      then have "get_segments h' (HRef b) (k # ks) = get_segments h' (HRef x) ks"
        using x Cons.prems(3) by (intro get_segments_step) simp_all
      moreover have "set_parts h (HRef b) (k # ks) v = set_parts h (HRef x) ks v" using nxt x Cons by simp
      ultimately show ?thesis using h' by metis
    next
      case False
      let ?h2 = "(h @ [[]])[b := AList.update k (HRef (length h)) (h ! b)]"
      have nilnil: "?next \<noteq> Some HNilMap"
        using Cons.prems(2) b by (force simp: no_nil_maps_def dest: map_of_SomeD)
      have h2: "assign (h @ [[]]) (HRef b) k (HRef (length h)) = Some ?h2"
        using b by (simp add: assign_def nth_append)
      have empty: "?h2 ! length h = []" using b by (simp add: nth_append)
      have "no_nil_maps ?h2"
        using no_nil_maps_update [OF no_nil_maps_new [OF Cons.prems(2)], of "HRef (length h)" b k] b
        by (simp add: nth_append)
      moreover have "read_back nilmap ?h2 [] (HRef (length h)) = Some (VMap [])"
        using empty by simp
      ultimately obtain h' where h': "set_parts ?h2 (HRef (length h)) ks v = Some h'"
        "get_segments h' (HRef (length h)) ks = v"
        using Cons.IH [where h = ?h2 and b = "length h" and seen = "[]" and t = "VMap []"] Cons.prems(3) Cons by auto
      have "\<not> reaches ?h2 (HRef (length h)) b"
        using b empty by (auto elim!: reaches_RefE)
      with set_parts_frame [OF h'(1)] b have "h' ! b = ?h2 ! b" "b < length h'" by auto
      then have "map_of (h' ! b) k = Some (HRef (length h))" "b < length h'" using b by (simp_all add: update_conv')
      then have "get_segments h' (HRef b) (k # ks) = get_segments h' (HRef (length h)) ks"
        using Cons.prems(3) by (intro get_segments_step) simp_all
      moreover have "set_parts h (HRef b) (k # ks) v = set_parts ?h2 (HRef (length h)) ks v"
        using nxt h2 False nilnil Cons by (auto simp: new_map_def split: option.split hval.split)
      ultimately show ?thesis using h' by metis
    qed
  qed
qed simp

lemma split_dots:
  "CHR ''.'' \<notin> set k \<Longrightarrow> split_parts ''.'' cur k = [rev cur @ k]"
  "CHR ''.'' \<notin> set k \<Longrightarrow> split_parts ''.'' cur (k @ CHR ''.'' # s) = (rev cur @ k) # split_parts ''.'' [] s"
  by (induction k arbitrary: cur) (auto simp: split_parts.simps)

lemma plain_not_index: "plain_key k \<Longrightarrow> \<not> index_segment k"
  by (auto simp: plain_key_def index_segment_def)

lemma split_path_text: "list_all plain_key ks \<Longrightarrow> ks \<noteq> [] \<Longrightarrow> go_split (path_text ks) ''.'' = ks"
  unfolding go_split_def
  by (induction ks rule: path_text.induct) (auto simp: split_dots plain_not_index, auto simp: plain_key_def split_dots)

text \<open>
  \<open>parsePath\<close> inverts the dot notation. A sequence of keys (non-empty texts without dots and opening
  brackets) and indices in brackets, written with a dot before every key but the first, is parsed back to
  exactly these segments.
\<close>

theorem path_roundtrip:
  assumes "list_all (\<lambda>s. plain_key s \<or> index_segment s) segs"
  shows "parsePath (path_text segs) = segs"
  by (rule parsePath_path_text [OF assms])

theorem path_roundtrip_witness: "parsePath ''items[0].name'' = [''items'', ''[0]'', ''name'']"
proof -
  have "index_segment ''[0]''" unfolding index_segment_def by (intro exI [of _ "''0''"]) simp
  moreover have "\<not> index_segment ''name''" by (simp add: index_segment_def)
  ultimately show ?thesis
    using path_roundtrip [of "[''items'', ''[0]'', ''name'']"] by (simp add: plain_key_def)
qed

text \<open>
  C19: a value written at a path is read at that path. In a heap without nil maps, let a path be keys joined
  by dots. If the value of the map can be walked to its end, \<open>setNestedValue\<close> does not panic, whatever
  lies on the path so far (missing keys and values that are no maps are replaced by new maps), and
  \<open>getNestedValue\<close> then returns the value written.
\<close>

theorem set_get_roundtrip:
  assumes "no_nil_maps h" "tree_of VNil h (HRef b) = Some t" "list_all plain_key ks" "ks \<noteq> []"
  shows "\<exists>h'. setNestedValue h (HRef b) (path_text ks) v = Some h'
    \<and> getNestedValue h' (HRef b) (path_text ks) = v"
proof -
  have "parsePath (path_text ks) = ks" using assms(3) by (intro parsePath_path_text) (simp add: list_all_iff)
  then show ?thesis
    using set_then_get [of VNil h "[]" b t ks v] assms
    by (simp add: setNestedValue_def getNestedValue_def split_path_text tree_of_def)
qed

theorem set_get_roundtrip_witness:
  "\<exists>h'. setNestedValue [[(''a'', HInt 1)]] (HRef 0) ''a.b'' (HBool True :: int hval) = Some h'
    \<and> getNestedValue h' (HRef 0) ''a.b'' = HBool True"
proof -
  have "no_nil_maps [[(''a'', HInt 1 :: int hval)]]" by (simp add: no_nil_maps_def)
  moreover have "tree_of VNil [[(''a'', HInt 1 :: int hval)]] (HRef 0) = Some (VMap [(''a'', VInt 1)])"
    by (simp add: tree_of_def)
  ultimately show ?thesis
    using set_get_roundtrip [of "[[(''a'', HInt 1)]]" 0 _ "[''a'', ''b'']" "HBool True"]
    by (simp add: plain_key_def index_segment_def)
qed

end
