(* ===== verification/MapperRename.thy ===== *)
theory MapperRename
  imports Mapper
begin

text \<open>
  What the field mapper computes does not depend on the addresses of the objects it meets. Two heaps are
  related by a renaming of some addresses; reading a path, printing, the built-in coercions and the
  transformations then give related values. Equal heaps below an address are the special case of the
  identity.
\<close>

section \<open>Moving addresses\<close>

fun ren :: "(nat \<Rightarrow> nat) \<Rightarrow> 'f hval \<Rightarrow> 'f hval" where
  "ren \<sigma> (HRef a) = HRef (\<sigma> a)"
| "ren \<sigma> (HArray vs) = HArray (map (ren \<sigma>) vs)"
| "ren \<sigma> v = v"

definition ren_obj :: "(nat \<Rightarrow> nat) \<Rightarrow> 'f object \<Rightarrow> 'f object" where
  "ren_obj \<sigma> obj = map (\<lambda>kv. (fst kv, ren \<sigma> (snd kv))) obj"

fun refs_in :: "nat set \<Rightarrow> 'f hval \<Rightarrow> bool" where
  "refs_in D (HRef a) \<longleftrightarrow> a \<in> D"
| "refs_in D (HArray vs) \<longleftrightarrow> list_all (refs_in D) vs"
| "refs_in D _ \<longleftrightarrow> True"

text \<open>On the addresses \<open>D\<close>, the second heap is the first with its addresses moved.\<close>

definition renamed :: "(nat \<Rightarrow> nat) \<Rightarrow> nat set \<Rightarrow> 'f heap \<Rightarrow> 'f heap \<Rightarrow> bool" where
  "renamed \<sigma> D h h' \<longleftrightarrow> inj_on \<sigma> D \<and> (\<forall>a \<in> D. a < length h \<and> \<sigma> a < length h'
     \<and> h' ! \<sigma> a = ren_obj \<sigma> (h ! a) \<and> (\<forall>kv \<in> set (h ! a). refs_in D (snd kv)))"

lemma refs_in_mono: "refs_in D v \<Longrightarrow> D \<subseteq> E \<Longrightarrow> refs_in E v"
  by (induction D v rule: refs_in.induct) (auto simp: list_all_iff)

lemma ren_HNil [simp]: "ren \<sigma> v = HNil \<longleftrightarrow> v = HNil" "HNil = ren \<sigma> v \<longleftrightarrow> v = HNil"
  by (cases v; simp)+

lemma ren_id: "refs_in D v \<Longrightarrow> (\<And>a. a \<in> D \<Longrightarrow> \<sigma> a = a) \<Longrightarrow> ren \<sigma> v = v"
  by (induction D v rule: refs_in.induct) (auto simp: list_all_iff intro: map_idI)

lemma map_of_map_snd: "map_of (map (\<lambda>kt. (fst kt, f (snd kt))) ms) k = map_option f (map_of ms k)"
  by (induction ms) auto

lemma those_map_cong: "(\<And>x. x \<in> set xs \<Longrightarrow> f x = g x) \<Longrightarrow> those (map f xs) = those (map g xs)"
  by (metis map_cong)

lemma map_of_ren_obj: "map_of (ren_obj \<sigma> obj) k = map_option (ren \<sigma>) (map_of obj k)"
  by (simp add: ren_obj_def map_of_map_snd)

lemma members_ren:
  "renamed \<sigma> D h h' \<Longrightarrow> refs_in D v \<Longrightarrow> members_of h' (ren \<sigma> v) = map_option (ren_obj \<sigma>) (members_of h v)"
  by (cases v) (auto simp: members_of_def renamed_def ren_obj_def)

lemma member_refs:
  "renamed \<sigma> D h h' \<Longrightarrow> refs_in D v \<Longrightarrow> members_of h v = Some m \<Longrightarrow> map_of m k = Some w \<Longrightarrow> refs_in D w"
  by (cases v) (fastforce simp: members_of_def renamed_def split: if_splits dest!: map_of_SomeD)+

lemma get_segments_ren:
  "renamed \<sigma> D h h' \<Longrightarrow> refs_in D v \<Longrightarrow>
    get_segments h' (ren \<sigma> v) segs = ren \<sigma> (get_segments h v segs) \<and> refs_in D (get_segments h v segs)"
proof (induction h v segs rule: get_segments.induct)
  case (2 h current seg segs)
  show ?case
  proof (cases "current = HNil")
    case False
    show ?thesis
    proof (cases "bracketed seg")
      case True
      have elem: "refs_in D (vs ! nat i)" if "current = HArray vs" "0 \<le> i" "i < int (length vs)" for vs i
        using that 2(4) by (auto simp: list_all_length nat_less_iff)
      show ?thesis
        using 2(1,3,4) False True elem by (cases current) (auto split: sum.split)
    next
      case nb: False
      show ?thesis
        using 2(2,3,4) False nb members_ren [OF 2(3,4)] member_refs [OF 2(3,4)]
        by (auto simp: map_of_ren_obj split: option.split)
    qed
  qed simp
qed simp

lemma read_back_ren:
  "renamed \<sigma> D h h' \<Longrightarrow> refs_in D v \<Longrightarrow> \<forall>a \<in> D. \<sigma> a \<in> set seen' \<longleftrightarrow> a \<in> set seen \<Longrightarrow>
    read_back nilmap h' seen' (ren \<sigma> v) = read_back nilmap h seen v"
proof (induction nilmap h seen v arbitrary: seen' rule: read_back.induct)
  case (7 nilmap h seen vs)
  then have "those (map (read_back nilmap h' seen' \<circ> ren \<sigma>) vs) = those (map (read_back nilmap h seen) vs)"
    by (intro those_map_cong) (auto simp: list_all_iff)
  then show ?case by simp
next
  case (9 nilmap h seen a)
  then have a: "a \<in> D" "a < length h" "\<sigma> a < length h'" "h' ! \<sigma> a = ren_obj \<sigma> (h ! a)"
    and inj: "\<And>b. b \<in> D \<Longrightarrow> \<sigma> b = \<sigma> a \<longleftrightarrow> b = a"
    by (auto simp: renamed_def dest: inj_onD)
  have seen: "\<sigma> a \<in> set seen' \<longleftrightarrow> a \<in> set seen" using 9(4) a(1) by blast
  show ?case
  proof (cases "a \<in> set seen")
    case False
    have "read_back nilmap h' (\<sigma> a # seen') (ren \<sigma> (snd kv)) = read_back nilmap h (a # seen) (snd kv)"
      if "kv \<in> set (h ! a)" for kv
      using 9(1) [OF _ that 9(2), of "\<sigma> a # seen'"] a False 9(2,4) inj that by (auto simp: renamed_def)
    then have "those (map ((\<lambda>kv. map_option (Pair (fst kv)) (read_back nilmap h' (\<sigma> a # seen') (snd kv)))
          \<circ> (\<lambda>kv. (fst kv, ren \<sigma> (snd kv)))) (h ! a))
        = those (map (\<lambda>kv. map_option (Pair (fst kv)) (read_back nilmap h (a # seen) (snd kv))) (h ! a))"
      by (intro those_map_cong) simp
    then show ?thesis using a False seen by (simp add: ren_obj_def)
  qed (use a seen in simp)
qed simp_all

lemma tree_of_ren: "renamed \<sigma> D h h' \<Longrightarrow> refs_in D v \<Longrightarrow> tree_of nilmap h' (ren \<sigma> v) = tree_of nilmap h v"
  unfolding tree_of_def by (rule read_back_ren) auto

lemma sprint_ren: "renamed \<sigma> D h h' \<Longrightarrow> refs_in D v \<Longrightarrow> sprint_h lib h' (ren \<sigma> v) = sprint_h lib h v"
  by (simp add: sprint_h_def tree_of_ren)

section \<open>Conversions and transformations\<close>

text \<open>The result of a function on a renamed value is the renamed result.\<close>

definition ren_outcome :: "(nat \<Rightarrow> nat) \<Rightarrow> 'f hval result option \<Rightarrow> 'f hval result option" where
  "ren_outcome \<sigma> res = map_option (map_sum id (ren \<sigma>)) res"

definition closed_outcome :: "nat set \<Rightarrow> 'f hval result option \<Rightarrow> bool" where
  "closed_outcome D res \<longleftrightarrow> (case res of Some (Inr w) \<Rightarrow> refs_in D w | _ \<Rightarrow> True)"

definition address_free :: "'f coerce_func \<Rightarrow> bool" where
  "address_free fn \<longleftrightarrow> (\<forall>\<sigma> D h h' v. renamed \<sigma> D h h' \<longrightarrow> refs_in D v \<longrightarrow>
     fn h' (ren \<sigma> v) = ren_outcome \<sigma> (fn h v) \<and> closed_outcome D (fn h v))"

lemma address_freeD:
  "address_free fn \<Longrightarrow> renamed \<sigma> D h h' \<Longrightarrow> refs_in D v \<Longrightarrow>
    fn h' (ren \<sigma> v) = ren_outcome \<sigma> (fn h v) \<and> closed_outcome D (fn h v)"
  unfolding address_free_def by blast

lemma address_freeI:
  "(\<And>\<sigma> D h h' v. renamed \<sigma> D h h' \<Longrightarrow> refs_in D v \<Longrightarrow>
    fn h' (ren \<sigma> v) = ren_outcome \<sigma> (fn h v) \<and> closed_outcome D (fn h v)) \<Longrightarrow> address_free fn"
  unfolding address_free_def by blast

text \<open>A value without references, as most conversions return one.\<close>

definition scalar :: "'f hval \<Rightarrow> bool" where
  "scalar v \<longleftrightarrow> (case v of HRef _ \<Rightarrow> False | HArray _ \<Rightarrow> False | _ \<Rightarrow> True)"

lemma scalar_ren: "scalar v \<Longrightarrow> ren \<sigma> v = v \<and> refs_in D v"
  by (cases v) (simp_all add: scalar_def)

lemma scalar_outcome:
  "(\<And>w. res = Some (Inr w) \<Longrightarrow> scalar w) \<Longrightarrow> ren_outcome \<sigma> res = res \<and> closed_outcome D res"
  by (cases res; cases "the res") (auto simp: ren_outcome_def closed_outcome_def scalar_ren)

lemma toString_ren: "renamed \<sigma> D h h' \<Longrightarrow> refs_in D v \<Longrightarrow> coercer_toString lib h' (ren \<sigma> v) = coercer_toString lib h v"
  using sprint_ren [of \<sigma> D h h' v lib] by (cases v) (simp_all add: coercer_toString_def)

lemma address_free_on_text: "(\<And>s w. f s = Inr w \<Longrightarrow> scalar w) \<Longrightarrow> address_free (on_text lib f)"
proof (rule address_freeI)
  fix \<sigma> :: "nat \<Rightarrow> nat" and D and h h' :: "'a heap" and v :: "'a hval"
  assume f: "\<And>s w. f s = Inr w \<Longrightarrow> scalar w" and r: "renamed \<sigma> D h h'" "refs_in D v"
  have "on_text lib f h' (ren \<sigma> v) = on_text lib f h v" by (simp add: on_text_def toString_ren [OF r])
  moreover have "scalar w" if "on_text lib f h v = Some (Inr w)" for w
    using that f by (auto simp: on_text_def)
  ultimately show "on_text lib f h' (ren \<sigma> v) = ren_outcome \<sigma> (on_text lib f h v) \<and> closed_outcome D (on_text lib f h v)"
    using scalar_outcome [of "on_text lib f h v" \<sigma> D] by simp
qed

text \<open>A conversion that looks at its argument only, or prints it.\<close>

lemma address_free_look:
  assumes "\<And>h v. fn h v = (if p v then print_as lib h v else f v)"
    and "\<And>\<sigma> v. p (ren \<sigma> v) = p v" "\<And>\<sigma> v. \<not> p v \<Longrightarrow> f (ren \<sigma> v) = f v" "\<And>v w. \<not> p v \<Longrightarrow> f v = Some (Inr w) \<Longrightarrow> scalar w"
  shows "address_free fn"
proof (rule address_freeI)
  fix \<sigma> :: "nat \<Rightarrow> nat" and D and h h' :: "'a heap" and v :: "'a hval"
  assume r: "renamed \<sigma> D h h'" "refs_in D v"
  have "fn h' (ren \<sigma> v) = fn h v"
    using assms(2,3) by (simp add: assms(1) print_as_def sprint_ren [OF r])
  moreover have "scalar w" if "fn h v = Some (Inr w)" for w
    using that assms(4) by (auto simp: assms(1) print_as_def scalar_def split: if_splits)
  ultimately show "fn h' (ren \<sigma> v) = ren_outcome \<sigma> (fn h v) \<and> closed_outcome D (fn h v)"
    using scalar_outcome [of "fn h v" \<sigma> D] by simp
qed

lemma ren_look [simp]:
  "toInt64 lib (ren \<sigma> v) = toInt64 lib v" "toFloat64 lib (ren \<sigma> v) = toFloat64 lib v"
  "type_label (ren \<sigma> v) = type_label v" "inferTypeString (ren \<sigma> v) = inferTypeString v" "type_h (ren \<sigma> v) = type_h v"
  by (cases v; simp add: toInt64_def toFloat64_def type_label_def inferTypeString_def)+

lemma printing_conversions:
  "int_to_string lib h v = (if toInt64 lib v = None then print_as lib h v
     else Some (Inr (HString (show_int (the (toInt64 lib v))))))"
  "float_to_string lib h v = (if toFloat64 lib v = None then print_as lib h v
     else Some (Inr (HString (fl_text lib (the (toFloat64 lib v))))))"
  "bool_to_string lib h v = (if type_label v \<noteq> Some ''bool'' then print_as lib h v
     else Some (Inr (HString (bool_text (v = HBool True)))))"
  "time_to_string lib h v = (if type_label v \<notin> {Some ''time'', Some ''string''} then print_as lib h v
     else Some (Inr (case v of HTime t \<Rightarrow> HString (time_format lib RFC3339 t) | HString s \<Rightarrow> HString s | _ \<Rightarrow> HNil)))"
  by (auto simp: int_to_string_def float_to_string_def bool_to_string_def time_to_string_def
      type_label_def split: option.split hval.split)

lemma address_free_parsing:
  "address_free (string_to_int lib)" "address_free (string_to_float lib)" "address_free (string_to_bool lib)"
  "address_free (string_to_time lib)"
  unfolding string_to_int_def string_to_float_def string_to_bool_def string_to_time_def
  by (rule address_free_on_text; auto simp: Let_def scalar_def split: sum.splits option.splits if_splits)+

lemma address_free_printing:
  "address_free (int_to_string lib)" "address_free (float_to_string lib)" "address_free (bool_to_string lib)"
  "address_free (time_to_string lib)"
proof -
  have ren_bool: "ren \<sigma> v = HBool b \<longleftrightarrow> v = HBool b" for \<sigma> and v :: "'a hval" and b by (cases v) simp_all
  show "address_free (int_to_string lib)" "address_free (float_to_string lib)"
    by (rule address_free_look [OF printing_conversions(1)] address_free_look [OF printing_conversions(2)];
        auto simp: scalar_def)+
  show "address_free (bool_to_string lib)"
    by (rule address_free_look [OF printing_conversions(3)]) (auto simp: scalar_def ren_bool)
  show "address_free (time_to_string lib)"
    by (rule address_free_look [OF printing_conversions(4)]) (auto simp: scalar_def type_label_def split: hval.splits)
qed

lemma address_free_scalars:
  "address_free (int_to_float lib)" "address_free (float_to_int lib)" "address_free (int_to_bool lib)"
  "address_free (bool_to_int lib)" "address_free (float_to_bool lib)" "address_free (bool_to_float lib)"
proof -
  have look: "address_free fn" if "\<And>h v. fn h v = f v" "\<And>\<sigma> v. f (ren \<sigma> v) = f v" "\<And>v w. f v = Some (Inr w) \<Longrightarrow> scalar w"
    for fn and f :: "'a hval \<Rightarrow> 'a hval result option"
    by (rule address_free_look [where p = "\<lambda>_. False" and f = f]) (use that in auto)
  have ren_bool: "(case ren \<sigma> v of HBool b \<Rightarrow> g b | _ \<Rightarrow> x) = (case v of HBool b \<Rightarrow> g b | _ \<Rightarrow> x)"
    for \<sigma> v and g :: "bool \<Rightarrow> 'a hval result" and x by (cases v) simp_all
  show "address_free (int_to_float lib)" "address_free (float_to_int lib)" "address_free (int_to_bool lib)"
    "address_free (bool_to_int lib)" "address_free (float_to_bool lib)" "address_free (bool_to_float lib)"
    unfolding int_to_float_def float_to_int_def int_to_bool_def bool_to_int_def float_to_bool_def bool_to_float_def
      cannot_convert_def
    by (rule look, rule refl, simp add: ren_bool, auto simp: scalar_def split: option.splits hval.splits)+
qed

lemma builtin_address_free: "map_of (NewTypeCoercer lib) key = Some fn \<Longrightarrow> address_free fn"
proof -
  assume "map_of (NewTypeCoercer lib) key = Some fn"
  then have "fn \<in> snd ` set (NewTypeCoercer lib)" by (force dest: map_of_SomeD)
  then show ?thesis
    unfolding NewTypeCoercer_def coercer_builtins_def
    by (auto intro: address_free_parsing address_free_printing address_free_scalars)
qed

lemma outcome_simps [simp]:
  "ren_outcome \<sigma> None = None" "ren_outcome \<sigma> (Some (Inl e)) = Some (Inl e)" "ren_outcome \<sigma> (Some (Inr w)) = Some (Inr (ren \<sigma> w))"
  "closed_outcome D None" "closed_outcome D (Some (Inl e))" "closed_outcome D (Some (Inr w)) \<longleftrightarrow> refs_in D w"
  by (simp_all add: ren_outcome_def closed_outcome_def)

lemma Coerce_ren:
  assumes "renamed \<sigma> D h h'" "refs_in D v"
  shows "Coerce (NewTypeCoercer lib) h' (ren \<sigma> v) a b = ren_outcome \<sigma> (Coerce (NewTypeCoercer lib) h v a b)
    \<and> closed_outcome D (Coerce (NewTypeCoercer lib) h v a b)"
proof (cases "map_of (NewTypeCoercer lib) (coercionKey (normalizeType a) (normalizeType b))")
  case None
  then show ?thesis using assms(2) by (simp add: Coerce_def Let_def)
next
  case (Some fn)
  then show ?thesis
    using address_freeD [OF builtin_address_free [OF Some] assms] assms(2) by (simp add: Coerce_def Let_def)
qed

lemma evaluateExpression_ren:
  assumes "renamed \<sigma> D h h'" "refs_in D v"
  shows "evaluateExpression lib h' e (ren \<sigma> v) = map_option (ren \<sigma>) (evaluateExpression lib h e v)
    \<and> (\<forall>w. evaluateExpression lib h e v = Some w \<longrightarrow> refs_in D w)"
proof -
  have printed: "map_option HString (coercer_toString lib h' (ren \<sigma> v)) = map_option (ren \<sigma> \<circ> HString) (coercer_toString lib h v)"
    by (simp add: toString_ren [OF assms] o_def)
  show ?thesis
    using assms(2) printed by (cases v) (auto simp: evaluateExpression_def Let_def option.map_comp)
qed

lemma mapping_value_ren:
  assumes "renamed \<sigma> D h h'" "refs_in D src" "refs_in D (m_default m)" "fm_coercer fm = NewTypeCoercer (fm_lib fm)"
  shows "mapping_value fm h' (ren \<sigma> src) (m\<lparr>m_default := ren \<sigma> (m_default m)\<rparr>) = ren_outcome \<sigma> (mapping_value fm h src m)
    \<and> closed_outcome D (mapping_value fm h src m)"
proof -
  let ?v = "getNestedValue h src (m_source m)"
  have v: "getNestedValue h' (ren \<sigma> src) (m_source m) = ren \<sigma> ?v" "refs_in D ?v"
    using get_segments_ren [OF assms(1,2)] by (simp_all add: getNestedValue_def)
  show ?thesis
  proof (cases "m_transform m")
    case TransformCast
    let ?c = "Coerce (fm_coercer fm) h ?v (inferTypeString ?v) (m_cast_type m)"
    have c: "Coerce (fm_coercer fm) h' (ren \<sigma> ?v) (inferTypeString ?v) (m_cast_type m) = ren_outcome \<sigma> ?c"
      "closed_outcome D ?c"
      using Coerce_ren [OF assms(1) v(2), of "fm_lib fm"] assms(4) by simp_all
    consider "?c = None" | e where "?c = Some (Inl e)" | w where "?c = Some (Inr w)"
      by (metis not_None_eq sum.exhaust)
    then show ?thesis using v c TransformCast by cases (simp_all add: mapping_value_def Let_def)
  next
    case TransformExpression
    let ?e = "evaluateExpression (fm_lib fm) h (m_expression m) ?v"
    have "evaluateExpression (fm_lib fm) h' (m_expression m) (ren \<sigma> ?v) = map_option (ren \<sigma>) ?e"
      "\<forall>w. ?e = Some w \<longrightarrow> refs_in D w"
      using evaluateExpression_ren [OF assms(1) v(2)] by simp_all
    then show ?thesis using v TransformExpression by (cases ?e) (simp_all add: mapping_value_def Let_def)
  qed (use v assms(3) in \<open>auto simp: mapping_value_def Let_def\<close>)
qed

section \<open>Equal parts of heaps\<close>

fun refs_below :: "nat \<Rightarrow> 'f hval \<Rightarrow> bool" where
  "refs_below n (HRef a) \<longleftrightarrow> a < n"
| "refs_below n (HArray vs) \<longleftrightarrow> list_all (refs_below n) vs"
| "refs_below n _ \<longleftrightarrow> True"

definition closed_below :: "nat \<Rightarrow> 'f heap \<Rightarrow> bool" where
  "closed_below n h \<longleftrightarrow> n \<le> length h \<and> (\<forall>a < n. \<forall>kv \<in> set (h ! a). refs_below n (snd kv))"

definition same_below :: "nat \<Rightarrow> 'f heap \<Rightarrow> 'f heap \<Rightarrow> bool" where
  "same_below n h h' \<longleftrightarrow> closed_below n h \<and> n \<le> length h' \<and> (\<forall>a < n. h' ! a = h ! a)"

lemma refs_in_below: "refs_in {..<n} v \<longleftrightarrow> refs_below n v"
  by (induction n v rule: refs_below.induct) (auto simp: list_all_iff)

lemma refs_below_mono: "refs_below n v \<Longrightarrow> n \<le> m \<Longrightarrow> refs_below m v"
  using refs_in_mono [of "{..<n}" v "{..<m}"] by (simp add: refs_in_below)

lemma ren_same [simp]: "ren (\<lambda>a. a) v = v"
  by (rule ren_id [where D = UNIV]) (induction v, auto simp: list_all_iff)

lemma same_below_renamed: "same_below n h h' \<Longrightarrow> renamed (\<lambda>a. a) {..<n} h h'"
  by (auto simp: same_below_def closed_below_def renamed_def refs_in_below ren_obj_def)

lemma read_back_same:
  "same_below n h h' \<Longrightarrow> refs_below n v \<Longrightarrow> \<forall>a < n. a \<in> set seen \<longleftrightarrow> a \<in> set seen' \<Longrightarrow>
    read_back nilmap h' seen v = read_back nilmap h seen' v"
  using read_back_ren [OF same_below_renamed, of n h h' v seen seen' nilmap] by (simp add: refs_in_below)

lemma mapping_value_same:
  assumes "same_below n h h'" "refs_below n src" "refs_below n (m_default m)"
    and "fm_coercer fm = NewTypeCoercer (fm_lib fm)"
  shows "mapping_value fm h' src m = mapping_value fm h src m
    \<and> (\<forall>v. mapping_value fm h src m = Some (Inr v) \<longrightarrow> refs_below n v)"
proof -
  have "ren_outcome (\<lambda>a. a) r = r" for r :: "'a hval result option"
    by (cases r; cases "the r") simp_all
  then show ?thesis
    using mapping_value_ren [OF same_below_renamed [OF assms(1)], of src m fm] assms(2-4)
    by (auto simp: refs_in_below)
qed

end
