(* ===== verification/MapperSpec.thy ===== *)
theory MapperSpec
  imports MapperRename "HOL-Library.Sublist"
begin

text \<open>
  \<open>Apply\<close> without references. The specification reads every value from the record as it was decoded
  and collects the destination as a tree; \<open>Apply\<close> meets it when no destination path goes on below an
  earlier one. The proof keeps track of the objects that \<open>Apply\<close> allocates for the destination, which
  form a tree of their own.
\<close>

section \<open>The specification\<close>

datatype 'f dtree = DLeaf "'f hval" | DNode "(string \<times> 'f dtree) list"

fun put :: "(string \<times> 'f dtree) list \<Rightarrow> string list \<Rightarrow> 'f hval \<Rightarrow> (string \<times> 'f dtree) list" where
  "put ms [] v = ms"
| "put ms [k] v = AList.update k (DLeaf v) ms"
| "put ms (k # ks) v =
    AList.update k (DNode (put (case map_of ms k of Some (DNode ns) \<Rightarrow> ns | _ \<Rightarrow> []) ks v)) ms"

fun spec_mappings :: "'f field_mapper \<Rightarrow> 'f heap \<Rightarrow> 'f hval \<Rightarrow> 'f mapping list \<Rightarrow> (string \<times> 'f dtree) list
    \<Rightarrow> (string \<times> 'f dtree) list result option" where
  "spec_mappings fm h src [] d = Some (Inr d)"
| "spec_mappings fm h src (m # ms) d = (case mapping_value fm h src m of
     None \<Rightarrow> None
   | Some (Inl err) \<Rightarrow> Some (Inl err)
   | Some (Inr v) \<Rightarrow>
       spec_mappings fm h src ms (if v = HNil then d else put d (go_split (m_dest m) ''.'') v))"

fun dtree_value :: "'f heap \<Rightarrow> 'f dtree \<Rightarrow> 'f go_value option" where
  "dtree_value h (DLeaf v) = tree_of VNil h v"
| "dtree_value h (DNode ms) =
    map_option VMap (those (map (\<lambda>kt. map_option (Pair (fst kt)) (dtree_value h (snd kt))) ms))"

definition Apply_spec :: "'f field_mapper \<Rightarrow> raw_message \<Rightarrow> 'f mapping list \<Rightarrow> 'f heap
    \<Rightarrow> raw_message result option" where
  "Apply_spec fm record mappings h = (case unmarshal_object (fm_lib fm) record h of
     None \<Rightarrow> Some (Inl (Wrapped ''unmarshal source record: '' (unmarshal_err fm record)))
   | Some (src, h1) \<Rightarrow> (case spec_mappings fm h1 src mappings [] of
        None \<Rightarrow> None
      | Some (Inl err) \<Rightarrow> Some (Inl err)
      | Some (Inr d) \<Rightarrow> Some (marshal_value fm (dtree_value h1 (DNode d)))))"

text \<open>No destination continues the path of an earlier one.\<close>

definition paths_of :: "'f mapping list \<Rightarrow> string list list" where
  "paths_of ms = map (\<lambda>m. go_split (m_dest m) ''.'') ms"

definition no_descent :: "'f mapping list \<Rightarrow> bool" where
  "no_descent mappings \<longleftrightarrow> sorted_wrt (\<lambda>p q. \<not> strict_prefix p q) (paths_of mappings)"

section \<open>Closed heaps\<close>

lemma closed_append:
  "closed_below (length h) h \<Longrightarrow> \<forall>kv \<in> set ps. refs_below (length h) (snd kv) \<Longrightarrow>
    closed_below (Suc (length h)) (h @ [ps])"
  unfolding closed_below_def
  by (fastforce simp: nth_append less_Suc_eq intro: refs_below_mono [where n = "length h"])

lemma place_closed:
  "place v h = (x, h') \<Longrightarrow> closed_below (length h) h \<Longrightarrow>
    closed_below (length h') h' \<and> refs_below (length h') x \<and> (\<exists>e. h' = h @ e)"
  "place_list vs h = (xs, h') \<Longrightarrow> closed_below (length h) h \<Longrightarrow>
    closed_below (length h') h' \<and> list_all (refs_below (length h')) xs \<and> (\<exists>e. h' = h @ e)"
  "place_pairs ps h = (ys, h') \<Longrightarrow> closed_below (length h) h \<Longrightarrow>
    closed_below (length h') h' \<and> (\<forall>kv \<in> set ys. refs_below (length h') (snd kv)) \<and> (\<exists>e. h' = h @ e)"
proof (induction v h and vs h and ps h arbitrary: x h' and xs h' and ys h' rule: place_place_list_place_pairs.induct)
  case (8 ms h)
  then obtain ps h1 where p: "place_pairs ms h = (ps, h1)" by (cases "place_pairs ms h")
  with 8 have "closed_below (length h1) h1" "\<forall>kv \<in> set ps. refs_below (length h1) (snd kv)" "\<exists>e. h1 = h @ e"
    by auto
  with 8 p closed_append [of h1 ps] show ?case by auto
next
  case (10 v vs h)
  then obtain x1 h1 xs2 h2 where p: "place v h = (x1, h1)" "place_list vs h1 = (xs2, h2)"
    by (metis surj_pair)
  from 10(1) [of x1 h1] p 10(3-) obtain e1 where 1: "closed_below (length h1) h1" "refs_below (length h1) x1" "h1 = h @ e1"
    by auto
  from 10(2) [OF p(1) [symmetric] p(2) 1(1)] obtain e2 where
    2: "closed_below (length h2) h2" "list_all (refs_below (length h2)) xs2" "h2 = h1 @ e2" by auto
  from 1(2) 2(3) have "refs_below (length h2) x1" by (auto elim: refs_below_mono)
  with 1 2 p 10(3) show ?case by auto
next
  case (12 k v ps h)
  then obtain x1 h1 xs2 h2 where p: "place v h = (x1, h1)" "place_pairs ps h1 = (xs2, h2)"
    by (metis surj_pair)
  from 12(1) [of x1 h1] p 12(3-) obtain e1 where 1: "closed_below (length h1) h1" "refs_below (length h1) x1" "h1 = h @ e1"
    by auto
  from 12(2) [OF p(1) [symmetric] p(2) 1(1)] obtain e2 where
    2: "closed_below (length h2) h2" "\<forall>kv \<in> set xs2. refs_below (length h2) (snd kv)" "h2 = h1 @ e2" by auto
  from 1(2) 2(3) have "refs_below (length h2) x1" by (auto elim: refs_below_mono)
  with 1 2 p 12(3) show ?case by fastforce
qed (auto split: prod.splits)

section \<open>The objects of the destination\<close>

text \<open>A tree of objects, each with its address; a leaf is a value of the part that does not change.\<close>

datatype 'f own = OLeaf "'f hval" | ONode nat "(string \<times> 'f own) list"

fun root :: "'f own \<Rightarrow> 'f hval" where
  "root (OLeaf v) = v"
| "root (ONode a ms) = HRef a"

fun forget :: "'f own \<Rightarrow> 'f dtree" where
  "forget (OLeaf v) = DLeaf v"
| "forget (ONode a ms) = DNode (map (\<lambda>kt. (fst kt, forget (snd kt))) ms)"

fun addrs :: "'f own \<Rightarrow> nat list" where
  "addrs (OLeaf v) = []"
| "addrs (ONode a ms) = a # concat (map (\<lambda>kt. addrs (snd kt)) ms)"

abbreviation addrs_of :: "(string \<times> 'f own) list \<Rightarrow> nat list" where
  "addrs_of ms \<equiv> concat (map (\<lambda>kt. addrs (snd kt)) ms)"

fun holds :: "'f heap \<Rightarrow> 'f own \<Rightarrow> bool" where
  "holds h (OLeaf v) \<longleftrightarrow> True"
| "holds h (ONode a ms) \<longleftrightarrow> a < length h \<and> h ! a = map (\<lambda>kt. (fst kt, root (snd kt))) ms
     \<and> list_all (\<lambda>kt. holds h (snd kt)) ms"

lemma holds_frame:
  "holds h t \<Longrightarrow> \<forall>a \<in> set (addrs t). h' ! a = h ! a \<Longrightarrow> length h \<le> length h' \<Longrightarrow> holds h' t"
proof (induction h t rule: holds.induct)
  case (2 h a ms)
  then have "list_all (\<lambda>kt. holds h' (snd kt)) ms" by (auto simp: list_all_iff)
  with 2(2-) show ?case by simp
qed simp

lemma holds_bound: "holds h t \<Longrightarrow> a \<in> set (addrs t) \<Longrightarrow> a < length h"
  by (induction h t rule: holds.induct) (auto simp: list_all_iff)

lemma map_snd_update: "map (\<lambda>kt. (fst kt, f (snd kt))) (AList.update k t ms) = AList.update k (f t) (map (\<lambda>kt. (fst kt, f (snd kt))) ms)"
  by (induction ms) auto

text \<open>Replacing the entry of a key: the addresses stay apart if the new ones are fresh or were the old entry's.\<close>

definition entry_addrs :: "(string \<times> 'f own) list \<Rightarrow> string \<Rightarrow> nat set" where
  "entry_addrs ms k = (case map_of ms k of None \<Rightarrow> {} | Some t \<Rightarrow> set (addrs t))"

lemma update_addrs:
  "distinct (addrs_of ms) \<Longrightarrow> distinct (addrs t) \<Longrightarrow> set (addrs t) \<inter> set (addrs_of ms) \<subseteq> entry_addrs ms k \<Longrightarrow>
    distinct (addrs_of (AList.update k t ms))
    \<and> set (addrs_of (AList.update k t ms)) \<subseteq> set (addrs t) \<union> set (addrs_of ms)"
proof (induction ms)
  case (Cons kt ms)
  obtain k' u where kt: "kt = (k', u)" by (cases kt)
  show ?case
  proof (cases "k' = k")
    case True
    with Cons.prems kt show ?thesis by (auto simp: entry_addrs_def)
  next
    case False
    have e: "entry_addrs (kt # ms) k = entry_addrs ms k" using False kt by (simp add: entry_addrs_def)
    have "entry_addrs ms k \<subseteq> set (addrs_of ms)"
      by (auto simp: entry_addrs_def split: option.splits dest: map_of_SomeD)
    moreover have mine: "set (addrs t) \<inter> (set (addrs u) \<union> set (addrs_of ms)) \<subseteq> entry_addrs ms k"
      "set (addrs u) \<inter> set (addrs_of ms) = {}" using Cons.prems e kt by simp_all
    ultimately have apart: "set (addrs t) \<inter> set (addrs u) = {}" by blast
    let ?u = "addrs_of (AList.update k t ms)"
    have IH: "distinct ?u \<and> set ?u \<subseteq> set (addrs t) \<union> set (addrs_of ms)"
      by (rule Cons.IH) (use Cons.prems(1,2) mine kt in \<open>simp, simp, blast\<close>)
    then have "set (addrs u) \<inter> set ?u = {}" using mine apart by blast
    moreover have "addrs_of (AList.update k t (kt # ms)) = addrs u @ ?u" using kt False by simp
    ultimately show ?thesis using IH Cons.prems(1) kt by (simp only: distinct_append set_append) auto
  qed
qed simp

lemma update_holds:
  "list_all (\<lambda>kt. holds h (snd kt)) ms \<Longrightarrow> distinct (addrs_of ms) \<Longrightarrow> holds h' t \<Longrightarrow> length h \<le> length h' \<Longrightarrow>
    \<forall>a \<in> set (addrs_of ms) - entry_addrs ms k. h' ! a = h ! a \<Longrightarrow>
    list_all (\<lambda>kt. holds h' (snd kt)) (AList.update k t ms)"
proof (induction ms)
  case (Cons kt ms)
  obtain k' u where kt: "kt = (k', u)" by (cases kt)
  have rest: "list_all (\<lambda>kt. holds h' (snd kt)) xs"
    if "set xs \<subseteq> set ms" "\<forall>a \<in> set (addrs_of xs). h' ! a = h ! a" for xs
    using that Cons.prems(1,4) by (auto simp: list_all_iff subset_iff intro!: holds_frame [of h _ h'])
  show ?case
  proof (cases "k' = k")
    case True
    with Cons.prems kt have "\<forall>a \<in> set (addrs_of ms). h' ! a = h ! a" by (auto simp: entry_addrs_def)
    with True Cons.prems(3) kt rest [of ms] show ?thesis by simp
  next
    case False
    have e: "entry_addrs (kt # ms) k = entry_addrs ms k" using False kt by (simp add: entry_addrs_def)
    have "entry_addrs ms k \<subseteq> set (addrs_of ms)"
      by (auto simp: entry_addrs_def split: option.splits dest: map_of_SomeD)
    moreover have "set (addrs u) \<inter> set (addrs_of ms) = {}"
      "\<forall>a \<in> (set (addrs u) \<union> set (addrs_of ms)) - entry_addrs ms k. h' ! a = h ! a"
      using Cons.prems(2,5) e kt by simp_all
    ultimately have "\<forall>a \<in> set (addrs u). h' ! a = h ! a" by blast
    then have "holds h' u" using Cons.prems(1,4) kt by (auto intro: holds_frame)
    with Cons e kt False show ?thesis by auto
  qed
qed simp

section \<open>Writing into the destination\<close>

text \<open>A path that meets no map of the source, the only maps that leaves are.\<close>

fun safe :: "(string \<times> 'f dtree) list \<Rightarrow> string list \<Rightarrow> bool" where
  "safe ms (k # k2 # ks) \<longleftrightarrow> (case map_of ms k of
     Some (DNode ns) \<Rightarrow> safe ns (k2 # ks)
   | Some (DLeaf (HRef _)) \<Rightarrow> False
   | Some (DLeaf HNilMap) \<Rightarrow> False
   | _ \<Rightarrow> True)"
| "safe ms _ \<longleftrightarrow> True"

abbreviation forget_all :: "(string \<times> 'f own) list \<Rightarrow> (string \<times> 'f dtree) list" where
  "forget_all ms \<equiv> map (\<lambda>kt. (fst kt, forget (snd kt))) ms"

text \<open>What a write into a tree of objects has done: the same tree with another entry, in the same objects and new ones.\<close>

definition written :: "'f heap \<Rightarrow> nat \<Rightarrow> (string \<times> 'f own) list \<Rightarrow> 'f heap \<Rightarrow> (string \<times> 'f own) list \<Rightarrow> bool" where
  "written h a ms h' ms' \<longleftrightarrow> holds h' (ONode a ms') \<and> distinct (addrs (ONode a ms'))
     \<and> set (addrs (ONode a ms')) \<subseteq> set (addrs (ONode a ms)) \<union> {length h..<length h'} \<and> length h \<le> length h'
     \<and> (\<forall>b < length h. b \<notin> set (addrs (ONode a ms)) \<longrightarrow> h' ! b = h ! b)"

text \<open>Putting back an entry after a write below it, or putting a new one.\<close>

lemma written_entry:
  assumes own: "holds h (ONode a ms)" "distinct (addrs (ONode a ms))"
    and new: "holds h' t" "distinct (addrs t)" "a \<notin> set (addrs t)" "length h \<le> length h'"
    and inside: "set (addrs t) \<subseteq> entry_addrs ms k \<union> {length h..<length h'}"
    and frame: "\<forall>b < length h. b \<noteq> a \<longrightarrow> b \<notin> entry_addrs ms k \<longrightarrow> h' ! b = h ! b"
    and entry: "h' ! a = AList.update k (root t) (h ! a)"
  shows "written h a ms h' (AList.update k t ms)"
proof -
  have entry_sub: "entry_addrs ms k \<subseteq> set (addrs_of ms)"
    by (auto simp: entry_addrs_def split: option.splits dest: map_of_SomeD)
  have below: "b < length h" if "b \<in> set (addrs_of ms)" for b
    using own(1) that holds_bound [OF own(1), of b] by simp
  then have "set (addrs t) \<inter> set (addrs_of ms) \<subseteq> entry_addrs ms k" using inside by force
  with own(2) new(2) have d: "distinct (addrs_of (AList.update k t ms))"
    "set (addrs_of (AList.update k t ms)) \<subseteq> set (addrs t) \<union> set (addrs_of ms)"
    using update_addrs [of ms t k] by simp_all
  have "\<forall>b \<in> set (addrs_of ms) - entry_addrs ms k. h' ! b = h ! b"
    using below own(2) frame by auto
  with own new have l: "list_all (\<lambda>kt. holds h' (snd kt)) (AList.update k t ms)"
    using update_holds [of h ms h' t k] by simp
  have "h' ! a = map (\<lambda>kt. (fst kt, root (snd kt))) (AList.update k t ms)"
    using own(1) entry by (simp add: map_snd_update)
  moreover have "a < length h'" using own(1) new(4) by simp
  moreover have "a \<notin> set (addrs_of (AList.update k t ms))" using d(2) new(3) own(2) by auto
  moreover have "set (addrs_of (AList.update k t ms)) \<subseteq> set (addrs_of ms) \<union> {length h..<length h'}"
    using d(2) inside entry_sub by blast
  moreover have "h' ! b = h ! b" if "b < length h" "b \<notin> set (addrs (ONode a ms))" for b
    using frame that entry_sub by auto
  ultimately show ?thesis using l d(1) new(4) unfolding written_def by auto
qed

lemma distinct_addrs_of:
  "distinct (addrs_of ms) \<Longrightarrow> (k, t) \<in> set ms \<Longrightarrow> distinct (addrs t) \<and> set (addrs t) \<subseteq> set (addrs_of ms)"
  by (induction ms) auto

lemma own_put:
  "holds h (ONode a ms) \<Longrightarrow> distinct (addrs (ONode a ms)) \<Longrightarrow> safe (forget_all ms) ks \<Longrightarrow> ks \<noteq> [] \<Longrightarrow>
    \<exists>h' ms'. set_parts h (HRef a) ks v = Some h' \<and> forget_all ms' = put (forget_all ms) ks v \<and> written h a ms h' ms'"
proof (induction ks arbitrary: h a ms)
  case (Cons k ks)
  note own = Cons.prems(1,2)
  have a: "a < length h" "h ! a = map (\<lambda>kt. (fst kt, root (snd kt))) ms" using own(1) by simp_all
  show ?case
  proof (cases ks)
    case Nil
    let ?h' = "h[a := AList.update k v (h ! a)]"
    have "written h a ms ?h' (AList.update k (OLeaf v) ms)"
      by (rule written_entry [OF own]) (use a(1) in auto)
    moreover have "forget_all (AList.update k (OLeaf v) ms) = put (forget_all ms) [k] v"
      by (simp add: map_snd_update)
    moreover have "set_parts h (HRef a) [k] v = Some ?h'" using a(1) by (simp add: assign_def)
    ultimately show ?thesis using Nil by blast
  next
    case more: (Cons k2 ks')
    let ?next = "map_of (h ! a) k"
    have nxt: "Option.bind (members_of h (HRef a)) (\<lambda>m. map_of m k) = ?next"
      using a(1) by (simp add: members_of_def)
    have nxt': "?next = map_option root (map_of ms k)" by (simp add: a(2) map_of_map_snd)
    show ?thesis
    proof (cases "\<exists>b ns. map_of ms k = Some (ONode b ns)")
      case True
      then obtain b ns where b: "map_of ms k = Some (ONode b ns)" by blast
      then have mem: "(k, ONode b ns) \<in> set ms" by (rule map_of_SomeD)
      have "\<forall>kt \<in> set ms. holds h (snd kt)" using own(1) by (simp add: list_all_iff)
      with mem have hb: "holds h (ONode b ns)" by (metis snd_conv)
      have db: "distinct (addrs (ONode b ns))" and ab: "a \<notin> set (addrs (ONode b ns))"
        using own(2) distinct_addrs_of [OF _ mem] by auto
      have "safe (forget_all ns) ks"
        using Cons.prems(3) b more by (simp add: map_of_map_snd)
      with Cons.IH [OF hb db] more obtain h' ns' where h': "set_parts h (HRef b) ks v = Some h'"
        "forget_all ns' = put (forget_all ns) ks v" and w: "written h b ns h' ns'" by blast
      have ea: "entry_addrs ms k = set (addrs (ONode b ns))" by (simp add: entry_addrs_def b)
      have ha: "h' ! a = h ! a" using w ab a(1) unfolding written_def by blast
      have "written h a ms h' (AList.update k (ONode b ns') ms)"
      proof (rule written_entry [OF own])
        show "a \<notin> set (addrs (ONode b ns'))" using w ab a(1) unfolding written_def by force
        have "AList.update k (HRef b) (map (\<lambda>kt. (fst kt, root (snd kt))) ms) = map (\<lambda>kt. (fst kt, root (snd kt))) ms"
          using b by (induction ms) auto
        then show "h' ! a = AList.update k (root (ONode b ns')) (h ! a)" using ha a(2) by simp
      qed (use w ea in \<open>auto simp: written_def\<close>)
      moreover have "set_parts h (HRef a) (k # ks) v = Some h'"
        using nxt nxt' b more h'(1) by simp
      moreover have "forget_all (AList.update k (ONode b ns') ms) = put (forget_all ms) (k # ks) v"
        using h'(2) b more by (simp add: map_snd_update map_of_map_snd)
      ultimately show ?thesis by blast
    next
      case False
      let ?n = "length h" and ?h2 = "(h @ [[]])[a := AList.update k (HRef (length h)) (h ! a)]"
      consider "map_of ms k = None" | w where "map_of ms k = Some (OLeaf w)"
      proof (cases "map_of ms k")
        case (Some t)
        then show ?thesis using that False by (cases t) auto
      qed (use that in blast)
      then have new: "(?next = None \<or> (\<exists>w. ?next = Some w \<and> (\<forall>x. w \<noteq> HRef x) \<and> w \<noteq> HNilMap))
          \<and> put (forget_all ms) (k # ks) v = AList.update k (DNode (put [] ks v)) (forget_all ms)"
      proof cases
        case (2 w)
        then have "safe (forget_all ms) (k # ks) \<longleftrightarrow> (\<forall>x. w \<noteq> HRef x) \<and> w \<noteq> HNilMap"
          using more by (cases w) (simp_all add: map_of_map_snd)
        then show ?thesis using 2 nxt' Cons.prems(3) more by (simp add: map_of_map_snd)
      qed (use nxt' more in \<open>simp add: map_of_map_snd\<close>)
      have h2: "assign (h @ [[]]) (HRef a) k (HRef ?n) = Some ?h2"
        using a(1) by (simp add: assign_def nth_append)
      have "holds ?h2 (ONode ?n [])" "distinct (addrs (ONode ?n []))" using a(1) by (simp_all add: nth_append)
      moreover have "safe (forget_all []) ks" using more by (cases ks') simp_all
      ultimately obtain h' ns' where h': "set_parts ?h2 (HRef ?n) ks v = Some h'"
        "forget_all ns' = put (forget_all []) ks v" and w: "written ?h2 ?n [] h' ns'"
        using Cons.IH more by blast
      have sub: "set (addrs (ONode ?n ns')) \<subseteq> {?n..<length h'}" and len: "Suc ?n \<le> length h'"
        using w by (auto simp: written_def)
      have old: "h' ! b = ?h2 ! b" if "b < ?n" for b using w that by (simp add: written_def)
      have "written h a ms h' (AList.update k (ONode ?n ns') ms)"
      proof (rule written_entry [OF own])
        show "h' ! a = AList.update k (root (ONode ?n ns')) (h ! a)" using old [OF a(1)] a(1) by simp
        show "\<forall>b < ?n. b \<noteq> a \<longrightarrow> b \<notin> entry_addrs ms k \<longrightarrow> h' ! b = h ! b" using old by (auto simp: nth_append)
        show "a \<notin> set (addrs (ONode ?n ns'))" using sub a(1) by force
      qed (use w sub len in \<open>auto simp: written_def\<close>)
      moreover have "set_parts h (HRef a) (k # ks) v = Some h'"
        using nxt new h2 more h'(1) by (auto simp: new_map_def split: option.split hval.split)
      moreover have "forget_all (AList.update k (ONode ?n ns') ms) = put (forget_all ms) (k # ks) v"
        using h'(2) new by (simp add: map_snd_update)
      ultimately show ?thesis by blast
    qed
  qed
qed simp

section \<open>Paths of the destination\<close>

text \<open>A value was written at the end of this path.\<close>

fun leaf_at :: "(string \<times> 'f dtree) list \<Rightarrow> string list \<Rightarrow> bool" where
  "leaf_at ms [] \<longleftrightarrow> False"
| "leaf_at ms [k] \<longleftrightarrow> (case map_of ms k of Some (DLeaf v) \<Rightarrow> True | _ \<Rightarrow> False)"
| "leaf_at ms (k # ks) \<longleftrightarrow> (case map_of ms k of Some (DNode ns) \<Rightarrow> leaf_at ns ks | _ \<Rightarrow> False)"

lemma leaf_at_Cons_node: "map_of ms k = Some (DNode ns) \<Longrightarrow> leaf_at ms (k # p) \<longleftrightarrow> leaf_at ns p"
  by (cases p) simp_all

lemma safe_if_no_leaf: "(\<And>p. leaf_at ms p \<Longrightarrow> \<not> strict_prefix p ks) \<Longrightarrow> safe ms ks"
proof (induction ms ks rule: safe.induct)
  case (1 ms k k2 ks)
  show ?case
  proof (cases "map_of ms k")
    case (Some t)
    show ?thesis
    proof (cases t)
      case (DLeaf v)
      then have "leaf_at ms [k]" using Some by simp
      then show ?thesis using 1(2) [of "[k]"] by simp
    next
      case (DNode ns)
      have "\<not> strict_prefix p (k2 # ks)" if "leaf_at ns p" for p
        using 1(2) [of "k # p"] that Some DNode by (simp add: leaf_at_Cons_node)
      with 1(1) Some DNode show ?thesis by simp
    qed
  qed simp
qed simp_all

lemma no_leaf_in_empty [simp]: "\<not> leaf_at [] p"
  by (cases p; cases "tl p") auto

lemma put_leaf: "leaf_at (put ms ks v) p \<Longrightarrow> ks \<noteq> [] \<Longrightarrow> p = ks \<or> leaf_at ms p"
proof (induction ms ks v arbitrary: p rule: put.induct)
  case (2 ms k v)
  obtain k' p' where p: "p = k' # p'" using 2(1) by (cases p) auto
  with 2 show ?case by (cases p') (auto simp: update_conv' split: if_splits)
next
  case (3 ms k k2 ks v)
  let ?ns = "case map_of ms k of Some (DNode ns) \<Rightarrow> ns | _ \<Rightarrow> []"
  obtain k' p' where p: "p = k' # p'" using 3(2) by (cases p) auto
  show ?case
  proof (cases "k' = k")
    case True
    then have "leaf_at (put ?ns (k2 # ks) v) p'"
      using 3(2) p by (cases p') (simp_all add: update_conv')
    with 3(1) have "p' = k2 # ks \<or> leaf_at ?ns p'" by blast
    moreover have "leaf_at ms p" if "leaf_at ?ns p'"
      using that True p by (cases p') (auto split: option.splits dtree.splits)
    ultimately show ?thesis using True p by blast
  next
    case False
    then show ?thesis using 3(2) p by (cases p') (simp_all add: update_conv')
  qed
qed simp

fun leaves :: "('f hval \<Rightarrow> bool) \<Rightarrow> 'f dtree \<Rightarrow> bool" where
  "leaves P (DLeaf v) \<longleftrightarrow> P v"
| "leaves P (DNode ms) \<longleftrightarrow> list_all (\<lambda>kt. leaves P (snd kt)) ms"

lemma list_all_update: "list_all P ms \<Longrightarrow> P (k, t) \<Longrightarrow> list_all P (AList.update k t ms)"
  by (induction ms) auto

lemma list_all_update_snd:
  "list_all (\<lambda>kt. P (snd kt)) ms \<Longrightarrow> P t \<Longrightarrow> list_all (\<lambda>kt. P (snd kt)) (AList.update k t ms)"
  by (rule list_all_update) simp_all

lemma put_leaves: "leaves P (DNode ms) \<Longrightarrow> P v \<Longrightarrow> leaves P (DNode (put ms ks v))"
proof (induction ms ks v rule: put.induct)
  case (3 ms k k2 ks v)
  let ?ns = "case map_of ms k of Some (DNode ns) \<Rightarrow> ns | _ \<Rightarrow> []"
  have "leaves P (DNode ?ns)"
  proof (cases "map_of ms k")
    case (Some t)
    then have "leaves P (snd (k, t))"
      using 3(2) map_of_SomeD [OF Some] by (simp only: leaves.simps list_all_iff)
    with Some show ?thesis by (cases t) simp_all
  qed simp
  with 3 have "leaves P (DNode (put ?ns (k2 # ks) v))" by blast
  with 3(2) show ?case by (simp add: list_all_update_snd)
qed (simp_all add: list_all_update_snd)

section \<open>\<open>Apply\<close> meets its specification\<close>

text \<open>The state of \<open>Apply\<close>: the source as decoded, and the destination tree in objects of its own.\<close>

definition apart :: "'f heap \<Rightarrow> 'f heap \<Rightarrow> (string \<times> 'f own) list \<Rightarrow> bool" where
  "apart h1 h ms \<longleftrightarrow> same_below (length h1) h1 h \<and> holds h (ONode (length h1) ms)
     \<and> distinct (addrs (ONode (length h1) ms)) \<and> (\<forall>a \<in> set (addrs (ONode (length h1) ms)). length h1 \<le> a)
     \<and> leaves (refs_below (length h1)) (DNode (forget_all ms))"

lemma apart_written:
  assumes "apart h1 h ms" "written h (length h1) ms h' ms'" "leaves (refs_below (length h1)) (DNode (forget_all ms'))"
  shows "apart h1 h' ms'"
proof -
  let ?n = "length h1"
  from assms(1) have old: "same_below ?n h1 h" "\<forall>a \<in> set (addrs (ONode ?n ms)). ?n \<le> a"
    by (simp_all add: apart_def)
  then have "?n \<le> length h" by (simp add: same_below_def)
  moreover have "h' ! a = h1 ! a" if "a < ?n" for a
    using old that assms(2) by (simp add: same_below_def written_def) (metis less_le_trans not_less order_refl calculation)
  ultimately show ?thesis
    using old assms(2,3) unfolding apart_def written_def same_below_def
    by (auto dest!: subsetD)
qed

lemma split_not_Nil [simp]: "go_split s ''.'' \<noteq> []"
proof -
  have "split_parts sep cur s \<noteq> []" for sep cur s
    by (induction sep cur s rule: split_parts.induct) (subst split_parts.simps, auto split: list.split)
  then show ?thesis by (simp add: go_split_def)
qed

lemma no_descent_Cons:
  "no_descent (m # ms) \<longleftrightarrow> no_descent ms \<and> (\<forall>p \<in> set (paths_of ms). \<not> strict_prefix (go_split (m_dest m) ''.'') p)"
  by (auto simp: no_descent_def paths_of_def)

lemma apply_mappings_spec:
  assumes "apart h1 h ms" "refs_below (length h1) src" "fm_coercer fm = NewTypeCoercer (fm_lib fm)"
    and "\<forall>m \<in> set mappings. refs_below (length h1) (m_default m)" "no_descent mappings"
    and "\<forall>p. leaf_at (forget_all ms) p \<longrightarrow> (\<forall>q \<in> set (paths_of mappings). \<not> strict_prefix p q)"
  shows "case spec_mappings fm h1 src mappings (forget_all ms) of
      None \<Rightarrow> apply_mappings fm src (HRef (length h1)) mappings h = None
    | Some (Inl err) \<Rightarrow> \<exists>h'. apply_mappings fm src (HRef (length h1)) mappings h = Some (Inl err, h')
        \<and> same_below (length h1) h1 h'
    | Some (Inr d) \<Rightarrow> \<exists>h' ms'. apply_mappings fm src (HRef (length h1)) mappings h = Some (Inr (), h')
        \<and> apart h1 h' ms' \<and> forget_all ms' = d"
  using assms
proof (induction mappings arbitrary: h ms)
  case (Cons m mappings)
  have same: "same_below (length h1) h1 h" using Cons.prems(1) by (simp add: apart_def)
  have val: "mapping_value fm h src m = mapping_value fm h1 src m"
    and val_refs: "mapping_value fm h1 src m = Some (Inr v) \<Longrightarrow> refs_below (length h1) v" for v
    using mapping_value_same [OF same Cons.prems(2) _ Cons.prems(3), of m] Cons.prems(4) by auto
  consider "mapping_value fm h1 src m = None" | err where "mapping_value fm h1 src m = Some (Inl err)"
    | v where "mapping_value fm h1 src m = Some (Inr v)" by (metis not_None_eq sum.exhaust)
  then show ?case
  proof cases
    case (3 v)
    let ?p = "go_split (m_dest m) ''.''"
    show ?thesis
    proof (cases "v = HNil")
      case True
      then have eqs: "spec_mappings fm h1 src (m # mappings) d = spec_mappings fm h1 src mappings d"
        "apply_mappings fm src dest (m # mappings) h = apply_mappings fm src dest mappings h" for d dest
        using 3 val by simp_all
      show ?thesis unfolding eqs
        by (rule Cons.IH) (use Cons.prems in \<open>simp_all add: paths_of_def no_descent_Cons\<close>)
    next
      case False
      have own: "holds h (ONode (length h1) ms)" "distinct (addrs (ONode (length h1) ms))"
        using Cons.prems(1) by (simp_all add: apart_def)
      have "safe (forget_all ms) ?p"
        using Cons.prems(6) by (intro safe_if_no_leaf) (simp add: paths_of_def)
      from own_put [OF own this split_not_Nil, of v] obtain h' ms' where
        h': "setNestedValue h (HRef (length h1)) (m_dest m) v = Some h'"
        and ms': "forget_all ms' = put (forget_all ms) ?p v" and w: "written h (length h1) ms h' ms'"
        unfolding setNestedValue_def by blast
      have "leaves (refs_below (length h1)) (DNode (forget_all ms'))"
        using put_leaves [of "refs_below (length h1)", OF _ val_refs [OF 3]] Cons.prems(1) unfolding ms' by (simp add: apart_def)
      then have a: "apart h1 h' ms'" by (rule apart_written [OF Cons.prems(1) w])
      have eqs: "spec_mappings fm h1 src (m # mappings) (forget_all ms) = spec_mappings fm h1 src mappings (forget_all ms')"
        "apply_mappings fm src (HRef (length h1)) (m # mappings) h
          = apply_mappings fm src (HRef (length h1)) mappings h'"
        using 3 False val h' ms' by simp_all
      have "\<forall>p. leaf_at (forget_all ms') p \<longrightarrow> (\<forall>q \<in> set (paths_of mappings). \<not> strict_prefix p q)"
        using Cons.prems(5,6) put_leaf [of "forget_all ms" ?p v] unfolding ms' no_descent_Cons
        by (auto simp: paths_of_def)
      then show ?thesis
        unfolding eqs by (intro Cons.IH a) (use Cons.prems in \<open>simp_all add: no_descent_Cons\<close>)
    qed
  qed (use val same in simp_all)
next
  case Nil
  then show ?case by auto
qed

lemma read_own:
  "holds h t \<Longrightarrow> same_below n h1 h \<Longrightarrow> distinct (addrs t) \<Longrightarrow> \<forall>a \<in> set (addrs t). n \<le> a \<and> a \<notin> set seen \<Longrightarrow>
    \<forall>a \<in> set seen. n \<le> a \<Longrightarrow> leaves (refs_below n) (forget t) \<Longrightarrow> read_back VNil h seen (root t) = dtree_value h1 (forget t)"
proof (induction h t arbitrary: seen rule: holds.induct)
  case (1 h v)
  then have "\<forall>a < n. a \<in> set seen \<longleftrightarrow> a \<in> set []" by auto
  with 1 read_back_same [of n h1 h v seen "[]"] show ?case by (simp add: tree_of_def)
next
  case (2 h a ms)
  have "read_back VNil h (a # seen) (root (snd kt)) = dtree_value h1 (forget (snd kt))" if kt: "kt \<in> set ms" for kt
  proof (rule 2(1) [OF kt])
    have sub: "set (addrs (snd kt)) \<subseteq> set (addrs_of ms)" "distinct (addrs (snd kt))"
      using distinct_addrs_of [of ms "fst kt" "snd kt"] 2(4) kt by simp_all
    then show "\<forall>b \<in> set (addrs (snd kt)). n \<le> b \<and> b \<notin> set (a # seen)" using 2(4,5) by auto
    show "leaves (refs_below n) (forget (snd kt))" using 2(7) kt by (simp add: list_all_iff)
  qed (use 2 kt in \<open>auto simp: list_all_iff dest: distinct_addrs_of [of ms "fst kt" "snd kt"]\<close>)
  then have "those (map (\<lambda>kt. map_option (Pair (fst kt)) (read_back VNil h (a # seen) (root (snd kt)))) ms)
      = those (map (\<lambda>kt. map_option (Pair (fst kt)) (dtree_value h1 (forget (snd kt)))) ms)"
    by (intro those_map_cong) simp
  with 2(2,5) show ?case by (simp add: o_def)
qed

section \<open>Records left behind\<close>

text \<open>The addresses of a record that is decoded later: those of the defaults stay, the others move by \<open>d\<close>.\<close>

definition move :: "nat \<Rightarrow> nat \<Rightarrow> nat \<Rightarrow> nat" where
  "move n d a = (if a < n then a else a + d)"

definition moved :: "nat \<Rightarrow> nat \<Rightarrow> 'f heap \<Rightarrow> 'f heap \<Rightarrow> bool" where
  "moved n d h h' \<longleftrightarrow> length h' = length h + d \<and> n \<le> length h \<and> renamed (move n d) {..<length h} h h'"

lemma renamed_append:
  assumes "renamed \<sigma> {..<length h} h h'" "\<sigma> (length h) = length h'" "\<forall>kv \<in> set ps. refs_below (length h) (snd kv)"
  shows "renamed \<sigma> {..<Suc (length h)} (h @ [ps]) (h' @ [ren_obj \<sigma> ps])"
proof -
  have up: "refs_in {..<Suc (length h)} v" if "refs_in {..<length h} v" for v
    using that by (rule refs_in_mono) auto
  have old: "a < length h \<Longrightarrow> \<sigma> a < length h' \<and> h' ! \<sigma> a = ren_obj \<sigma> (h ! a)
      \<and> (\<forall>kv \<in> set (h ! a). refs_in {..<Suc (length h)} (snd kv))" for a
    using assms(1) up unfolding renamed_def by blast
  have "inj_on \<sigma> {..<length h}" using assms(1) by (simp add: renamed_def)
  moreover have "\<sigma> (length h) \<notin> \<sigma> ` {..<length h}" using old assms(2) by force
  ultimately have "inj_on \<sigma> {..<Suc (length h)}" by (simp add: lessThan_Suc)
  moreover have "\<forall>kv \<in> set ps. refs_in {..<Suc (length h)} (snd kv)"
    using assms(3) up unfolding refs_in_below by blast
  ultimately show ?thesis
    using old assms(2) unfolding renamed_def by (auto simp: nth_append less_Suc_eq)
qed

lemma moved_append:
  "moved n d h h' \<Longrightarrow> \<forall>kv \<in> set ps. refs_below (length h) (snd kv) \<Longrightarrow>
    moved n d (h @ [ps]) (h' @ [ren_obj (move n d) ps])"
  using renamed_append [of "move n d" h h' ps] by (simp add: moved_def move_def)

lemma place_moved:
  "place v h = (x, h1) \<Longrightarrow> moved n d h h' \<Longrightarrow> closed_below (length h) h \<Longrightarrow>
    \<exists>h1'. place v h' = (ren (move n d) x, h1') \<and> moved n d h1 h1'"
  "place_list vs h = (xs, h1) \<Longrightarrow> moved n d h h' \<Longrightarrow> closed_below (length h) h \<Longrightarrow>
    \<exists>h1'. place_list vs h' = (map (ren (move n d)) xs, h1') \<and> moved n d h1 h1'"
  "place_pairs ps h = (ys, h1) \<Longrightarrow> moved n d h h' \<Longrightarrow> closed_below (length h) h \<Longrightarrow>
    \<exists>h1'. place_pairs ps h' = (ren_obj (move n d) ys, h1') \<and> moved n d h1 h1'"
proof (induction v h and vs h and ps h arbitrary: x h1 h' and xs h1 h' and ys h1 h'
    rule: place_place_list_place_pairs.induct)
  case (7 vs h)
  then obtain xs h2 where p: "place_list vs h = (xs, h2)" by (cases "place_list vs h")
  with 7 show ?case by force
next
  case (8 ms h)
  then obtain ps h2 where p: "place_pairs ms h = (ps, h2)" by (cases "place_pairs ms h")
  with 8 obtain h2' where p': "place_pairs ms h' = (ren_obj (move n d) ps, h2')" "moved n d h2 h2'" by blast
  have "\<forall>kv \<in> set ps. refs_below (length h2) (snd kv)" using place_closed(3) [OF p 8(4)] by blast
  from moved_append [OF p'(2) this] 8(2) p p' show ?case
    by (auto simp: moved_def move_def)
next
  case (10 v vs h)
  then obtain x2 h2 xs2 h3 where p: "place v h = (x2, h2)" "place_list vs h2 = (xs2, h3)" by (metis surj_pair)
  from 10(1) [OF p(1) 10(4,5)] obtain h2' where 1: "place v h' = (ren (move n d) x2, h2')" "moved n d h2 h2'" by blast
  have "closed_below (length h2) h2" using place_closed(1) [OF p(1) 10(5)] by blast
  from 10(2) [OF p(1) [symmetric] p(2) 1(2) this] 1 p 10(3) show ?case by auto
next
  case (12 k v ps h)
  then obtain x2 h2 xs2 h3 where p: "place v h = (x2, h2)" "place_pairs ps h2 = (xs2, h3)" by (metis surj_pair)
  from 12(1) [OF p(1) 12(4,5)] obtain h2' where 1: "place v h' = (ren (move n d) x2, h2')" "moved n d h2 h2'" by blast
  have "closed_below (length h2) h2" using place_closed(1) [OF p(1) 12(5)] by blast
  from 12(2) [OF p(1) [symmetric] p(2) 1(2) this] 1 p 12(3) show ?case by (auto simp: ren_obj_def)
qed (auto simp: ren_obj_def split: prod.splits)

fun ren_dtree :: "(nat \<Rightarrow> nat) \<Rightarrow> 'f dtree \<Rightarrow> 'f dtree" where
  "ren_dtree \<sigma> (DLeaf v) = DLeaf (ren \<sigma> v)"
| "ren_dtree \<sigma> (DNode ms) = DNode (map (\<lambda>kt. (fst kt, ren_dtree \<sigma> (snd kt))) ms)"

abbreviation ren_dtrees :: "(nat \<Rightarrow> nat) \<Rightarrow> (string \<times> 'f dtree) list \<Rightarrow> (string \<times> 'f dtree) list" where
  "ren_dtrees \<sigma> ms \<equiv> map (\<lambda>kt. (fst kt, ren_dtree \<sigma> (snd kt))) ms"

lemma put_ren: "put (ren_dtrees \<sigma> ms) ks (ren \<sigma> v) = ren_dtrees \<sigma> (put ms ks v)"
proof (induction ms ks v rule: put.induct)
  case (3 ms k k2 ks v)
  let ?ns = "case map_of ms k of Some (DNode ns) \<Rightarrow> ns | _ \<Rightarrow> []"
  have "(case map_of (ren_dtrees \<sigma> ms) k of Some (DNode ns) \<Rightarrow> ns | _ \<Rightarrow> []) = ren_dtrees \<sigma> ?ns"
    by (cases "map_of ms k"; cases "the (map_of ms k)") (simp_all add: map_of_map_snd)
  with 3 show ?case by (simp add: map_snd_update)
qed (simp_all add: map_snd_update)

lemma dtree_value_ren:
  "renamed \<sigma> D h h' \<Longrightarrow> leaves (refs_in D) t \<Longrightarrow> dtree_value h' (ren_dtree \<sigma> t) = dtree_value h t"
proof (induction h t rule: dtree_value.induct)
  case (2 h ms)
  then have "those (map ((\<lambda>kt. map_option (Pair (fst kt)) (dtree_value h' (snd kt))) \<circ> (\<lambda>kt. (fst kt, ren_dtree \<sigma> (snd kt)))) ms)
      = those (map (\<lambda>kt. map_option (Pair (fst kt)) (dtree_value h (snd kt))) ms)"
    by (intro those_map_cong) (simp add: list_all_iff)
  then show ?case by simp
qed (simp add: tree_of_ren)

lemma spec_mappings_ren:
  assumes "renamed \<sigma> D h h'" "refs_in D src" "fm_coercer fm = NewTypeCoercer (fm_lib fm)"
    and "\<forall>m \<in> set mappings. refs_in D (m_default m) \<and> ren \<sigma> (m_default m) = m_default m" "leaves (refs_in D) (DNode d)"
  shows "spec_mappings fm h' (ren \<sigma> src) mappings (ren_dtrees \<sigma> d)
      = map_option (map_sum id (ren_dtrees \<sigma>)) (spec_mappings fm h src mappings d)
    \<and> (\<forall>d'. spec_mappings fm h src mappings d = Some (Inr d') \<longrightarrow> leaves (refs_in D) (DNode d'))"
  using assms
proof (induction mappings arbitrary: d)
  case (Cons m mappings)
  have "m\<lparr>m_default := ren \<sigma> (m_default m)\<rparr> = m" using Cons.prems(4) by simp
  then have val: "mapping_value fm h' (ren \<sigma> src) m = ren_outcome \<sigma> (mapping_value fm h src m)"
    "closed_outcome D (mapping_value fm h src m)"
    using mapping_value_ren [OF Cons.prems(1,2) _ Cons.prems(3), of m] Cons.prems(4) by simp_all
  consider "mapping_value fm h src m = None" | err where "mapping_value fm h src m = Some (Inl err)"
    | v where "mapping_value fm h src m = Some (Inr v)" by (metis not_None_eq sum.exhaust)
  then show ?case
  proof cases
    case (3 v)
    let ?d = "if v = HNil then d else put d (go_split (m_dest m) ''.'') v"
    have "leaves (refs_in D) (DNode ?d)"
      using Cons.prems(5) val(2) 3 put_leaves [of "refs_in D" d v] by simp
    moreover have "(if v = HNil then ren_dtrees \<sigma> d else put (ren_dtrees \<sigma> d) (go_split (m_dest m) ''.'') (ren \<sigma> v))
        = ren_dtrees \<sigma> ?d" by (simp add: put_ren)
    ultimately show ?thesis using Cons.IH [of ?d] Cons.prems val 3 by (simp only: spec_mappings.simps outcome_simps) simp
  qed (use val in simp_all)
qed simp

lemma Apply_spec_later:
  assumes "fm_coercer fm = NewTypeCoercer (fm_lib fm)" "closed_below (length h) h" "take (length h) h' = h"
    and "\<forall>m \<in> set mappings. refs_below (length h) (m_default m)"
  shows "Apply_spec fm record mappings h' = Apply_spec fm record mappings h"
proof -
  let ?n = "length h" and ?s = "move (length h) (length h' - length h)"
  have len: "?n \<le> length h'" using assms(3) by (metis length_take min.cobounded1)
  have id: "ren ?s v = v" if "refs_in {..<?n} v" for v :: "'a hval"
    using that by (rule ren_id) (simp add: move_def)
  have "ren_obj ?s (h ! a) = h' ! a" if "a < ?n" for a
  proof -
    have "ren ?s (snd kv) = snd kv" if "kv \<in> set (h ! a)" for kv
      using assms(2) \<open>a < ?n\<close> that id by (simp add: closed_below_def refs_in_below)
    then have "ren_obj ?s (h ! a) = h ! a" by (simp add: ren_obj_def map_idI)
    then show ?thesis using that assms(3) by (metis nth_take)
  qed
  then have start: "moved ?n (length h' - ?n) h h'"
    using len assms(2) by (auto simp: moved_def renamed_def move_def closed_below_def refs_in_below inj_on_def)
  show ?thesis
  proof (cases "unmarshal_object (fm_lib fm) record h")
    case None
    then have "unmarshal_object (fm_lib fm) record h' = None" by (auto simp: unmarshal_object_def split: if_splits)
    with None show ?thesis by (simp add: Apply_spec_def)
  next
    case (Some p)
    obtain src h1 where p: "p = (src, h1)" by (cases p)
    obtain h1' where h1': "unmarshal_object (fm_lib fm) record h' = Some (ren ?s src, h1')" "moved ?n (length h' - ?n) h1 h1'"
      and h1: "?n \<le> length h1" "refs_below (length h1) src"
    proof (cases "json_parse record = Some JNull")
      case True
      then show ?thesis using that [of h'] Some p start by (simp add: unmarshal_object_def)
    next
      case False
      then obtain ms where ms: "decode_object (fm_lib fm) record = Some ms" "place (VMap ms) h = (src, h1)"
        using Some p by (auto simp: unmarshal_object_def simp del: place.simps)
      from place_moved(1) [OF ms(2) start assms(2)] obtain h1' where
        "place (VMap ms) h' = (ren ?s src, h1')" "moved ?n (length h' - ?n) h1 h1'" by blast
      with that [of h1'] place_closed(1) [OF ms(2) assms(2)] ms False show ?thesis
        by (auto simp: unmarshal_object_def simp del: place.simps)
    qed
    have r: "renamed ?s {..<length h1} h1 h1'" using h1'(2) by (simp add: moved_def)
    have "\<forall>m \<in> set mappings. refs_in {..<length h1} (m_default m) \<and> ren ?s (m_default m) = m_default m"
      using assms(4) h1(1) id by (auto simp: refs_in_below intro: refs_below_mono)
    note spec = spec_mappings_ren [OF r _ assms(1) this, of src "[]"]
    then have spec: "spec_mappings fm h1' (ren ?s src) mappings []
        = map_option (map_sum id (ren_dtrees ?s)) (spec_mappings fm h1 src mappings [])"
      "\<And>d. spec_mappings fm h1 src mappings [] = Some (Inr d) \<Longrightarrow> leaves (refs_in {..<length h1}) (DNode d)"
      using h1(2) by (simp_all add: refs_in_below)
    consider "spec_mappings fm h1 src mappings [] = None" | e where "spec_mappings fm h1 src mappings [] = Some (Inl e)"
      | d where "spec_mappings fm h1 src mappings [] = Some (Inr d)" by (metis not_None_eq sum.exhaust)
    then show ?thesis
    proof cases
      case (3 d)
      have "dtree_value h1' (ren_dtree ?s (DNode d)) = dtree_value h1 (DNode d)"
        by (rule dtree_value_ren [OF r spec(2) [OF 3]])
      with 3 Some p h1'(1) spec(1) show ?thesis by (simp add: Apply_spec_def)
    qed (use Some p h1'(1) spec(1) in \<open>simp_all add: Apply_spec_def\<close>)
  qed
qed

lemma Apply_meets:
  assumes "fm_coercer fm = NewTypeCoercer (fm_lib fm)" "no_descent mappings" "closed_below (length h) h"
    and "\<forall>m \<in> set mappings. refs_below (length h) (m_default m)"
  shows "map_option fst (Apply fm record mappings h) = Apply_spec fm record mappings h
    \<and> (case Apply fm record mappings h of None \<Rightarrow> True | Some (r, h') \<Rightarrow> take (length h) h' = h)"
proof (cases "unmarshal_object (fm_lib fm) record h")
  case None
  then show ?thesis by (simp add: Apply_def Apply_spec_def)
next
  case (Some p)
  obtain src h1 where p: "p = (src, h1)" by (cases p)
  have h1: "closed_below (length h1) h1" "refs_below (length h1) src" "\<exists>e. h1 = h @ e"
    using Some assms(3) place_closed(1) [of _ h src h1]
    by (auto simp: unmarshal_object_def p simp del: place.simps split: if_splits)
  let ?n = "length h1" and ?h2 = "h1 @ [[]]"
  have same: "same_below ?n h1 ?h2" using h1(1) by (auto simp: same_below_def nth_append)
  then have start: "apart h1 ?h2 []" by (simp add: apart_def nth_append)
  have defaults: "\<forall>m \<in> set mappings. refs_below ?n (m_default m)"
    using assms(4) h1(3) by (auto intro: refs_below_mono)
  have kept: "take (length h) h' = h" if "same_below ?n h1 h'" for h'
  proof -
    have "take ?n h' = h1" using that by (intro nth_equalityI) (auto simp: same_below_def)
    then show ?thesis using h1(3) by (auto simp: take_add take_all) (metis append_eq_conv_conj take_add length_append le_add1 min.absorb1 take_take)
  qed
  have spec: "case spec_mappings fm h1 src mappings [] of
      None \<Rightarrow> apply_mappings fm src (HRef ?n) mappings ?h2 = None
    | Some (Inl err) \<Rightarrow> \<exists>h'. apply_mappings fm src (HRef ?n) mappings ?h2 = Some (Inl err, h') \<and> same_below ?n h1 h'
    | Some (Inr d) \<Rightarrow> \<exists>h' ms'. apply_mappings fm src (HRef ?n) mappings ?h2 = Some (Inr (), h')
        \<and> apart h1 h' ms' \<and> forget_all ms' = d"
    using apply_mappings_spec [OF start h1(2) assms(1) defaults assms(2)] by simp
  consider "spec_mappings fm h1 src mappings [] = None" | e where "spec_mappings fm h1 src mappings [] = Some (Inl e)"
    | d where "spec_mappings fm h1 src mappings [] = Some (Inr d)" by (metis not_None_eq sum.exhaust)
  then show ?thesis
  proof cases
    case (3 d)
    then obtain h' ms' where a: "apply_mappings fm src (HRef ?n) mappings ?h2 = Some (Inr (), h')" "apart h1 h' ms'"
      "forget_all ms' = d" using spec by auto
    then have "tree_of VNil h' (HRef ?n) = dtree_value h1 (DNode d)" "same_below ?n h1 h'"
      using read_own [of h' "ONode ?n ms'" ?n h1 "[]"] by (simp_all add: apart_def tree_of_def)
    with 3 a kept Some p show ?thesis by (simp add: Apply_def Apply_spec_def new_map_def)
  qed (use spec Some p kept in \<open>auto simp: Apply_def Apply_spec_def new_map_def\<close>)
qed

text \<open>
  C9: \<open>Apply\<close> is a function of the record. If no destination path goes on below an earlier one (and the
  default values lie in the heap), \<open>Apply\<close> with the built-in coercer does what its specification says:
  every mapping reads the record as it was decoded, the destination is the tree of the values written at
  their paths in order, the first failing coercion ends it with its error, and it panics only where
  printing a cyclic default value never ends. It leaves every object that existed before as it was.
\<close>

theorem apply_meets_spec:
  assumes "fm_coercer fm = NewTypeCoercer (fm_lib fm)" "no_descent mappings" "closed_below (length h) h"
    and "\<forall>m \<in> set mappings. refs_below (length h) (m_default m)"
  shows "map_option fst (Apply fm record mappings h) = Apply_spec fm record mappings h
    \<and> (case Apply fm record mappings h of None \<Rightarrow> True | Some (r, h') \<Rightarrow> take (length h) h' = h)"
  by (rule Apply_meets [OF assms])

definition sample_mapper :: "int field_mapper" where
  "sample_mapper = \<lparr>fm_lib = int_lib, fm_coercer = NewTypeCoercer int_lib,
     unmarshal_err = (\<lambda>_. NewError ''json''), marshal_err = (\<lambda>_. NewError ''unsupported value'')\<rparr>"

definition rename_field :: "string \<Rightarrow> string \<Rightarrow> int mapping" where
  "rename_field a b = \<lparr>m_source = a, m_dest = b, m_transform = TransformRename, m_cast_type = [],
     m_expression = [], m_default = HNil\<rparr>"

definition quote_marks :: "string \<Rightarrow> string" where
  "quote_marks s = map (\<lambda>c. if c = CHR ''~'' then CHR 0x22 else c) s"

theorem apply_meets_spec_witness:
  "map_option fst (Apply sample_mapper (quote_marks ''{~a~:{~b~:1}}'') [rename_field ''a.b'' ''x.y''] [])
    = Some (Inr (quote_marks ''{~x~:{~y~:1}}''))"
proof -
  have "map_option fst (Apply sample_mapper (quote_marks ''{~a~:{~b~:1}}'') [rename_field ''a.b'' ''x.y''] [])
      = Apply_spec sample_mapper (quote_marks ''{~a~:{~b~:1}}'') [rename_field ''a.b'' ''x.y''] []"
    using apply_meets_spec [of sample_mapper "[rename_field ''a.b'' ''x.y'']" "[]"]
    by (simp add: sample_mapper_def no_descent_def paths_of_def closed_below_def rename_field_def)
  also have "\<dots> = Some (Inr (quote_marks ''{~x~:{~y~:1}}''))" by code_simp
  finally show ?thesis .
qed



end
