(* ===== verification/Arrow.thy ===== *)
theory Arrow
  imports Values "HOL-Library.AList"
begin

text \<open>
  The columnar batches of \<open>pkg/arrow/buffer.go\<close>: columns by field name, each a list of values with a list
  of null marks; a record adds one value to the column of every field of the schema. \<open>None\<close> as the outcome of
  a call is a panic. \<open>jerr\<close> gives the errors of \<open>encoding/json\<close>.
\<close>

section \<open>Schemas and batches\<close>

datatype data_type = TypeBool | TypeInt32 | TypeInt64 | TypeFloat64 | TypeString | TypeBinary | TypeTimestamp | TypeJSON

record arrow_field =
  af_name :: string
  af_type :: data_type
  af_nullable :: bool

type_synonym arrow_schema = "arrow_field list"

record 'f column =
  col_name :: string
  col_type :: data_type
  col_values :: "'f go_value list"
  col_nulls :: "bool list"

record 'f batch =
  ab_columns :: "(string \<times> 'f column) list"
  ab_rows :: nat
  ab_schema :: arrow_schema

text \<open>The errors of \<open>json.Unmarshal\<close> for a document and of \<open>json.Marshal\<close> for a value.\<close>

record 'f json_errors =
  je_unmarshal :: "raw_message \<Rightarrow> go_error"
  je_marshal :: "'f go_value \<Rightarrow> go_error"

definition empty_column :: "arrow_field \<Rightarrow> 'f column" where
  "empty_column f = \<lparr>col_name = af_name f, col_type = af_type f, col_values = [], col_nulls = []\<rparr>"

definition NewBatch :: "arrow_schema \<Rightarrow> int \<Rightarrow> 'f batch option" where
  "NewBatch schema capacity =
    (if capacity < 0 \<and> schema \<noteq> [] then None
     else Some \<lparr>ab_columns = fold (\<lambda>f cols. AList.update (af_name f) (empty_column f) cols) schema [],
       ab_rows = 0, ab_schema = schema\<rparr>)"

text \<open>Adding the value of a row to the column of a field.\<close>

definition append_value :: "'f go_value option \<Rightarrow> 'f column \<Rightarrow> 'f column" where
  "append_value v col = (case v of
     None \<Rightarrow> col\<lparr>col_values := col_values col @ [VNil], col_nulls := col_nulls col @ [True]\<rparr>
   | Some x \<Rightarrow> if x = VNil
       then col\<lparr>col_values := col_values col @ [VNil], col_nulls := col_nulls col @ [True]\<rparr>
       else col\<lparr>col_values := col_values col @ [x], col_nulls := col_nulls col @ [False]\<rparr>)"

fun append_row :: "arrow_schema \<Rightarrow> (string \<times> 'f go_value) list \<Rightarrow> (string \<times> 'f column) list
    \<Rightarrow> (string \<times> 'f column) list option" where
  "append_row [] row cols = Some cols"
| "append_row (f # fs) row cols = (case map_of cols (af_name f) of
     None \<Rightarrow> None
   | Some col \<Rightarrow> append_row fs row (AList.update (af_name f) (append_value (map_of row (af_name f)) col) cols))"

definition AppendRecord :: "'f go_lib \<Rightarrow> 'f json_errors \<Rightarrow> raw_message \<Rightarrow> 'f batch
    \<Rightarrow> (unit result \<times> 'f batch) option" where
  "AppendRecord lib jerr data b = (case decode_object lib data of
     None \<Rightarrow> Some (Inl (Wrapped ''unmarshal record: '' (je_unmarshal jerr data)), b)
   | Some row \<Rightarrow> map_option (\<lambda>cols. (Inr (), b\<lparr>ab_columns := cols, ab_rows := ab_rows b + 1\<rparr>))
       (append_row (ab_schema b) row (ab_columns b)))"

definition RowCount :: "'f batch \<Rightarrow> nat" where
  "RowCount b = ab_rows b"

definition Column :: "'f batch \<Rightarrow> string \<Rightarrow> 'f column option" where
  "Column b name = map_of (ab_columns b) name"

definition Schema :: "'f batch \<Rightarrow> arrow_schema" where
  "Schema b = ab_schema b"

text \<open>The row at an index, the members in the order of the fields.\<close>

fun read_row :: "(string \<times> 'f column) list \<Rightarrow> nat \<Rightarrow> arrow_schema \<Rightarrow> (string \<times> 'f go_value) list
    \<Rightarrow> (string \<times> 'f go_value) list option" where
  "read_row cols i [] row = Some row"
| "read_row cols i (f # fs) row = (case map_of cols (af_name f) of
     None \<Rightarrow> None
   | Some col \<Rightarrow>
      (if i \<ge> length (col_nulls col) \<or> \<not> col_nulls col ! i \<and> i \<ge> length (col_values col) then None
       else read_row cols i fs (if col_nulls col ! i then row else AList.update (af_name f) (col_values col ! i) row)))"

fun rows_from :: "'f go_lib \<Rightarrow> 'f json_errors \<Rightarrow> 'f batch \<Rightarrow> nat list \<Rightarrow> raw_message list result option" where
  "rows_from lib jerr b [] = Some (Inr [])"
| "rows_from lib jerr b (i # is) = (case read_row (ab_columns b) i (ab_schema b) [] of
     None \<Rightarrow> None
   | Some row \<Rightarrow> (case encode_value lib (VMap row) of
        None \<Rightarrow> Some (Inl (Wrapped (''marshal row '' @ show_int (int i) @ '': '') (je_marshal jerr (VMap row))))
      | Some data \<Rightarrow> (case rows_from lib jerr b is of
          Some (Inr rest) \<Rightarrow> Some (Inr (data # rest))
        | r \<Rightarrow> r)))"

definition ToRecords :: "'f go_lib \<Rightarrow> 'f json_errors \<Rightarrow> 'f batch \<Rightarrow> raw_message list result option" where
  "ToRecords lib jerr b = rows_from lib jerr b [0..<ab_rows b]"

section \<open>Inference and pooling\<close>

definition inferType :: "'f go_value \<Rightarrow> data_type" where
  "inferType v = (case v of VBool _ \<Rightarrow> TypeBool | VFloat _ \<Rightarrow> TypeFloat64 | VString _ \<Rightarrow> TypeString
     | VMap _ \<Rightarrow> TypeJSON | VArray _ \<Rightarrow> TypeJSON | _ \<Rightarrow> TypeString)"

text \<open>\<open>order\<close> is the order in which Go ranges over the map, any rearrangement of its members.\<close>

definition InferSchema :: "'f go_lib \<Rightarrow> 'f json_errors \<Rightarrow> ((string \<times> 'f go_value) list \<Rightarrow> (string \<times> 'f go_value) list)
    \<Rightarrow> raw_message \<Rightarrow> arrow_schema result" where
  "InferSchema lib jerr order sample = (case decode_object lib sample of
     None \<Rightarrow> Inl (Wrapped ''unmarshal sample: '' (je_unmarshal jerr sample))
   | Some row \<Rightarrow> Inr (map (\<lambda>(name, v). \<lparr>af_name = name, af_type = inferType v, af_nullable = True\<rparr>) (order row)))"

text \<open>
  \<open>BufferPool\<close> over a \<open>sync.Pool\<close>: the batches put back. \<open>Get\<close> returns any of them (\<open>Some i\<close>) or a new one
  (\<open>None\<close>).
\<close>

record 'f buffer_pool =
  bp_schema :: arrow_schema
  bp_capacity :: int
  bp_free :: "'f batch list"

definition NewBufferPool :: "arrow_schema \<Rightarrow> int \<Rightarrow> 'f buffer_pool" where
  "NewBufferPool schema capacity = \<lparr>bp_schema = schema, bp_capacity = capacity, bp_free = []\<rparr>"

definition pool_Get :: "nat option \<Rightarrow> 'f buffer_pool \<Rightarrow> ('f batch \<times> 'f buffer_pool) option" where
  "pool_Get choice p = (case choice of
     Some i \<Rightarrow> if i < length (bp_free p)
       then Some (bp_free p ! i, p\<lparr>bp_free := take i (bp_free p) @ drop (Suc i) (bp_free p)\<rparr>)
       else map_option (\<lambda>b. (b, p)) (NewBatch (bp_schema p) (bp_capacity p))
   | None \<Rightarrow> map_option (\<lambda>b. (b, p)) (NewBatch (bp_schema p) (bp_capacity p)))"

definition reset_batch :: "'f batch \<Rightarrow> 'f batch" where
  "reset_batch b = b\<lparr>ab_columns := map (\<lambda>(n, c). (n, c\<lparr>col_values := [], col_nulls := []\<rparr>)) (ab_columns b), ab_rows := 0\<rparr>"

definition pool_Put :: "'f batch \<Rightarrow> 'f buffer_pool \<Rightarrow> 'f buffer_pool" where
  "pool_Put b p = p\<lparr>bp_free := reset_batch b # bp_free p\<rparr>"

section \<open>What a batch holds\<close>

text \<open>A record as the schema sees it: the members of the fields that are present and not null.\<close>

definition cell :: "(string \<times> 'f go_value) list \<Rightarrow> arrow_field \<Rightarrow> 'f go_value" where
  "cell row f = (case map_of row (af_name f) of None \<Rightarrow> VNil | Some v \<Rightarrow> v)"

definition project :: "arrow_schema \<Rightarrow> (string \<times> 'f go_value) list \<Rightarrow> (string \<times> 'f go_value) list" where
  "project schema row = map (\<lambda>f. (af_name f, cell row f)) (filter (\<lambda>f. cell row f \<noteq> VNil) schema)"

text \<open>The first value that cannot be marshalled ends the conversion of rows.\<close>

fun marshal_rows :: "'f go_lib \<Rightarrow> 'f json_errors \<Rightarrow> nat \<Rightarrow> (string \<times> 'f go_value) list list \<Rightarrow> raw_message list result" where
  "marshal_rows lib jerr i [] = Inr []"
| "marshal_rows lib jerr i (row # rows) = (case encode_value lib (VMap row) of
     None \<Rightarrow> Inl (Wrapped (''marshal row '' @ show_int (int i) @ '': '') (je_marshal jerr (VMap row)))
   | Some data \<Rightarrow> (case marshal_rows lib jerr (Suc i) rows of Inl e \<Rightarrow> Inl e | Inr rest \<Rightarrow> Inr (data # rest)))"

definition column_of :: "(string \<times> 'f go_value) list list \<Rightarrow> arrow_field \<Rightarrow> 'f column \<Rightarrow> bool" where
  "column_of rows f col \<longleftrightarrow> col_values col = map (\<lambda>row. cell row f) rows
     \<and> col_nulls col = map (\<lambda>row. cell row f = VNil) rows"

definition holds_rows :: "'f batch \<Rightarrow> (string \<times> 'f go_value) list list \<Rightarrow> bool" where
  "holds_rows b rows \<longleftrightarrow> ab_rows b = length rows \<and> distinct (map af_name (ab_schema b))
     \<and> (\<forall>f \<in> set (ab_schema b). \<exists>col. map_of (ab_columns b) (af_name f) = Some col \<and> column_of rows f col)"

lemma new_columns:
  "distinct (map af_name schema) \<Longrightarrow> f \<in> set schema \<Longrightarrow>
    map_of (fold (\<lambda>f cols. AList.update (af_name f) (empty_column f) cols) schema cols) (af_name f) = Some (empty_column f)"
proof (induction schema arbitrary: cols)
  case (Cons g schema)
  have other: "n \<notin> af_name ` set fs \<Longrightarrow>
      map_of (fold (\<lambda>f cols. AList.update (af_name f) (empty_column f) cols) fs cols) n = map_of cols n"
    for n fs and cols :: "(string \<times> 'a column) list"
    by (induction fs arbitrary: cols) (auto simp: update_conv')
  show ?case
  proof (cases "f = g")
    case True
    with Cons.prems show ?thesis by (simp add: other update_conv')
  next
    case False
    with Cons show ?thesis by simp
  qed
qed simp

lemma NewBatch_holds: "distinct (map af_name schema) \<Longrightarrow> 0 \<le> capacity \<Longrightarrow>
    \<exists>b. NewBatch schema capacity = Some b \<and> holds_rows b [] \<and> ab_schema b = schema"
proof -
  assume d: "distinct (map af_name schema)" "0 \<le> capacity"
  have "column_of [] f (empty_column f)" for f :: arrow_field by (simp add: column_of_def empty_column_def)
  with d new_columns [OF d(1)] show ?thesis by (auto simp: NewBatch_def holds_rows_def)
qed

lemma append_row_spec:
  "distinct (map af_name fs) \<Longrightarrow> \<forall>f \<in> set fs. map_of cols (af_name f) \<noteq> None \<Longrightarrow>
    \<exists>cols'. append_row fs row cols = Some cols'
      \<and> (\<forall>n. map_of cols' n = (if n \<in> af_name ` set fs
          then map_option (append_value (map_of row n)) (map_of cols n) else map_of cols n))"
proof (induction fs arbitrary: cols)
  case (Cons f fs)
  obtain col where col: "map_of cols (af_name f) = Some col" using Cons.prems(2) by auto
  let ?cols = "AList.update (af_name f) (append_value (map_of row (af_name f)) col) cols"
  have "\<forall>g \<in> set fs. map_of ?cols (af_name g) \<noteq> None"
    using Cons.prems(2) by (auto simp: update_conv')
  from Cons.IH [OF _ this] Cons.prems(1) obtain cols' where c: "append_row fs row ?cols = Some cols'"
    "\<And>n. map_of cols' n = (if n \<in> af_name ` set fs
      then map_option (append_value (map_of row n)) (map_of ?cols n) else map_of ?cols n)" by auto
  have "append_row (f # fs) row cols = Some cols'" using c(1) col by simp
  then show ?case using c(2) col Cons.prems(1) by (auto simp: update_conv')
qed simp

lemma append_value_column:
  "column_of rows f col \<Longrightarrow> column_of (rows @ [row]) f (append_value (map_of row (af_name f)) col)"
  by (auto simp: column_of_def append_value_def cell_def split: option.split)

lemma AppendRecord_holds:
  assumes "holds_rows b rows" "decode_object lib data = Some row"
  shows "\<exists>b'. AppendRecord lib jerr data b = Some (Inr (), b') \<and> holds_rows b' (rows @ [row]) \<and> ab_schema b' = ab_schema b"
proof -
  from assms(1) have "distinct (map af_name (ab_schema b))" "\<forall>f \<in> set (ab_schema b). map_of (ab_columns b) (af_name f) \<noteq> None"
    by (force simp: holds_rows_def)+
  from append_row_spec [OF this, of row] obtain cols' where
    c: "append_row (ab_schema b) row (ab_columns b) = Some cols'"
    and m: "\<forall>n. map_of cols' n = (if n \<in> af_name ` set (ab_schema b)
      then map_option (append_value (map_of row n)) (map_of (ab_columns b) n) else map_of (ab_columns b) n)" by blast
  have "holds_rows (b\<lparr>ab_columns := cols', ab_rows := ab_rows b + 1\<rparr>) (rows @ [row])"
    using assms(1) m by (fastforce simp: holds_rows_def intro: append_value_column)
  then show ?thesis using c assms(2) by (simp add: AppendRecord_def)
qed

lemma read_row_project:
  "distinct (map af_name fs) \<Longrightarrow> af_name ` set fs \<inter> fst ` set acc = {} \<Longrightarrow> i < length rows \<Longrightarrow>
    \<forall>f \<in> set fs. \<exists>col. map_of cols (af_name f) = Some col \<and> column_of rows f col \<Longrightarrow>
    read_row cols i fs acc = Some (acc @ project fs (rows ! i))"
proof (induction fs arbitrary: acc)
  case (Cons f fs)
  obtain col where col: "map_of cols (af_name f) = Some col" "column_of rows f col" using Cons.prems(4) by auto
  have upd: "AList.update k v acc = acc @ [(k, v)]" if "k \<notin> fst ` set acc" for k v
    using that by (induction acc) auto
  show ?case
  proof (cases "cell (rows ! i) f = VNil")
    case True
    with Cons col show ?thesis by (simp add: column_of_def project_def)
  next
    case False
    then have "read_row cols i (f # fs) acc = read_row cols i fs (acc @ [(af_name f, cell (rows ! i) f)])"
      using Cons.prems col upd by (simp add: column_of_def)
    also have "\<dots> = Some ((acc @ [(af_name f, cell (rows ! i) f)]) @ project fs (rows ! i))"
      by (rule Cons.IH) (use Cons.prems in auto)
    finally show ?thesis using False by (simp add: project_def)
  qed
qed (simp add: project_def)

lemma ToRecords_rows:
  assumes "holds_rows b rows"
  shows "ToRecords lib jerr b = Some (marshal_rows lib jerr 0 (map (project (ab_schema b)) rows))"
proof -
  have row: "read_row (ab_columns b) i (ab_schema b) [] = Some (project (ab_schema b) (rows ! i))" if "i < length rows" for i
    using assms that read_row_project [of "ab_schema b" "[]" i rows "ab_columns b"] by (simp add: holds_rows_def)
  have "rows_from lib jerr b [i..<length rows] = Some (marshal_rows lib jerr i (map (project (ab_schema b)) (drop i rows)))"
    if "i \<le> length rows" for i
    using that
  proof (induction "length rows - i" arbitrary: i)
    case (Suc m)
    then have i: "i < length rows" by simp
    with Suc have "rows_from lib jerr b [Suc i..<length rows]
        = Some (marshal_rows lib jerr (Suc i) (map (project (ab_schema b)) (drop (Suc i) rows)))" by simp
    then show ?case
      using i row [OF i] by (simp add: upt_conv_Cons Cons_nth_drop_Suc [symmetric] split: option.split sum.split)
  qed simp
  from this [of 0] assms show ?thesis by (simp add: ToRecords_def holds_rows_def)
qed

section \<open>Properties\<close>

fun append_all :: "'f go_lib \<Rightarrow> 'f json_errors \<Rightarrow> raw_message list \<Rightarrow> 'f batch \<Rightarrow> 'f batch option" where
  "append_all lib jerr [] b = Some b"
| "append_all lib jerr (d # ds) b = (case AppendRecord lib jerr d b of
     Some (Inr _, b') \<Rightarrow> append_all lib jerr ds b'
   | _ \<Rightarrow> None)"

lemma append_all_holds:
  "holds_rows b rows \<Longrightarrow> map (decode_object lib) ds = map Some new \<Longrightarrow>
    \<exists>b'. append_all lib jerr ds b = Some b' \<and> holds_rows b' (rows @ new) \<and> ab_schema b' = ab_schema b"
proof (induction ds arbitrary: b rows new)
  case (Cons d ds)
  then obtain row new' where n: "new = row # new'" "decode_object lib d = Some row"
    "map (decode_object lib) ds = map Some new'" by (cases new) auto
  from AppendRecord_holds [OF Cons.prems(1) n(2), of jerr] obtain b1 where
    b1: "AppendRecord lib jerr d b = Some (Inr (), b1)" "holds_rows b1 (rows @ [row])" "ab_schema b1 = ab_schema b" by blast
  from Cons.IH [OF b1(2) n(3)] b1 n(1) show ?case by simp
qed simp

text \<open>
  C22: a batch gives back its records as the schema sees them. With distinct field names, appending any
  documents that decode never panics, and converting the batch back yields, in order, each record reduced
  to the fields of the schema that it has with a value other than null, or the error of the first row with
  a value that JSON cannot express.
\<close>

theorem batch_projects_records:
  assumes "distinct (map af_name schema)" "0 \<le> capacity" "map (decode_object lib) ds = map Some rows"
  shows "\<exists>b. Option.bind (NewBatch schema capacity) (append_all lib jerr ds) = Some b
    \<and> RowCount b = length rows \<and> ToRecords lib jerr b = Some (marshal_rows lib jerr 0 (map (project schema) rows))"
proof -
  from NewBatch_holds [OF assms(1,2)] obtain b0 :: "'a batch" where b0: "NewBatch schema capacity = Some b0" "holds_rows b0 []"
    "ab_schema b0 = schema" by blast
  from append_all_holds [OF b0(2) assms(3), of jerr] obtain b where
    b: "append_all lib jerr ds b0 = Some b" "holds_rows b rows" "ab_schema b = schema" using b0(3) by auto
  with b0 show ?thesis using ToRecords_rows [OF b(2), of lib jerr] by (simp add: RowCount_def holds_rows_def)
qed

definition int_field :: "string \<Rightarrow> arrow_field" where
  "int_field n = \<lparr>af_name = n, af_type = TypeInt64, af_nullable = True\<rparr>"

definition no_errors :: "'f json_errors" where
  "no_errors = \<lparr>je_unmarshal = (\<lambda>_. NewError ''json''), je_marshal = (\<lambda>_. NewError ''json'')\<rparr>"

definition marks :: "string \<Rightarrow> string" where
  "marks s = map (\<lambda>c. if c = CHR ''~'' then CHR 0x22 else c) s"

theorem batch_projects_records_witness:
  "\<exists>b. Option.bind (NewBatch [int_field ''a''] 2) (append_all int_lib no_errors [marks ''{~a~:1,~b~:2}'', ''{}'']) = Some b
    \<and> ToRecords int_lib no_errors b = Some (Inr [marks ''{~a~:1}'', ''{}''])"
proof -
  have d: "map (decode_object int_lib) [marks ''{~a~:1,~b~:2}'', ''{}''] = map Some [[(''a'', VFloat 1), (''b'', VFloat 2)], []]"
    by code_simp
  have "marshal_rows int_lib no_errors 0 (map (project [int_field ''a'']) [[(''a'', VFloat 1), (''b'', VFloat 2)], []])
      = Inr [marks ''{~a~:1}'', ''{}'']" by code_simp
  then show ?thesis
    using batch_projects_records [OF _ _ d, of "[int_field ''a'']" 2 no_errors] by auto
qed

text \<open>
  A schema that names a field twice shifts the rows. Every record adds two values to the shared column
  but a row reads one, so the second row is the first again and the second record is lost.
\<close>

theorem duplicate_field_shifts_rows:
  "Option.bind (Option.bind (NewBatch [int_field ''a'', int_field ''a''] 2)
      (append_all int_lib no_errors [marks ''{~a~:1}'', marks ''{~a~:2}'']))
    (ToRecords int_lib no_errors) = Some (Inr [marks ''{~a~:1}'', marks ''{~a~:1}''])"
  by code_simp

definition erase :: "'f column \<Rightarrow> 'f column" where
  "erase c = c\<lparr>col_values := [], col_nulls := []\<rparr>"

lemma erase_append [simp]: "erase (append_value v c) = erase c"
  by (auto simp: erase_def append_value_def split: option.split)

abbreviation erase_all :: "(string \<times> 'f column) list \<Rightarrow> (string \<times> 'f column) list" where
  "erase_all cols \<equiv> map (\<lambda>(n, c). (n, erase c)) cols"

lemma erase_update: "map_of cols k = Some c \<Longrightarrow> erase c' = erase c \<Longrightarrow> erase_all (AList.update k c' cols) = erase_all cols"
  by (induction cols) auto

lemma append_row_erase: "append_row fs row cols = Some cols' \<Longrightarrow> erase_all cols' = erase_all cols"
  by (induction fs row cols rule: append_row.induct) (auto simp: erase_update split: option.splits)

lemma reset_batch_erase: "reset_batch b = b\<lparr>ab_columns := erase_all (ab_columns b), ab_rows := 0\<rparr>"
  by (simp add: reset_batch_def erase_def)

lemma reset_AppendRecord: "AppendRecord lib jerr d b = Some (r, b') \<Longrightarrow> reset_batch b' = reset_batch b"
  unfolding AppendRecord_def reset_batch_erase
  by (auto split: option.splits dest: append_row_erase)

lemma reset_append_all: "append_all lib jerr ds b = Some b' \<Longrightarrow> reset_batch b' = reset_batch b"
  by (induction ds arbitrary: b) (auto dest: reset_AppendRecord split: option.splits sum.splits)

lemma erase_new: "erase_all cols = cols \<Longrightarrow>
    erase_all (fold (\<lambda>f cols. AList.update (af_name f) (empty_column f) cols) schema cols)
      = fold (\<lambda>f cols. AList.update (af_name f) (empty_column f) cols) schema cols"
proof (induction schema arbitrary: cols)
  case (Cons f schema)
  have e: "erase (empty_column f) = empty_column f" by (simp add: erase_def empty_column_def)
  have "erase_all (AList.update (af_name f) (empty_column f) cols) = AList.update (af_name f) (empty_column f) cols"
    using Cons.prems by (induction cols) (auto simp: e)
  with Cons.IH show ?case by simp
qed simp

text \<open>
  A pooled batch is as good as a new one. Whatever documents were appended to a batch of the pool's
  schema, once it is put back the next \<open>Get\<close> that takes it returns exactly what \<open>NewBatch\<close> would, and
  leaves the pool as it was before the batch was put back.
\<close>

theorem pooled_batch_is_new:
  assumes "NewBatch (bp_schema p) (bp_capacity p) = Some b0" "append_all lib jerr ds b0 = Some b"
  shows "pool_Get (Some 0) (pool_Put b p) = Some (b0, p)"
proof -
  have "erase_all (ab_columns b0) = ab_columns b0" "ab_rows b0 = 0"
    using assms(1) erase_new [of "[]" "bp_schema p"] by (auto simp: NewBatch_def split: if_splits)
  then have "reset_batch b0 = b0" by (simp add: reset_batch_erase)
  then show ?thesis using reset_append_all [OF assms(2)] by (simp add: pool_Get_def pool_Put_def)
qed

theorem pooled_batch_is_new_witness:
  "\<exists>b0 b. append_all int_lib no_errors [marks ''{~a~:1}''] b0 = Some b \<and> RowCount b = 1
    \<and> pool_Get (Some 0) (pool_Put b (NewBufferPool [int_field ''a''] 4)) = Some (b0, NewBufferPool [int_field ''a''] 4)"
proof -
  let ?p = "NewBufferPool [int_field ''a''] 4 :: int buffer_pool"
  obtain b0 :: "int batch" where b0: "NewBatch (bp_schema ?p) (bp_capacity ?p) = Some b0" "holds_rows b0 []"
    using NewBatch_holds [of "[int_field ''a'']" 4] by (auto simp: NewBufferPool_def)
  have "map (decode_object int_lib) [marks ''{~a~:1}''] = map Some [[(''a'', VFloat 1)]]" by code_simp
  from append_all_holds [OF b0(2) this, of no_errors] obtain b where
    b: "append_all int_lib no_errors [marks ''{~a~:1}''] b0 = Some b" "RowCount b = 1"
    by (auto simp: holds_rows_def RowCount_def)
  with pooled_batch_is_new [OF b0(1) b(1)] show ?thesis by blast
qed

end
