(* ===== verification/TransformWorker.thy ===== *)
theory TransformWorker
  imports MapperSpec Arrow Dedup
begin

text \<open>
  The transform worker, \<open>internal/worker/transform/worker.go\<close>: deduplication, then the field mappings over
  contiguous slices of the batch, each in a goroutine of its own. A goroutine is the list of records it
  still has to map, what it has mapped and its error; a schedule is the order in which the goroutines take
  their records. \<open>None\<close> is a panic in one of them, which ends the process. \<open>ctx k i\<close> is the answer of the
  \<open>i\<close>th call of \<open>ctx.Err\<close> in goroutine \<open>k\<close>.
\<close>

section \<open>The worker\<close>

record 'f transform_worker =
  tw_mapper :: "'f field_mapper"
  tw_dedup :: "deduplicator option"
  tw_concurrency :: int
  tw_json :: "'f json_errors"   \<comment> \<open>for the batches\<close>


section \<open>Mapping a slice\<close>

record goroutine =
  g_todo :: "(nat \<times> rec \<times> raw_message) list"  \<comment> \<open>index in the slice, record, document\<close>
  g_out :: "rec list"
  g_err :: "go_error option"
  g_poll :: nat

text \<open>The loop of \<open>applyMappingsColumnar\<close> that loads the batch.\<close>

fun load_batch :: "'f go_lib \<Rightarrow> 'f json_errors \<Rightarrow> (nat \<Rightarrow> go_error option) \<Rightarrow> nat \<Rightarrow> rec list \<Rightarrow> 'f batch
    \<Rightarrow> 'f batch result option" where
  "load_batch lib jerr ctx i [] b = Some (Inr b)"
| "load_batch lib jerr ctx i (r # rs) b = (case ctx i of
     Some err \<Rightarrow> Some (Inl err)
   | None \<Rightarrow> (case AppendRecord lib jerr (r_data r) b of
        None \<Rightarrow> None
      | Some (Inl err, _) \<Rightarrow> Some (Inl (Wrapped (''append record '' @ show_int (int i) @ '' to batch: '') err))
      | Some (Inr _, b') \<Rightarrow> load_batch lib jerr ctx (Suc i) rs b'))"

definition columnar_documents :: "'f transform_worker \<Rightarrow> (nat \<Rightarrow> go_error option) \<Rightarrow> rec list \<Rightarrow> arrow_schema
    \<Rightarrow> raw_message list result option" where
  "columnar_documents tw ctx records schema =
    (let lib = fm_lib (tw_mapper tw) in
     Option.bind (NewBatch schema (int (length records))) (\<lambda>b0.
     Option.bind (load_batch lib (tw_json tw) ctx 0 records b0) (\<lambda>loaded. case loaded of
       Inl err \<Rightarrow> Some (Inl err)
     | Inr b \<Rightarrow> map_option (\<lambda>res. case res of
           Inl err \<Rightarrow> Inl (Wrapped ''convert batch to records: '' err)
         | Inr docs \<Rightarrow> Inr docs) (ToRecords lib (tw_json tw) b))))"

definition goroutine_of :: "rec list \<Rightarrow> raw_message list \<Rightarrow> nat \<Rightarrow> goroutine" where
  "goroutine_of records docs poll =
    \<lparr>g_todo = zip [0..<length docs] (zip records docs), g_out = [], g_err = None, g_poll = poll\<rparr>"

text \<open>\<open>applyMappingsSlice\<close> up to its loop over the records.\<close>

definition start_slice :: "'f transform_worker \<Rightarrow> (nat \<Rightarrow> go_error option) \<Rightarrow> arrow_schema option \<Rightarrow> rec list
    \<Rightarrow> goroutine option" where
  "start_slice tw ctx schema records = (case schema of
     Some sch \<Rightarrow>
       (if records \<noteq> [] then map_option (\<lambda>res. case res of
             Inl err \<Rightarrow> \<lparr>g_todo = [], g_out = [], g_err = Some err, g_poll = 0\<rparr>
           | Inr docs \<Rightarrow> goroutine_of records docs (length records)) (columnar_documents tw ctx records sch)
        else Some (goroutine_of records (map r_data records) 0))
   | None \<Rightarrow> Some (goroutine_of records (map r_data records) 0))"

text \<open>One round of the loop of \<open>applyMappingsRowwise\<close> and of \<open>applyMappingsColumnar\<close>.\<close>

definition map_record :: "'f field_mapper \<Rightarrow> (nat \<Rightarrow> go_error option) \<Rightarrow> 'f mapping list \<Rightarrow> goroutine \<Rightarrow> 'f heap
    \<Rightarrow> (goroutine \<times> 'f heap) option" where
  "map_record fm ctx mappings g h = (case g_todo g of
     [] \<Rightarrow> Some (g, h)
   | (i, r, doc) # rest \<Rightarrow>
      (if g_err g \<noteq> None then Some (g, h)
       else case ctx (g_poll g) of
         Some err \<Rightarrow> Some (g\<lparr>g_err := Some err\<rparr>, h)
       | None \<Rightarrow> (case Apply fm doc mappings h of
            None \<Rightarrow> None
          | Some (Inl err, h') \<Rightarrow>
              Some (g\<lparr>g_err := Some (Wrapped (''map record '' @ show_int (int i) @ '': '') err)\<rparr>, h')
          | Some (Inr mapped, h') \<Rightarrow>
              Some (g\<lparr>g_todo := rest, g_out := g_out g @ [r\<lparr>r_data := mapped\<rparr>], g_poll := g_poll g + 1\<rparr>, h'))))"

text \<open>The loop to its end: it takes at most one round for each record.\<close>

fun map_rounds :: "'f field_mapper \<Rightarrow> (nat \<Rightarrow> go_error option) \<Rightarrow> 'f mapping list \<Rightarrow> nat \<Rightarrow> goroutine \<Rightarrow> 'f heap
    \<Rightarrow> (goroutine \<times> 'f heap) option" where
  "map_rounds fm ctx mappings 0 g h = Some (g, h)"
| "map_rounds fm ctx mappings (Suc n) g h =
    Option.bind (map_record fm ctx mappings g h) (\<lambda>(g', h'). map_rounds fm ctx mappings n g' h')"

definition run_goroutine :: "'f field_mapper \<Rightarrow> (nat \<Rightarrow> go_error option) \<Rightarrow> 'f mapping list \<Rightarrow> goroutine \<Rightarrow> 'f heap
    \<Rightarrow> (goroutine \<times> 'f heap) option" where
  "run_goroutine fm ctx mappings g h = map_rounds fm ctx mappings (length (g_todo g)) g h"

definition slice_result :: "goroutine \<Rightarrow> rec list result" where
  "slice_result g = (case g_err g of Some err \<Rightarrow> Inl err | None \<Rightarrow> Inr (g_out g))"

definition applyMappingsSlice :: "'f transform_worker \<Rightarrow> (nat \<Rightarrow> go_error option) \<Rightarrow> 'f mapping list
    \<Rightarrow> arrow_schema option \<Rightarrow> rec list \<Rightarrow> 'f heap \<Rightarrow> (rec list result \<times> 'f heap) option" where
  "applyMappingsSlice tw ctx mappings schema records h =
    Option.bind (start_slice tw ctx schema records) (\<lambda>g.
      map_option (\<lambda>(g', h'). (slice_result g', h')) (run_goroutine (tw_mapper tw) ctx mappings g h))"

section \<open>Slices in parallel\<close>

definition chunk_size :: "int \<Rightarrow> int \<Rightarrow> int" where
  "chunk_size n concurrency = (let c = n sdiv concurrency in if c < 1 then 1 else c)"

definition chunks_of :: "int \<Rightarrow> rec list \<Rightarrow> rec list list" where
  "chunks_of chunkSize records =
    (let n = int (length records); numChunks = (n + chunkSize - 1) sdiv chunkSize
     in map (\<lambda>i. let start = int i * chunkSize; end = (if start + chunkSize > n then n else start + chunkSize)
                 in slice records (nat start) (nat end)) [0..<nat numChunks])"

text \<open>\<open>sched\<close> names the goroutine that takes its next record; those left over finish in order.\<close>

fun run_schedule :: "'f field_mapper \<Rightarrow> (nat \<Rightarrow> nat \<Rightarrow> go_error option) \<Rightarrow> 'f mapping list \<Rightarrow> nat list \<Rightarrow> goroutine list
    \<Rightarrow> 'f heap \<Rightarrow> (goroutine list \<times> 'f heap) option" where
  "run_schedule fm ctx mappings [] gs h = Some (gs, h)"
| "run_schedule fm ctx mappings (k # sched) gs h =
    (if k < length gs
     then Option.bind (map_record fm (ctx k) mappings (gs ! k) h)
       (\<lambda>(g', h'). run_schedule fm ctx mappings sched (gs[k := g']) h')
     else run_schedule fm ctx mappings sched gs h)"

fun finish_all :: "'f field_mapper \<Rightarrow> (nat \<Rightarrow> nat \<Rightarrow> go_error option) \<Rightarrow> 'f mapping list \<Rightarrow> nat \<Rightarrow> goroutine list
    \<Rightarrow> 'f heap \<Rightarrow> (goroutine list \<times> 'f heap) option" where
  "finish_all fm ctx mappings k [] h = Some ([], h)"
| "finish_all fm ctx mappings k (g # gs) h =
    Option.bind (run_goroutine fm (ctx k) mappings g h) (\<lambda>(g', h').
      map_option (\<lambda>(gs', h''). (g' # gs', h'')) (finish_all fm ctx mappings (Suc k) gs h'))"

text \<open>The results in the order of the slices; the first error wins.\<close>

fun combine_results :: "rec list result list \<Rightarrow> rec list result" where
  "combine_results [] = Inr []"
| "combine_results (Inl err # rs) = Inl err"
| "combine_results (Inr recs # rs) = (case combine_results rs of Inl err \<Rightarrow> Inl err | Inr rest \<Rightarrow> Inr (recs @ rest))"

fun start_all :: "'f transform_worker \<Rightarrow> (nat \<Rightarrow> nat \<Rightarrow> go_error option) \<Rightarrow> arrow_schema option \<Rightarrow> nat \<Rightarrow> rec list list
    \<Rightarrow> goroutine list option" where
  "start_all tw ctx schema k [] = Some []"
| "start_all tw ctx schema k (c # cs) = Option.bind (start_slice tw (ctx k) schema c) (\<lambda>g.
     map_option (\<lambda>gs. g # gs) (start_all tw ctx schema (Suc k) cs))"

definition applyMappingsParallel :: "'f transform_worker \<Rightarrow> (nat \<Rightarrow> nat \<Rightarrow> go_error option) \<Rightarrow> nat list \<Rightarrow> 'f mapping list
    \<Rightarrow> arrow_schema option \<Rightarrow> rec list \<Rightarrow> 'f heap \<Rightarrow> (rec list result \<times> 'f heap) option" where
  "applyMappingsParallel tw ctx sched mappings schema records h =
    (let n = int (length records) in
     if n = 0 then Some (Inr [], h)
     else if tw_concurrency tw \<le> 1 \<or> n < tw_concurrency tw * 2
     then applyMappingsSlice tw (ctx 0) mappings schema records h
     else Option.bind (start_all tw ctx schema 0 (chunks_of (chunk_size n (tw_concurrency tw)) records)) (\<lambda>gs.
       Option.bind (run_schedule (tw_mapper tw) ctx mappings sched gs h) (\<lambda>(gs', h').
       map_option (\<lambda>(gs'', h''). (combine_results (map slice_result gs''), h''))
         (finish_all (tw_mapper tw) ctx mappings 0 gs' h'))))"

definition transform_ProcessBatch :: "'f transform_worker \<Rightarrow> (nat \<Rightarrow> nat \<Rightarrow> go_error option) \<Rightarrow> nat list \<Rightarrow> rec list
    \<Rightarrow> 'f mapping list \<Rightarrow> arrow_schema option \<Rightarrow> 'f heap \<Rightarrow> (rec list result \<times> 'f transform_worker \<times> 'f heap) option" where
  "transform_ProcessBatch tw ctx sched records mappings schema h =
    (if records = [] then Some (Inr records, tw, h)
     else Option.bind (case tw_dedup tw of
         None \<Rightarrow> Some (records, tw)
       | Some d \<Rightarrow> map_option (\<lambda>(us, d'). (us, tw\<lparr>tw_dedup := Some d'\<rparr>)) (deduplicateRecords d records)) (\<lambda>(deduped, tw').
       if mappings = [] then Some (Inr deduped, tw', h)
       else map_option (\<lambda>(res, h'). (case res of
             Inl err \<Rightarrow> Inl (Wrapped ''apply mappings: '' err)
           | Inr recs \<Rightarrow> Inr recs, tw', h')) (applyMappingsParallel tw' ctx sched mappings schema deduped h)))"

section \<open>The heap between two records\<close>









section \<open>Schedules\<close>



















section \<open>Slices\<close>



















section \<open>Properties\<close>





end
