(* ===== verification/Coerce.thy ===== *)
theory Coerce
  imports Transform Values
begin

text \<open>
  The type coercion activity of \<open>internal/orchestration/activities/transform_activities.go\<close>:
  \<open>CoerceTypesActivity\<close> rewrites the fields of a record that a mapping gives a target type. Go ranges over
  the map of these fields in an order of its own: \<open>order i\<close> is the order for the \<open>i\<close>th record. \<open>jerr\<close> and
  \<open>merr\<close> are the errors of \<open>encoding/json\<close>.
\<close>

section \<open>Coercing a value\<close>








section \<open>The activity\<close>








section \<open>Fields\<close>










section \<open>What the activity does, whatever the order\<close>







section \<open>Properties\<close>















end
