(* ===== verification/Calendar.thy ===== *)
theory Calendar
  imports Prelude
begin

text \<open>
  What the program uses of package time: the Gregorian calendar, time zones, and \<open>time.Date\<close>. A day is
  numbered from 1 January of the year 1, an instant counts the seconds from 1970. A location is the offset
  of its first zone and the instants at which the offset changes.
\<close>

section \<open>Dates\<close>

definition leap_year :: "int \<Rightarrow> bool" where
  "leap_year y \<longleftrightarrow> 4 dvd y \<and> (\<not> 100 dvd y \<or> 400 dvd y)"

definition year_start :: "int \<Rightarrow> int" where
  "year_start y = 365 * (y - 1) + (y - 1) div 4 - (y - 1) div 100 + (y - 1) div 400"

definition year_of :: "int \<Rightarrow> int" where
  "year_of d = (let y = 400 * d div 146097 + 1 in if year_start (y + 1) \<le> d then y + 1 else y)"

definition month_lengths :: "int \<Rightarrow> int list" where
  "month_lengths y = [31, if leap_year y then 29 else 28, 31, 30, 31, 30, 31, 31, 30, 31, 30, 31]"

fun month_day :: "int list \<Rightarrow> int \<Rightarrow> int \<Rightarrow> int \<times> int" where
  "month_day [] m d = (m, d + 1)"
| "month_day (l # ls) m d = (if d < l then (m, d + 1) else month_day ls (m + 1) (d - l))"

definition civil :: "int \<Rightarrow> int \<times> int \<times> int" where
  "civil d = (let y = year_of d in (y, month_day (month_lengths y) 1 (d - year_start y)))"

definition month_of :: "int \<Rightarrow> int" where
  "month_of d = fst (snd (civil d))"

definition day_of :: "int \<Rightarrow> int" where
  "day_of d = snd (snd (civil d))"

text \<open>Sunday is 0.\<close>

definition weekday :: "int \<Rightarrow> int" where
  "weekday d = (d + 1) mod 7"

text \<open>The day of a date whose month or day may be out of range.\<close>

definition days_of :: "int \<Rightarrow> int \<Rightarrow> int \<Rightarrow> int" where
  "days_of y m d =
    (let y' = y + (m - 1) div 12
     in year_start y' + sum_list (take (nat ((m - 1) mod 12)) (month_lengths y')) + d - 1)"

section \<open>Zones\<close>

record location =
  zone_offset :: int
  zone_changes :: "(int \<times> int) list"

fun find_zone :: "(int \<times> int) list \<Rightarrow> int \<Rightarrow> int option \<Rightarrow> int \<Rightarrow> int \<times> int option \<times> int option" where
  "find_zone [] offset start s = (offset, start, None)"
| "find_zone ((at, offset') # cs) offset start s =
    (if s < at then (offset, start, Some at) else find_zone cs offset' (Some at) s)"

definition zone_at :: "location \<Rightarrow> int \<Rightarrow> int \<times> int option \<times> int option" where
  "zone_at loc s = find_zone (zone_changes loc) (zone_offset loc) None s"

definition UTC :: location where
  "UTC = \<lparr>zone_offset = 0, zone_changes = []\<rparr>"

definition wall :: "location \<Rightarrow> int \<Rightarrow> int" where
  "wall loc s = s + fst (zone_at loc s)"

definition unix_day :: int where
  "unix_day = 719162"

definition day_at :: "location \<Rightarrow> int \<Rightarrow> int" where
  "day_at loc s = wall loc s div 86400 + unix_day"

definition hour_at :: "location \<Rightarrow> int \<Rightarrow> int" where
  "hour_at loc s = wall loc s mod 86400 div 3600"

definition minute_at :: "location \<Rightarrow> int \<Rightarrow> int" where
  "minute_at loc s = wall loc s mod 3600 div 60"

text \<open>\<open>time.Date(y, m, d, h, 0, 0, 0, loc)\<close>: the offset of the wall clock time read as an instant, or the offset then.\<close>

definition go_date :: "location \<Rightarrow> int \<Rightarrow> int \<Rightarrow> int \<Rightarrow> int \<Rightarrow> int" where
  "go_date loc y m d h =
    (let unix = (days_of y m d - unix_day) * 86400 + h * 3600
     in case zone_at loc unix of (offset, start, end) \<Rightarrow>
       if offset = 0 then unix
       else let utc = unix - offset
            in if (case start of None \<Rightarrow> False | Some a \<Rightarrow> utc < a) \<or> (case end of None \<Rightarrow> False | Some b \<Rightarrow> b \<le> utc)
               then unix - fst (zone_at loc utc) else utc)"

section \<open>Dates and days correspond\<close>

lemma year_length: "year_start (y + 1) = year_start y + sum_list (month_lengths y)"
proof -
  have d: "y div n = (y - 1) div n + (if n dvd y then 1 else 0)" if "0 < n" for n :: int
  proof -
    have y: "y = n * (y div n) + y mod n" "0 \<le> y mod n" "y mod n < n" using that by simp_all
    show ?thesis
    proof (cases "y mod n = 0")
      case True
      have "(y - 1) div n = y div n - 1"
        by (rule int_div_pos_eq [of _ _ _ "n - 1"]) (use y True that in \<open>simp_all add: right_diff_distrib\<close>)
      then show ?thesis using True by (simp add: dvd_eq_mod_eq_0)
    next
      case False
      have "(y - 1) div n = y div n"
        by (rule int_div_pos_eq [of _ _ _ "y mod n - 1"]) (use y False that in linarith)+
      then show ?thesis using False by (simp add: dvd_eq_mod_eq_0)
    qed
  qed
  define one now before where "one n = (if n dvd y then 1 else 0 :: int)" and "now n = y div n" and "before n = (y - 1) div n"
    for n
  have "year_start (y + 1) = 365 * y + now 4 - now 100 + now 400" by (simp add: year_start_def now_def)
  moreover have "year_start y = 365 * (y - 1) + before 4 - before 100 + before 400" by (simp only: year_start_def before_def)
  moreover have "now n = before n + one n" if "0 < n" for n using d [OF that] by (simp only: one_def now_def before_def)
  ultimately have start: "year_start (y + 1) = year_start y + 365 + one 4 - one 100 + one 400" by simp
  have count: "(b \<Longrightarrow> a) \<Longrightarrow> (c \<Longrightarrow> b) \<Longrightarrow>
      (if a then 1 else 0) - (if b then 1 else 0) + (if c then 1 else 0) = (if a \<and> (\<not> b \<or> c) then 1 else 0 :: int)"
    for a b c by auto
  have "4 dvd y" if "100 dvd y" by (rule dvd_trans [OF _ that]) simp
  moreover have "100 dvd y" if "400 dvd y" by (rule dvd_trans [OF _ that]) simp
  ultimately have "one 4 - one 100 + one 400 = (if leap_year y then 1 else 0)"
    unfolding one_def leap_year_def by (rule count)
  then show ?thesis using start by (cases "leap_year y") (simp_all add: month_lengths_def)
qed

lemma year_length_cases: "sum_list (month_lengths y) = 365 \<or> sum_list (month_lengths y) = 366"
  by (simp add: month_lengths_def)

lemma year_start_mono: "y \<le> z \<Longrightarrow> year_start y \<le> year_start z"
proof (induction z rule: int_ge_induct)
  case (step z)
  then show ?case using year_length [of z] year_length_cases [of z] by auto
qed simp

lemma div_bounds: "(0 :: int) < n \<Longrightarrow> n * (a div n) \<le> a \<and> a < n * (a div n) + n"
  using pos_mod_sign [of n a] pos_mod_bound [of n a] mult_div_mod_eq [of n a] by linarith

lemma year_of_bounds: "year_start (year_of d) \<le> d \<and> d < year_start (year_of d + 1)"
proof -
  define k where "k = 400 * d div 146097"
  have k: "146097 * k \<le> 400 * d" "400 * d < 146097 * (k + 1)"
    using div_bounds [of 146097 "400 * d"] unfolding k_def by (simp_all add: algebra_simps)
  have start: "year_start (k + 1) \<le> d" "d \<le> year_start (k + 2) + 1"
    using k div_bounds [of 4 k] div_bounds [of 100 k] div_bounds [of 400 k]
      div_bounds [of 4 "1 + k"] div_bounds [of 100 "1 + k"] div_bounds [of 400 "1 + k"]
    unfolding year_start_def by simp_all
  have "d < year_start (k + 3)"
    using start(2) year_length [of "k + 2"] year_length_cases [of "k + 2"] by (simp add: add.commute) linarith
  with start show ?thesis by (auto simp: year_of_def Let_def add.assoc simp flip: k_def)
qed

lemma year_of_eq: "year_start y \<le> d \<Longrightarrow> d < year_start (y + 1) \<Longrightarrow> year_of d = y"
  using year_of_bounds [of d] year_start_mono [of "y + 1" "year_of d"] year_start_mono [of "year_of d + 1" y]
  by (cases "year_of d < y"; cases "y < year_of d") auto

lemma month_day_spec:
  "\<forall>l \<in> set ls. 0 < l \<Longrightarrow> 0 \<le> d \<Longrightarrow> d < sum_list ls \<Longrightarrow>
    \<exists>i < length ls. month_day ls m d = (m + int i, d - sum_list (take i ls) + 1)
      \<and> 0 \<le> d - sum_list (take i ls) \<and> d - sum_list (take i ls) < ls ! i"
proof (induction ls m d rule: month_day.induct)
  case (2 l ls m d)
  show ?case
  proof (cases "d < l")
    case True
    then show ?thesis using 2(3) by (intro exI [of _ 0]) simp
  next
    case False
    then obtain i where "i < length ls" "month_day ls (m + 1) (d - l) = (m + 1 + int i, d - l - sum_list (take i ls) + 1)"
      "0 \<le> d - l - sum_list (take i ls)" "d - l - sum_list (take i ls) < ls ! i" using 2 by auto
    then show ?thesis using False by (intro exI [of _ "Suc i"]) (simp add: algebra_simps)
  qed
qed simp

lemma month_day_at:
  "i < length ls \<Longrightarrow> \<forall>l \<in> set ls. 0 < l \<Longrightarrow> 0 \<le> k \<Longrightarrow> k < ls ! i \<Longrightarrow>
    month_day ls m (sum_list (take i ls) + k) = (m + int i, k + 1)"
proof (induction ls arbitrary: i m)
  case (Cons l ls)
  show ?case
  proof (cases i)
    case (Suc j)
    have "0 \<le> sum_list (take j ls)"
      using Cons.prems(2) by (intro sum_list_nonneg) (auto dest!: in_set_takeD intro: less_imp_le)
    with Cons Suc show ?thesis by (simp add: add.assoc)
  qed (use Cons in simp)
qed simp

lemma months: "length (month_lengths y) = 12" "\<forall>l \<in> set (month_lengths y). 0 < l"
  by (simp_all add: month_lengths_def)

lemma civil_days:
  assumes "civil d = (y, m, k)"
  shows "days_of y m k = d \<and> 1 \<le> m \<and> m \<le> 12 \<and> 1 \<le> k \<and> k \<le> month_lengths y ! nat (m - 1)"
proof -
  have y: "y = year_of d" "month_day (month_lengths y) 1 (d - year_start y) = (m, k)"
    using assms unfolding civil_def Let_def by blast+
  have b: "0 \<le> d - year_start y" "d - year_start y < sum_list (month_lengths y)"
    using year_of_bounds [of d] year_length [of y] y(1) by simp_all
  from month_day_spec [OF months(2) b, of 1] y(2) months(1) obtain i where
    "i < 12" "m = 1 + int i" "k = d - year_start y - sum_list (take i (month_lengths y)) + 1"
    "0 \<le> d - year_start y - sum_list (take i (month_lengths y))"
    "d - year_start y - sum_list (take i (month_lengths y)) < month_lengths y ! i" by auto
  then show ?thesis by (simp add: days_of_def Let_def)
qed

lemma sum_take_le: "i < length ls \<Longrightarrow> \<forall>l \<in> set ls. (0 :: int) < l \<Longrightarrow> sum_list (take i ls) + ls ! i \<le> sum_list ls"
proof (induction ls arbitrary: i)
  case (Cons l ls)
  have "0 \<le> sum_list ls" using Cons.prems(2) by (intro sum_list_nonneg) auto
  with Cons show ?case by (cases i) auto
qed simp

lemma days_civil:
  assumes "1 \<le> m" "m \<le> 12" "1 \<le> k" "k \<le> month_lengths y ! nat (m - 1)"
  shows "civil (days_of y m k) = (y, m, k)"
proof -
  let ?i = "nat (m - 1)"
  let ?before = "sum_list (take ?i (month_lengths y))"
  have i: "?i < length (month_lengths y)" using assms months(1) by simp
  have d: "days_of y m k = year_start y + ?before + k - 1" using assms by (simp add: days_of_def Let_def)
  have "0 \<le> ?before" using months(2) [of y] by (intro sum_list_nonneg) (auto dest!: in_set_takeD intro: less_imp_le)
  then have "year_of (days_of y m k) = y"
    using sum_take_le [OF i months(2)] assms year_length [of y] by (intro year_of_eq) (simp_all add: d)
  moreover have "month_day (month_lengths y) 1 (?before + (k - 1)) = (1 + int ?i, k - 1 + 1)"
    by (rule month_day_at [OF i months(2)]) (use assms in simp_all)
  moreover have "days_of y m k - year_start y = ?before + (k - 1)" by (simp add: d)
  ultimately show ?thesis using assms by (simp add: civil_def Let_def)
qed

text \<open>The next month starts right after the last day of the month.\<close>

lemma next_month:
  assumes "1 \<le> m" "m \<le> 12"
  shows "days_of y (m + 1) 1 = days_of y m (month_lengths y ! nat (m - 1)) + 1"
proof (cases "m = 12")
  case True
  then show ?thesis using year_length [of y] by (simp add: days_of_def month_lengths_def)
next
  case False
  have "nat m = Suc (nat (m - 1))" "nat (m - 1) < length (month_lengths y)" using assms months(1) by simp_all
  then show ?thesis using assms False by (simp add: days_of_def Let_def take_Suc_conv_app_nth)
qed

lemma days_of_add: "days_of y m (d + k) = days_of y m d + k"
  by (simp add: days_of_def Let_def)

lemma same_month:
  assumes "civil d = (y, m, k)" "d \<le> e" "e < days_of y (m + 1) 1"
  shows "month_of e = m"
proof -
  have c: "days_of y m k = d" "1 \<le> m" "m \<le> 12" "1 \<le> k" using civil_days [OF assms(1)] by auto
  have e: "e = days_of y m (k + (e - d))" using c(1) by (simp add: days_of_add)
  have "k + (e - d) \<le> month_lengths y ! nat (m - 1)"
    using assms(3) next_month [OF c(2,3)] days_of_add [of y m "month_lengths y ! nat (m - 1)" "k + (e - d) - month_lengths y ! nat (m - 1)"] e
    by simp
  then have "civil e = (y, m, k + (e - d))" using c assms(2) by (subst e, intro days_civil) auto
  then show ?thesis by (simp add: month_of_def)
qed

end
