(* ===== verification/Scheduler.thy ===== *)
theory Scheduler
  imports Calendar Values Errors
begin

text \<open>
  The scheduler of \<open>internal/controlplane/scheduler/scheduler.go\<close>: cron expressions, the search for the next
  time that matches, the registry of scheduled syncs, and the loop that starts the syncs that are due. The
  Temporal client, the repository and the database of time zones are arguments; a time of the scheduler is in
  nanoseconds.
\<close>

section \<open>Cron expressions\<close>

text \<open>
  The measure of \<open>step_values\<close>: a step of almost \<open>2 ^ 63\<close> makes the sum overflow: the next value is far below the range, and the one after it
  lower than the value before.
\<close>

definition steps_left :: "int \<times> int \<times> int \<Rightarrow> nat" where
  "steps_left p = (case p of (v, hi, step) \<Rightarrow>
     if hi < v then 0
     else if step + 59 < 2 ^ 63 then nat (60 - v)
     else if - (2 ^ 62) \<le> v then 2 * nat (v + 2 ^ 63) else 2 * nat (v + step + 2 ^ 63) + 1)"

lemma wrap64_over: "2 ^ 63 \<le> x \<Longrightarrow> x < 2 ^ 64 \<Longrightarrow> wrap64 x = x - 2 ^ 64"
proof -
  assume x: "2 ^ 63 \<le> x" "x < 2 ^ 64"
  have "(x + 2 ^ 63) mod 2 ^ 64 = (x - 2 ^ 63 + 2 ^ 64) mod 2 ^ 64" by (simp add: add.commute)
  also have "\<dots> = (x - 2 ^ 63) mod 2 ^ 64" by (rule mod_add_self2)
  also have "\<dots> = x - 2 ^ 63" using x by (intro mod_pos_pos_trivial) simp_all
  finally show ?thesis by (simp add: wrap64_def)
qed

text \<open>\<open>for v := start; v <= max; v += step\<close>, for a positive step and a maximum of at most 59, as the callers have them.\<close>

function step_values :: "int \<Rightarrow> int \<Rightarrow> int \<Rightarrow> int list" where
  "step_values v hi step = (if hi < v \<or> step \<le> 0 \<or> 59 < hi \<or> \<not> in_i64 v \<or> \<not> in_i64 step then []
     else v # step_values (wrap64 (v + step)) hi step)"
  by pat_completeness auto

termination
proof (relation "measure steps_left")
  fix v hi step :: int
  assume "\<not> (hi < v \<or> step \<le> 0 \<or> 59 < hi \<or> \<not> in_i64 v \<or> \<not> in_i64 step)"
  then have b: "v \<le> hi" "0 < step" "hi \<le> 59" "- (2 ^ 63) \<le> v" "step < 2 ^ 63" by (auto simp: in_i64_def)
  have w: "wrap64 (v + step) = (if v + step < 2 ^ 63 then v + step else v + step - 2 ^ 64)"
    using b wrap64_over [of "v + step"] wrap64_id [of "v + step"] by (auto simp: in_i64_def)
  show "((wrap64 (v + step), hi, step), v, hi, step) \<in> measure steps_left"
  proof (cases "step + 59 < 2 ^ 63")
    case True
    then show ?thesis using b w by (auto simp: steps_left_def)
  next
    case big: False
    show ?thesis
    proof (cases "v + step < 2 ^ 63")
      case True
      then show ?thesis using b w big by (auto simp: steps_left_def)
    next
      case False
      then show ?thesis using b w big by (auto simp: steps_left_def)
    qed
  qed
qed simp


declare step_values.simps [simp del]

text \<open>\<open>strings.SplitN(s, c, 2)\<close>.\<close>

definition cut_at :: "char \<Rightarrow> string \<Rightarrow> string \<times> string option" where
  "cut_at c s = (takeWhile (\<lambda>x. x \<noteq> c) s,
     case dropWhile (\<lambda>x. x \<noteq> c) s of [] \<Rightarrow> None | _ # rest \<Rightarrow> Some rest)"

text \<open>\<open>strings.Fields\<close>.\<close>

fun words_from :: "string \<Rightarrow> string \<Rightarrow> string list" where
  "words_from cur [] = (if cur = [] then [] else [rev cur])"
| "words_from cur (c # cs) =
    (if is_space c then (if cur = [] then words_from [] cs else rev cur # words_from [] cs)
     else words_from (c # cur) cs)"

definition range_part :: "string \<Rightarrow> string \<Rightarrow> int \<Rightarrow> int \<Rightarrow> int \<Rightarrow> int list result" where
  "range_part from to lo hi step = (case parse_int64 from of
     Inl _ \<Rightarrow> Inl (NewError (''invalid range start '' @ quoted from))
   | Inr start \<Rightarrow> (case parse_int64 to of
       Inl _ \<Rightarrow> Inl (NewError (''invalid range end '' @ quoted to))
     | Inr end \<Rightarrow>
        if start < lo \<or> hi < end \<or> end < start
        then Inl (NewError (''range '' @ show_int start @ ''-'' @ show_int end @ '' out of bounds ['' @ show_int lo
               @ '', '' @ show_int hi @ '']''))
        else Inr (step_values start end step)))"

definition part_values :: "string \<Rightarrow> int \<Rightarrow> int \<Rightarrow> int \<Rightarrow> int list result" where
  "part_values part lo hi step =
    (if part = ''*'' then Inr (step_values lo hi step)
     else if CHR ''-'' \<in> set part
     then range_part (fst (cut_at (CHR ''-'') part)) (the (snd (cut_at (CHR ''-'') part))) lo hi step
     else case parse_int64 part of
       Inl _ \<Rightarrow> Inl (NewError (''invalid value '' @ quoted part))
     | Inr v \<Rightarrow> if v < lo \<or> hi < v
          then Inl (NewError (''value '' @ show_int v @ '' out of bounds ['' @ show_int lo @ '', '' @ show_int hi @ '']''))
          else Inr [v])"

definition parsePart :: "string \<Rightarrow> int \<Rightarrow> int \<Rightarrow> int list result" where
  "parsePart part lo hi = (case cut_at (CHR ''/'') part of
     (whole, None) \<Rightarrow> part_values whole lo hi 1
   | (base, Some st) \<Rightarrow> (case parse_int64 st of
        Inl _ \<Rightarrow> Inl (NewError (''invalid step '' @ quoted st))
      | Inr step \<Rightarrow> if step \<le> 0 then Inl (NewError (''invalid step '' @ quoted st))
          else part_values base lo hi step))"

fun parse_parts :: "string list \<Rightarrow> int \<Rightarrow> int \<Rightarrow> int list result" where
  "parse_parts [] lo hi = Inr []"
| "parse_parts (p # ps) lo hi = (case parsePart p lo hi of
     Inl err \<Rightarrow> Inl err
   | Inr vs \<Rightarrow> map_sum id (\<lambda>ws. vs @ ws) (parse_parts ps lo hi))"

definition parseSingleField :: "string \<Rightarrow> int \<Rightarrow> int \<Rightarrow> int list result" where
  "parseSingleField field lo hi = parse_parts (go_split field '','') lo hi"

definition cron_ranges :: "(int \<times> int) list" where
  "cron_ranges = [(0, 59), (0, 23), (1, 31), (1, 12), (0, 6)]"

fun parse_fields :: "int \<Rightarrow> string list \<Rightarrow> (int \<times> int) list \<Rightarrow> int list list result" where
  "parse_fields i [] ranges = Inr []"
| "parse_fields i (f # fs) [] = Inr []"
| "parse_fields i (f # fs) ((lo, hi) # ranges) = (case parseSingleField f lo hi of
     Inl err \<Rightarrow> Inl (Wrapped (''field '' @ show_int i @ '' ('' @ quoted f @ ''): '') err)
   | Inr vs \<Rightarrow> map_sum id (\<lambda>r. vs # r) (parse_fields (i + 1) fs ranges))"

text \<open>The five fields: minute, hour, day of the month, month, day of the week.\<close>

definition parseCronExpr :: "string \<Rightarrow> int list list result" where
  "parseCronExpr expr =
    (let cron = words_from [] (trim_space expr)
     in if length cron \<noteq> 5
        then Inl (NewError (''expected 5 fields, got '' @ show_int (int (length cron))))
        else parse_fields 0 cron cron_ranges)"

section \<open>The next time\<close>

definition nanos :: int where
  "nanos = 1000000000"

definition minute_ok :: "int list list \<Rightarrow> location \<Rightarrow> int \<Rightarrow> bool" where
  "minute_ok cron loc t \<longleftrightarrow> month_of (day_at loc t) \<in> set (cron ! 3) \<and> day_of (day_at loc t) \<in> set (cron ! 2)
     \<and> weekday (day_at loc t) \<in> set (cron ! 4) \<and> hour_at loc t \<in> set (cron ! 1) \<and> minute_at loc t \<in> set (cron ! 0)"

text \<open>Where the search goes on after a minute that does not match.\<close>

definition skip_from :: "int list list \<Rightarrow> location \<Rightarrow> int \<Rightarrow> int" where
  "skip_from cron loc t = (case civil (day_at loc t) of (y, m, d) \<Rightarrow>
     if m \<notin> set (cron ! 3) then go_date loc y (m + 1) 1 0
     else if d \<notin> set (cron ! 2) \<or> weekday (day_at loc t) \<notin> set (cron ! 4) then go_date loc y m (d + 1) 0
     else if hour_at loc t \<notin> set (cron ! 1) then go_date loc y m d (hour_at loc t + 1)
     else t + 60)"

fun search_minute :: "int list list \<Rightarrow> location \<Rightarrow> nat \<Rightarrow> int \<Rightarrow> int option" where
  "search_minute cron loc 0 t = None"
| "search_minute cron loc (Suc n) t =
    (if minute_ok cron loc t then Some t else search_minute cron loc n (skip_from cron loc t))"

definition maxIterations :: nat where
  "maxIterations = 4 * 366 * 24 * 60"

definition NextCronTime :: "string \<Rightarrow> location \<Rightarrow> time \<Rightarrow> time result" where
  "NextCronTime expr loc after = (case parseCronExpr expr of
     Inl err \<Rightarrow> Inl err
   | Inr cron \<Rightarrow> (case search_minute cron loc maxIterations ((after div (60 * nanos) + 1) * 60) of
       Some t \<Rightarrow> Inr (t * nanos)
     | None \<Rightarrow> Inl (NewError (''no matching time found within 4 years for expression '' @ quoted expr))))"

section \<open>Scheduled syncs\<close>

record cron_schedule =
  sk_expression :: string
  sk_timezone :: string
  sk_next :: time
  sk_last :: time

record scheduled_sync =
  sd_sync :: string
  sd_tenant :: string
  sd_schedule :: cron_schedule

record sync_record =
  sr_sync :: string
  sr_tenant :: string
  sr_cron :: string
  sr_status :: string

record scheduler =
  sr_schedules :: "string \<rightharpoonup> scheduled_sync"
  sr_stopped :: bool

text \<open>The zero \<open>time.Time\<close>, 1 January of the year 1.\<close>

definition zero_time :: time where
  "zero_time = - unix_day * 86400 * nanos"

definition NewScheduler :: scheduler where
  "NewScheduler = \<lparr>sr_schedules = Map.empty, sr_stopped = False\<rparr>"

definition Stop :: "scheduler \<Rightarrow> scheduler" where
  "Stop s = s\<lparr>sr_stopped := True\<rparr>"

definition ScheduleSync :: "(string \<Rightarrow> location result) \<Rightarrow> time \<Rightarrow> string \<Rightarrow> cron_schedule \<Rightarrow> scheduler
    \<Rightarrow> unit result \<times> scheduler" where
  "ScheduleSync zones now syncID schedule s =
    (if syncID = [] then (Inl (NewError ''syncID is required''), s)
     else if sk_expression schedule = [] then (Inl (NewError ''cron expression is required''), s)
     else case (if sk_timezone schedule = [] then Inr UTC else zones (sk_timezone schedule)) of
       Inl err \<Rightarrow> (Inl (Wrapped (''invalid timezone '' @ quoted (sk_timezone schedule) @ '': '') err), s)
     | Inr loc \<Rightarrow> (case NextCronTime (sk_expression schedule) loc now of
         Inl err \<Rightarrow> (Inl (Wrapped (''invalid cron expression '' @ quoted (sk_expression schedule) @ '': '') err), s)
       | Inr next \<Rightarrow>
          (let schedule' = schedule\<lparr>sk_next := next\<rparr>
           in (Inr (), s\<lparr>sr_schedules := (sr_schedules s)(syncID \<mapsto> (case sr_schedules s syncID of
                Some existing \<Rightarrow> existing\<lparr>sd_schedule := schedule'\<rparr>
              | None \<Rightarrow> \<lparr>sd_sync = syncID, sd_tenant = [], sd_schedule = schedule'\<rparr>))\<rparr>))))"

definition UnscheduleSync :: "string \<Rightarrow> scheduler \<Rightarrow> unit result \<times> scheduler" where
  "UnscheduleSync syncID s = (case sr_schedules s syncID of
     None \<Rightarrow> (Inr (), s)
   | Some _ \<Rightarrow> (Inr (), s\<lparr>sr_schedules := (sr_schedules s)(syncID := None)\<rparr>))"

text \<open>\<open>ids\<close> is the order in which Go ranges over the map.\<close>

definition ListScheduled :: "string list \<Rightarrow> scheduler \<Rightarrow> scheduled_sync list" where
  "ListScheduled ids s = sort_key (\<lambda>ss. sk_next (sd_schedule ss)) (List.map_filter (sr_schedules s) ids)"

text \<open>
  The client of Temporal takes the sync, the tenant and the expression; \<open>None\<close> stands for no client.
\<close>

type_synonym 'w temporal = "(string \<Rightarrow> string \<Rightarrow> string \<Rightarrow> 'w \<Rightarrow> go_error option \<times> 'w) option"

definition after_start :: "(string \<Rightarrow> location result) \<Rightarrow> time \<Rightarrow> cron_schedule \<Rightarrow> cron_schedule" where
  "after_start zones now schedule =
    (let loc = (if sk_timezone schedule = [] then UTC
                else case zones (sk_timezone schedule) of Inl _ \<Rightarrow> UTC | Inr l \<Rightarrow> l)
     in case NextCronTime (sk_expression schedule) loc now of
       Inl _ \<Rightarrow> schedule\<lparr>sk_last := now\<rparr>
     | Inr next \<Rightarrow> schedule\<lparr>sk_last := now, sk_next := next\<rparr>)"

definition fire_sync :: "(string \<Rightarrow> location result) \<Rightarrow> 'w temporal \<Rightarrow> time \<Rightarrow> string \<Rightarrow> scheduler \<times> 'w \<Rightarrow> scheduler \<times> 'w" where
  "fire_sync zones temporal now syncID = (\<lambda>(s, w). case sr_schedules s syncID of
     None \<Rightarrow> (s, w)
   | Some ss \<Rightarrow>
      if now < sk_next (sd_schedule ss) then (s, w)
      else case (case temporal of None \<Rightarrow> (None, w)
                 | Some start \<Rightarrow> start syncID (sd_tenant ss) (sk_expression (sd_schedule ss)) w) of
        (Some err, w') \<Rightarrow> (s, w')
      | (None, w') \<Rightarrow> (s\<lparr>sr_schedules := (sr_schedules s)(syncID \<mapsto>
          ss\<lparr>sd_schedule := after_start zones now (sd_schedule ss)\<rparr>)\<rparr>, w'))"

definition fireDueSyncs :: "(string \<Rightarrow> location result) \<Rightarrow> 'w temporal \<Rightarrow> time \<Rightarrow> string list \<Rightarrow> scheduler \<Rightarrow> 'w
    \<Rightarrow> scheduler \<times> 'w" where
  "fireDueSyncs zones temporal now ids s w = fold (fire_sync zones temporal now) ids (s, w)"

text \<open>\<open>here\<close> is the zone of the server.\<close>

fun load_syncs :: "location \<Rightarrow> time \<Rightarrow> sync_record list \<Rightarrow> scheduler \<Rightarrow> scheduler" where
  "load_syncs here now [] s = s"
| "load_syncs here now (r # rs) s =
    (if sr_cron r = [] \<or> sr_status r \<noteq> ''active'' then load_syncs here now rs s
     else case NextCronTime (sr_cron r) here now of
       Inl _ \<Rightarrow> load_syncs here now rs s
     | Inr next \<Rightarrow> load_syncs here now rs (s\<lparr>sr_schedules := (sr_schedules s)(sr_sync r \<mapsto>
         \<lparr>sd_sync = sr_sync r, sd_tenant = sr_tenant r,
           sd_schedule = \<lparr>sk_expression = sr_cron r, sk_timezone = [], sk_next = next, sk_last = zero_time\<rparr>\<rparr>)\<rparr>))"

definition loadFromRepo :: "location \<Rightarrow> time \<Rightarrow> sync_record list result \<Rightarrow> scheduler \<Rightarrow> unit result \<times> scheduler" where
  "loadFromRepo here now syncs s = (case syncs of
     Inl err \<Rightarrow> (Inl (Wrapped ''failed to load scheduled syncs: '' err), s)
   | Inr rs \<Rightarrow> (Inr (), load_syncs here now rs s))"

text \<open>What the loop waits for: a tick, with the order of the map, or the end.\<close>

datatype sched_event = Tick time "string list" | Cancelled | StopSignal

fun sched_loop :: "(string \<Rightarrow> location result) \<Rightarrow> 'w temporal \<Rightarrow> sched_event list \<Rightarrow> scheduler \<Rightarrow> 'w \<Rightarrow> scheduler \<times> 'w" where
  "sched_loop zones temporal (Tick now ids # es) s w =
    (case fireDueSyncs zones temporal now ids s w of (s', w') \<Rightarrow> sched_loop zones temporal es s' w')"
| "sched_loop zones temporal _ s w = (s, w)"

definition Start :: "(string \<Rightarrow> location result) \<Rightarrow> location \<Rightarrow> 'w temporal \<Rightarrow> time \<Rightarrow> sync_record list result option
    \<Rightarrow> sched_event list \<Rightarrow> scheduler \<Rightarrow> 'w \<Rightarrow> scheduler \<times> 'w" where
  "Start zones here temporal now repo es s w = (case repo of
     None \<Rightarrow> sched_loop zones temporal es s w
   | Some syncs \<Rightarrow> sched_loop zones temporal es (snd (loadFromRepo here now syncs s)) w)"

section \<open>The search finds the first time\<close>

lemma fixed_zone:
  assumes "zone_changes loc = []"
  shows "wall loc t = t + zone_offset loc"
    and "go_date loc y m d h = (days_of y m d - unix_day) * 86400 + h * 3600 - zone_offset loc"
  using assms by (simp_all add: wall_def go_date_def zone_at_def Let_def)

lemma day_window: "b * 86400 \<le> w \<Longrightarrow> w < c * 86400 \<Longrightarrow> b \<le> w div 86400 \<and> w div 86400 < c" for w :: int
  using div_bounds [of 86400 w] by auto

lemma skip_from_misses:
  assumes z: "zone_changes loc = []" "60 dvd zone_offset loc" and t: "60 dvd t" "\<not> minute_ok cron loc t"
  shows "t < skip_from cron loc t \<and> 60 dvd skip_from cron loc t
     \<and> (\<forall>u. t \<le> u \<and> u < skip_from cron loc t \<and> 60 dvd u \<longrightarrow> \<not> minute_ok cron loc u)"
proof -
  let ?off = "zone_offset loc"
  define w where "w = t + ?off"
  define D where "D = day_at loc t"
  obtain y m d where c: "civil D = (y, m, d)" by (metis prod_cases3)
  have D: "D = w div 86400 + unix_day" by (simp add: D_def w_def day_at_def fixed_zone [OF z(1)])
  have md: "month_of D = m" "day_of D = d" using c by (simp_all add: month_of_def day_of_def)
  have days: "days_of y m d = D" "1 \<le> m" "m \<le> 12" "1 \<le> d" "d \<le> month_lengths y ! nat (m - 1)"
    using civil_days [OF c] by auto
  have at: "day_at loc u = (u + ?off) div 86400 + unix_day" "hour_at loc u = (u + ?off) mod 86400 div 3600" for u
    by (simp_all add: day_at_def hour_at_def fixed_zone [OF z(1)])
  have w: "86400 * (w div 86400) \<le> w" "w < 86400 * (w div 86400) + 86400" using div_bounds [of 86400 w] by simp_all
  have sixty: "60 dvd (k * 86400 + h * 3600 - ?off)" for k h :: int
  proof -
    have "60 dvd k * 86400" "60 dvd h * 3600" by (simp_all add: dvd_mult)
    then show ?thesis using z(2) by (intro dvd_diff dvd_add)
  qed
  consider (month) "m \<notin> set (cron ! 3)"
    | (day) "m \<in> set (cron ! 3)" "d \<notin> set (cron ! 2) \<or> weekday D \<notin> set (cron ! 4)"
    | (hour) "m \<in> set (cron ! 3)" "d \<in> set (cron ! 2)" "weekday D \<in> set (cron ! 4)" "hour_at loc t \<notin> set (cron ! 1)"
    | (minute) "m \<in> set (cron ! 3)" "d \<in> set (cron ! 2)" "weekday D \<in> set (cron ! 4)" "hour_at loc t \<in> set (cron ! 1)"
    by blast
  then show ?thesis
  proof cases
    case month
    let ?next = "days_of y (m + 1) 1"
    have n: "D < ?next" using next_month [OF days(2,3)] days_of_add [of y m d "month_lengths y ! nat (m - 1) - d"] days by simp
    have s: "skip_from cron loc t = (?next - unix_day) * 86400 - ?off"
      using month c by (simp add: skip_from_def fixed_zone [OF z(1)] flip: D_def)
    have "\<not> minute_ok cron loc u" if "t \<le> u" "u < skip_from cron loc t" for u
    proof -
      have "w div 86400 \<le> (u + ?off) div 86400 \<and> (u + ?off) div 86400 < ?next - unix_day"
        by (rule day_window) (use that s w w_def in auto)
      then have "month_of (day_at loc u) = m" by (intro same_month [OF c]) (simp_all add: at D)
      then show ?thesis using month by (simp add: minute_ok_def)
    qed
    moreover have "t < skip_from cron loc t" using n w(2) by (simp add: s D w_def)
    ultimately show ?thesis using sixty [of "?next - unix_day" 0] by (simp add: s)
  next
    case day
    have s: "skip_from cron loc t = (D + 1 - unix_day) * 86400 - ?off"
      using day c days(1) by (simp add: skip_from_def fixed_zone [OF z(1)] days_of_add flip: D_def)
    have "\<not> minute_ok cron loc u" if "t \<le> u" "u < skip_from cron loc t" for u
    proof -
      have "w div 86400 \<le> (u + ?off) div 86400 \<and> (u + ?off) div 86400 < D + 1 - unix_day"
        by (rule day_window) (use that s w w_def in auto)
      then have "day_at loc u = D" by (simp add: at D)
      then show ?thesis using day(2) by (auto simp: minute_ok_def md)
    qed
    moreover have "t < skip_from cron loc t" using w(2) by (simp add: s D w_def)
    ultimately show ?thesis using sixty [of "D + 1 - unix_day" 0] by (simp add: s)
  next
    case hour
    let ?h = "hour_at loc t"
    have h: "?h = w mod 86400 div 3600" by (simp add: at w_def)
    have s: "skip_from cron loc t = (D - unix_day) * 86400 + (?h + 1) * 3600 - ?off"
      using hour c days(1) by (simp add: skip_from_def fixed_zone [OF z(1)] flip: D_def)
    have hb: "3600 * ?h \<le> w mod 86400" "w mod 86400 < 3600 * ?h + 3600" using div_bounds [of 3600 "w mod 86400"] by (simp_all add: h)
    have wm: "w = 86400 * (w div 86400) + w mod 86400" "w mod 86400 < 86400" by simp_all
    have "\<not> minute_ok cron loc u" if "t \<le> u" "u < skip_from cron loc t" for u
    proof -
      let ?v = "u + ?off"
      have v: "w \<le> ?v" "?v < 86400 * (w div 86400) + (?h + 1) * 3600" using that s by (simp_all add: w_def D)
      have "?h \<le> 23" using hb wm(2) by linarith
      then have "w div 86400 \<le> ?v div 86400 \<and> ?v div 86400 < w div 86400 + 1"
        by (intro day_window) (use v w in simp_all)
      then have dv: "?v div 86400 = w div 86400" by simp
      then have vm: "?v mod 86400 = ?v - 86400 * (w div 86400)" by (metis minus_mult_div_eq_mod)
      have wv: "w mod 86400 = w - 86400 * (w div 86400)" by (rule minus_mult_div_eq_mod [symmetric])
      have "?v mod 86400 div 3600 = ?h"
        by (rule int_div_pos_eq [of _ _ _ "?v mod 86400 - 3600 * ?h"]) (use vm v hb wv in simp_all)
      then show ?thesis using hour(4) by (simp add: minute_ok_def at)
    qed
    moreover have "t < skip_from cron loc t"
    proof -
      define q r where "q = w div 86400" and "r = w mod 86400"
      have "w = 86400 * q + r" unfolding q_def r_def by (rule wm(1))
      moreover have "r < 3600 * ?h + 3600" unfolding r_def by (rule hb(2))
      moreover have "skip_from cron loc t = 86400 * q + 3600 * ?h + 3600 - ?off" by (simp add: s D q_def)
      moreover have "t = w - ?off" by (simp add: w_def)
      ultimately show ?thesis by linarith
    qed
    ultimately show ?thesis using sixty [of "D - unix_day" "?h + 1"] by (simp add: s)
  next
    case minute
    have s: "skip_from cron loc t = t + 60"
      using minute c by (simp add: skip_from_def flip: D_def)
    have "u = t" if "t \<le> u" "u < t + 60" "60 dvd u" for u
    proof (rule ccontr)
      assume "u \<noteq> t"
      moreover have "60 dvd u - t" using that(3) t(1) by (rule dvd_diff)
      ultimately have "60 \<le> u - t" using that by (intro zdvd_imp_le) simp_all
      with that show False by simp
    qed
    then show ?thesis using t by (auto simp: s)
  qed
qed

lemma search_minute_spec:
  assumes "zone_changes loc = []" "60 dvd zone_offset loc"
  shows "60 dvd t \<Longrightarrow> (case search_minute cron loc n t of
     Some r \<Rightarrow> t \<le> r \<and> 60 dvd r \<and> minute_ok cron loc r \<and> (\<forall>u. t \<le> u \<and> u < r \<and> 60 dvd u \<longrightarrow> \<not> minute_ok cron loc u)
   | None \<Rightarrow> \<forall>u. t \<le> u \<and> u < t + int n * 60 \<and> 60 dvd u \<longrightarrow> \<not> minute_ok cron loc u)"
proof (induction n arbitrary: t)
  case (Suc n)
  show ?case
  proof (cases "minute_ok cron loc t")
    case False
    note skip = skip_from_misses [OF assms Suc.prems False]
    have "60 dvd skip_from cron loc t - t" using skip Suc.prems by (intro dvd_diff) simp_all
    then have "60 \<le> skip_from cron loc t - t" using skip by (intro zdvd_imp_le) simp_all
    then have "t + 60 \<le> skip_from cron loc t" by simp
    moreover have below: "\<not> minute_ok cron loc u" if "t \<le> u" "u < skip_from cron loc t" "60 dvd u" for u
      using skip that by blast
    moreover note IH = Suc.IH [OF conjunct1 [OF conjunct2 [OF skip]]]
    ultimately show ?thesis
    proof (cases "search_minute cron loc n (skip_from cron loc t)")
      case None
      have "\<not> minute_ok cron loc u" if u: "t \<le> u" "u < t + int (Suc n) * 60" "60 dvd u" for u
        using IH None below u \<open>t + 60 \<le> skip_from cron loc t\<close> by (cases "u < skip_from cron loc t") simp_all
      then show ?thesis using False None by simp
    next
      case (Some r)
      have "\<not> minute_ok cron loc u" if u: "t \<le> u" "u < r" "60 dvd u" for u
        using IH Some below u by (cases "u < skip_from cron loc t") simp_all
      then show ?thesis using False Some IH skip by simp
    qed
  qed (use Suc.prems in auto)
qed auto

lemma NextCronTime_first:
  assumes "parseCronExpr expr = Inr cron" "zone_changes loc = []" "60 dvd zone_offset loc"
  shows "case NextCronTime expr loc after of
     Inr next \<Rightarrow> \<exists>m. next = m * 60 * nanos \<and> after < next \<and> minute_ok cron loc (m * 60)
       \<and> (\<forall>k. after < k * 60 * nanos \<and> k < m \<longrightarrow> \<not> minute_ok cron loc (k * 60))
   | Inl _ \<Rightarrow> \<forall>k. after < k * 60 * nanos \<and> k * 60 * nanos \<le> after + 4 * 366 * 24 * 60 * 60 * nanos
       \<longrightarrow> \<not> minute_ok cron loc (k * 60)"
proof -
  let ?m = "after div (60 * nanos) + 1"
  have m: "after < k * 60 * nanos \<longleftrightarrow> ?m \<le> k" for k
    using div_bounds [of "60 * nanos" after] by (auto simp: nanos_def)
  note spec = search_minute_spec [OF assms(2,3), of "?m * 60" maxIterations cron]
  show ?thesis
  proof (cases "search_minute cron loc maxIterations (?m * 60)")
    case None
    have "\<not> minute_ok cron loc (k * 60)" if "?m \<le> k" "k * 60 * nanos \<le> after + 4 * 366 * 24 * 60 * 60 * nanos" for k
    proof -
      have "k < ?m + 4 * 366 * 24 * 60" using that(2) m [of "k - 4 * 366 * 24 * 60"] by (simp add: algebra_simps)
      then have "k * 60 < ?m * 60 + int maxIterations * 60" by (simp add: maxIterations_def)
      then show ?thesis using spec None that(1) by simp
    qed
    then show ?thesis using None assms(1) by (simp add: NextCronTime_def m)
  next
    case (Some r)
    then obtain j where j: "r = j * 60" "?m \<le> j" "minute_ok cron loc (j * 60)"
      using spec by (auto elim!: dvdE simp: mult.commute)
    have "\<not> minute_ok cron loc (k * 60)" if "?m \<le> k" "k < j" for k using spec Some j that by simp
    then show ?thesis using Some assms(1) j by (auto simp: NextCronTime_def m intro!: exI [of _ j])
  qed
qed

lemma NextCronTime_later:
  assumes "NextCronTime expr loc after = Inr next" "zone_changes loc = []" "60 dvd zone_offset loc"
  shows "after < next"
proof -
  obtain cron where c: "parseCronExpr expr = Inr cron" using assms(1) by (auto simp: NextCronTime_def split: sum.splits)
  show ?thesis using NextCronTime_first [OF c assms(2,3), of after] assms(1) by auto
qed

section \<open>Firing\<close>

text \<open>A client that records what it is asked to start and refuses some syncs.\<close>

type_synonym start_log = "(string \<times> string \<times> string) list"

definition recorder :: "(string \<Rightarrow> go_error option) \<Rightarrow> start_log temporal" where
  "recorder refuse = Some (\<lambda>sid tenant expr w. (refuse sid, w @ [(sid, tenant, expr)]))"

definition due :: "scheduler \<Rightarrow> time \<Rightarrow> string \<Rightarrow> bool" where
  "due s now sid = (case sr_schedules s sid of None \<Rightarrow> False | Some ss \<Rightarrow> sk_next (sd_schedule ss) \<le> now)"

definition start_of :: "scheduler \<Rightarrow> string \<Rightarrow> string \<times> string \<times> string" where
  "start_of s sid = (case sr_schedules s sid of None \<Rightarrow> (sid, [], [])
     | Some ss \<Rightarrow> (sid, sd_tenant ss, sk_expression (sd_schedule ss)))"

definition after_tick :: "(string \<Rightarrow> location result) \<Rightarrow> (string \<Rightarrow> go_error option) \<Rightarrow> time \<Rightarrow> string list \<Rightarrow> scheduler
    \<Rightarrow> string \<rightharpoonup> scheduled_sync" where
  "after_tick zones refuse now ids s sid =
    (if sid \<in> set ids \<and> due s now sid \<and> refuse sid = None
     then map_option (\<lambda>ss. ss\<lparr>sd_schedule := after_start zones now (sd_schedule ss)\<rparr>) (sr_schedules s sid)
     else sr_schedules s sid)"

lemma fire_sync_recorder:
  "fire_sync zones (recorder refuse) now sid (s, w) =
    (if due s now sid
     then (if refuse sid = None then s\<lparr>sr_schedules := (sr_schedules s)(sid := map_option
              (\<lambda>ss. ss\<lparr>sd_schedule := after_start zones now (sd_schedule ss)\<rparr>) (sr_schedules s sid))\<rparr> else s, w @ [start_of s sid])
     else (s, w))"
  by (auto simp: fire_sync_def recorder_def due_def start_of_def split: option.split)

lemma fire_due_recorder:
  "distinct ids \<Longrightarrow> fireDueSyncs zones (recorder refuse) now ids s w =
    (s\<lparr>sr_schedules := after_tick zones refuse now ids s\<rparr>, w @ map (start_of s) (filter (due s now) ids))"
proof (induction ids arbitrary: s w)
  case Nil
  have "after_tick zones refuse now [] s = sr_schedules s" by (simp add: after_tick_def fun_eq_iff)
  then show ?case by (simp add: fireDueSyncs_def)
next
  case (Cons sid ids)
  define s1 where "s1 = fst (fire_sync zones (recorder refuse) now sid (s, w))"
  have other: "sr_schedules s1 x = sr_schedules s x" if "x \<noteq> sid" for x
    using that by (simp add: s1_def fire_sync_recorder)
  then have same: "due s1 now x = due s now x" "start_of s1 x = start_of s x" if "x \<in> set ids" for x
  proof -
    have "x \<noteq> sid" using that Cons.prems by auto
    then show "due s1 now x = due s now x" "start_of s1 x = start_of s x" by (simp_all add: due_def start_of_def other)
  qed
  have log: "map (start_of s1) (filter (due s1 now) ids) = map (start_of s) (filter (due s now) ids)"
    using same by (auto cong: filter_cong)
  have tick: "after_tick zones refuse now ids s1 x = after_tick zones refuse now (sid # ids) s x" for x
    using Cons.prems other [of x] by (cases "x = sid") (auto simp: after_tick_def due_def s1_def fire_sync_recorder)
  have "fireDueSyncs zones (recorder refuse) now (sid # ids) s w
      = fireDueSyncs zones (recorder refuse) now ids s1 (snd (fire_sync zones (recorder refuse) now sid (s, w)))"
    by (simp add: fireDueSyncs_def s1_def)
  also have "\<dots> = (s1\<lparr>sr_schedules := after_tick zones refuse now ids s1\<rparr>,
      snd (fire_sync zones (recorder refuse) now sid (s, w)) @ map (start_of s1) (filter (due s1 now) ids))"
    by (rule Cons.IH) (use Cons.prems in simp)
  also have "\<dots> = (s\<lparr>sr_schedules := after_tick zones refuse now (sid # ids) s\<rparr>,
      w @ map (start_of s) (filter (due s now) (sid # ids)))"
  proof -
    have "after_tick zones refuse now ids s1 = after_tick zones refuse now (sid # ids) s" using tick by blast
    moreover have "s1\<lparr>sr_schedules := m\<rparr> = s\<lparr>sr_schedules := m\<rparr>" for m by (simp add: s1_def fire_sync_recorder)
    ultimately show ?thesis unfolding log by (simp add: fire_sync_recorder)
  qed
  finally show ?case .
qed

section \<open>A gap in the wall clock\<close>









definition every_minute :: "int list list" where
  "every_minute = [[0..59], [0..23], [1..31], [1..12], [0..6]]"

lemma every_minute_parsed: "parseCronExpr ''* * * * *'' = Inr every_minute"
  by code_simp

lemma maxIterations_pos: "0 < maxIterations"
  by (simp add: maxIterations_def)

section \<open>Properties\<close>




definition one_sync :: "string \<Rightarrow> string \<Rightarrow> time \<Rightarrow> scheduler" where
  "one_sync expr zone next = \<lparr>sr_schedules = [''s'' \<mapsto> \<lparr>sd_sync = ''s'', sd_tenant = ''t'',
     sd_schedule = \<lparr>sk_expression = expr, sk_timezone = zone, sk_next = next, sk_last = 0\<rparr>\<rparr>], sr_stopped = False\<rparr>"


text \<open>
  A started sync waits for its next time. When a tick has started a sync whose expression has a next time, in a
  zone whose offset does not change, no tick before that time starts it again.
\<close>

theorem started_sync_waits:
  assumes "distinct ids" "sid \<in> set ids" "due s now sid" "refuse sid = None"
    and "sr_schedules s sid = Some ss" "sk_timezone (sd_schedule ss) = []"
    and "NextCronTime (sk_expression (sd_schedule ss)) UTC now = Inr next"
    and "fireDueSyncs zones (recorder refuse) now ids s w = (s', w')"
    and "distinct ids'" "now' < next"
  shows "now < next \<and> (\<forall>s2 w2. fireDueSyncs zones (recorder refuse) now' ids' s' w' = (s2, w2) \<longrightarrow>
     (\<exists>starts. w2 = w' @ starts \<and> sid \<notin> fst ` set starts) \<and> sr_schedules s2 sid = sr_schedules s' sid)"
proof -
  have later: "now < next" by (rule NextCronTime_later [OF assms(7)]) (simp_all add: UTC_def)
  have s': "s' = s\<lparr>sr_schedules := after_tick zones refuse now ids s\<rparr>"
    using assms(8) by (simp add: fire_due_recorder [OF assms(1)])
  have idle: "\<not> due s' now' sid"
    using assms(2-7,10) by (simp add: due_def s' after_tick_def after_start_def Let_def)
  have "fst (start_of s' x) = x" for x by (simp add: start_of_def split: option.split)
  then have "sid \<notin> fst ` set (map (start_of s') (filter (due s' now') ids'))"
    using idle by (auto simp: image_iff)
  then show ?thesis using later idle by (auto simp: fire_due_recorder [OF assms(9)] after_tick_def)
qed

theorem started_sync_waits_witness:
  "\<exists>s' w'. fireDueSyncs (\<lambda>_. Inr UTC) (recorder (\<lambda>_. None)) 100 [''s''] (one_sync ''* * * * *'' [] 100) [] = (s', w')
     \<and> (\<forall>s2 w2. fireDueSyncs (\<lambda>_. Inr UTC) (recorder (\<lambda>_. None)) 200 [''s''] s' w' = (s2, w2) \<longrightarrow>
          (\<exists>starts. w2 = w' @ starts \<and> ''s'' \<notin> fst ` set starts))"
proof -
  obtain s' w' where f: "fireDueSyncs (\<lambda>_. Inr UTC) (recorder (\<lambda>_. None)) 100 [''s''] (one_sync ''* * * * *'' [] 100) [] = (s', w')"
    by (cases "fireDueSyncs (\<lambda>_. Inr UTC) (recorder (\<lambda>_. None)) 100 [''s''] (one_sync ''* * * * *'' [] 100) []")
  obtain ss where ss: "sr_schedules (one_sync ''* * * * *'' [] 100) ''s'' = Some ss" "sk_timezone (sd_schedule ss) = []"
      "sk_expression (sd_schedule ss) = ''* * * * *''" "due (one_sync ''* * * * *'' [] 100) 100 ''s''"
    by (simp add: one_sync_def due_def)
  have "search_minute every_minute UTC maxIterations 60 = Some 60"
  proof -
    have "minute_ok every_minute UTC 60" by code_simp
    then have "search_minute every_minute UTC (Suc n) 60 = Some 60" for n by simp
    then show ?thesis by (metis Suc_pred maxIterations_pos)
  qed
  then have "NextCronTime ''* * * * *'' UTC 100 = Inr (60 * nanos)"
    by (simp add: NextCronTime_def every_minute_parsed nanos_def)
  from started_sync_waits [OF _ _ ss(4) _ ss(1,2) this [folded ss(3)] f, of "[''s'']" 200] f
  show ?thesis by (auto simp: nanos_def)
qed





lemma wrapping_steps: "step_values 5 5 (2 ^ 63 - 1) = [5, 4 - 2 ^ 63, 3, 2 - 2 ^ 63, 1, - (2 ^ 63), - 1]"
  by (simp add: step_values.simps [of _ 5] in_i64_def wrap64_def)

lemma long_step_read: "parse_int64 ''9223372036854775807'' = Inr (2 ^ 63 - 1)"
  by (simp add: parse_int64_def is_digit_def in_i64_def)

text \<open>
  A step just below \<open>2 ^ 63\<close> wraps around: the field \<open>5-5/9223372036854775807\<close> is accepted and matches the minutes 1
  and 3 besides 5.
\<close>

theorem cron_step_wraps:
  "map_sum id (\<lambda>vs. filter (\<lambda>v. 0 \<le> v) vs) (parseSingleField ''5-5/9223372036854775807'' 0 59) = Inr [5, 3, 1]"
proof -
  have "go_split ''5-5/9223372036854775807'' '','' = [''5-5/9223372036854775807'']" by code_simp
  moreover have "cut_at (CHR ''/'') ''5-5/9223372036854775807'' = (''5-5'', Some ''9223372036854775807'')" by code_simp
  moreover have "part_values ''5-5'' 0 59 (2 ^ 63 - 1) = Inr (step_values 5 5 (2 ^ 63 - 1))"
  proof -
    have "cut_at (CHR ''-'') ''5-5'' = (''5'', Some ''5'')" "parse_int64 ''5'' = Inr 5" by code_simp+
    then show ?thesis by (simp add: part_values_def range_part_def)
  qed
  ultimately show ?thesis
    by (simp add: parseSingleField_def parsePart_def long_step_read wrapping_steps [simplified])
qed

end
