(* ===== verification/Encryption.thy ===== *)
theory Encryption
  imports Values "HOL-Library.AList"
begin

text \<open>
  Encryption of fields and secrets: \<open>internal/security/encryption/encryption.go\<close> and \<open>keyring.go\<close>, and the
  file store of \<open>internal/security/secrets/manager.go\<close>. HKDF, AES-GCM and the random source are arguments, a byte
  string is a \<open>string\<close>; what is relied on is that opening what was sealed with the same nonce and additional
  data gives the plaintext back.
\<close>

section \<open>Ciphers\<close>

text \<open>\<open>cipher.AEAD\<close>: nonce, text, additional data.\<close>

record aead =
  NonceSize :: nat
  Overhead :: nat
  Seal :: "string \<Rightarrow> string \<Rightarrow> string \<Rightarrow> string"
  Unseal :: "string \<Rightarrow> string \<Rightarrow> string \<Rightarrow> string result"

text \<open>\<open>cr_hkdf material salt\<close> is the 32 byte key, \<open>cr_gcm key\<close> the cipher, \<open>cr_rand n\<close> the next \<open>n\<close> random bytes.\<close>

record crypto =
  cr_hkdf :: "string \<Rightarrow> string \<Rightarrow> string result"
  cr_sha256 :: "string \<Rightarrow> string"
  cr_aes :: "string \<Rightarrow> go_error option"
  cr_gcm :: "string \<Rightarrow> aead result"
  cr_rand :: "nat \<Rightarrow> string result"

definition default_salt :: string where
  "default_salt = ''flowforge-hkdf-salt-v1''"

definition SetHKDFSalt :: "string \<Rightarrow> string \<Rightarrow> string" where
  "SetHKDFSalt salt current = (if salt \<noteq> [] then salt else current)"

definition deriveKey :: "crypto \<Rightarrow> string \<Rightarrow> string \<Rightarrow> string result" where
  "deriveKey c salt material = (case cr_hkdf c material salt of
     Inl err \<Rightarrow> Inl (Wrapped ''deriving key with HKDF: '' err) | Inr k \<Rightarrow> Inr k)"

definition newGCM :: "crypto \<Rightarrow> string \<Rightarrow> aead result" where
  "newGCM c key = (case cr_aes c key of
     Some err \<Rightarrow> Inl (Wrapped ''creating AES cipher: '' err)
   | None \<Rightarrow> (case cr_gcm c key of Inl err \<Rightarrow> Inl (Wrapped ''creating GCM: '' err) | Inr g \<Rightarrow> Inr g))"

definition decryptWithGCM :: "aead \<Rightarrow> string \<Rightarrow> string result" where
  "decryptWithGCM g ciphertext =
    (if length ciphertext < NonceSize g + Overhead g then Inl (NewError ''ciphertext too short'')
     else case Unseal g (take (NonceSize g) ciphertext) (drop (NonceSize g) ciphertext) [] of
       Inl err \<Rightarrow> Inl (Wrapped ''decryption failed: '' err) | Inr p \<Rightarrow> Inr p)"

section \<open>The encryptor\<close>

record encryptor =
  en_gcm :: aead
  en_key :: string

definition keyed :: "crypto \<Rightarrow> string \<Rightarrow> string \<Rightarrow> encryptor result" where
  "keyed c salt key = (case deriveKey c salt key of
     Inl err \<Rightarrow> Inl err
   | Inr k \<Rightarrow> (case newGCM c k of Inl err \<Rightarrow> Inl err | Inr g \<Rightarrow> Inr \<lparr>en_gcm = g, en_key = k\<rparr>))"

definition NewEncryptor :: "crypto \<Rightarrow> string \<Rightarrow> string \<Rightarrow> encryptor result" where
  "NewEncryptor c salt key =
    (if key = [] then Inl (NewError ''encryption key must not be empty'') else keyed c salt key)"

definition Encrypt :: "crypto \<Rightarrow> encryptor \<Rightarrow> string \<Rightarrow> string result" where
  "Encrypt c e plaintext = (case cr_rand c (NonceSize (en_gcm e)) of
     Inl err \<Rightarrow> Inl (Wrapped ''generating nonce: '' err)
   | Inr nonce \<Rightarrow> Inr (nonce @ Seal (en_gcm e) nonce plaintext []))"

definition Decrypt :: "encryptor \<Rightarrow> string \<Rightarrow> string result" where
  "Decrypt e ciphertext = decryptWithGCM (en_gcm e) ciphertext"

definition EncryptJSON :: "crypto \<Rightarrow> 'f go_lib \<Rightarrow> ('f go_value \<Rightarrow> go_error) \<Rightarrow> encryptor \<Rightarrow> 'f go_value \<Rightarrow> string result" where
  "EncryptJSON c lib merr e data = (case encode_value lib data of
     None \<Rightarrow> Inl (Wrapped ''marshaling data for encryption: '' (merr data))
   | Some plaintext \<Rightarrow> Encrypt c e plaintext)"

text \<open>The target is a \<open>map[string]interface{}\<close>.\<close>

definition DecryptJSON :: "'f go_lib \<Rightarrow> (string \<Rightarrow> go_error) \<Rightarrow> encryptor \<Rightarrow> string \<Rightarrow> (string \<times> 'f go_value) list result" where
  "DecryptJSON lib uerr e ciphertext = (case Decrypt e ciphertext of
     Inl err \<Rightarrow> Inl err
   | Inr plaintext \<Rightarrow> (case decode_object lib plaintext of
        None \<Rightarrow> Inl (Wrapped ''unmarshaling decrypted data: '' (uerr plaintext))
      | Some data \<Rightarrow> Inr data))"

definition RotateKey :: "crypto \<Rightarrow> string \<Rightarrow> string \<Rightarrow> encryptor \<Rightarrow> unit result \<times> encryptor" where
  "RotateKey c salt newKey e =
    (if newKey = [] then (Inl (NewError ''new encryption key must not be empty''), e)
     else case keyed c salt newKey of Inl err \<Rightarrow> (Inl err, e) | Inr e' \<Rightarrow> (Inr (), e'))"

section \<open>The keyring\<close>

record keyring =
  kr_keys :: "(int \<times> aead) list"
  kr_raw :: "(int \<times> string) list"
  kr_current :: int

definition versionTagSize :: nat where
  "versionTagSize = 4"

definition NewKeyring :: keyring where
  "NewKeyring = \<lparr>kr_keys = [], kr_raw = [], kr_current = 0\<rparr>"

definition AddKey :: "crypto \<Rightarrow> string \<Rightarrow> int \<Rightarrow> string \<Rightarrow> keyring \<Rightarrow> unit result \<times> keyring" where
  "AddKey c salt version key kr =
    (if version < 1 then (Inl (NewError ''key version must be >= 1''), kr)
     else if key = [] then (Inl (NewError ''key material must not be empty''), kr)
     else case deriveKey c salt key of
       Inl err \<Rightarrow> (Inl (Wrapped (''deriving key for version '' @ show_int version @ '': '') err), kr)
     | Inr k \<Rightarrow> (case newGCM c k of
         Inl err \<Rightarrow> (Inl (Wrapped (''creating cipher for version '' @ show_int version @ '': '') err), kr)
       | Inr g \<Rightarrow> (Inr (), \<lparr>kr_keys = AList.update version g (kr_keys kr), kr_raw = AList.update version k (kr_raw kr),
            kr_current = (if kr_current kr < version then version else kr_current kr)\<rparr>)))"

text \<open>\<open>binary.BigEndian\<close> on four bytes; the conversion to \<open>uint32\<close> keeps the low 32 bits.\<close>

definition put_uint32 :: "int \<Rightarrow> string" where
  "put_uint32 v = map (\<lambda>k. char_byte (nat (v div 256 ^ k mod 256))) [3, 2, 1, 0]"

definition get_uint32 :: "string \<Rightarrow> int" where
  "get_uint32 s = foldl (\<lambda>acc c. acc * 256 + int (byte c)) 0 (take 4 s)"

definition keyring_Encrypt :: "crypto \<Rightarrow> keyring \<Rightarrow> string \<Rightarrow> string result" where
  "keyring_Encrypt c kr plaintext =
    (if kr_current kr = 0 then Inl (NewError ''keyring has no keys'')
     else case map_of (kr_keys kr) (kr_current kr) of
       None \<Rightarrow> Inl (NewError (''current key version '' @ show_int (kr_current kr) @ '' not found''))
     | Some g \<Rightarrow> (case cr_rand c (NonceSize g) of
         Inl err \<Rightarrow> Inl (Wrapped ''generating nonce: '' err)
       | Inr nonce \<Rightarrow>
          (let tag = put_uint32 (kr_current kr) in Inr (tag @ nonce @ Seal g nonce plaintext tag))))"

definition keyring_Decrypt :: "keyring \<Rightarrow> string \<Rightarrow> string result" where
  "keyring_Decrypt kr ciphertext =
    (if length ciphertext < versionTagSize then Inl (NewError ''ciphertext too short to contain version tag'')
     else let versionTag = take versionTagSize ciphertext; version = get_uint32 versionTag;
              payload = drop versionTagSize ciphertext
     in case map_of (kr_keys kr) version of
       None \<Rightarrow> Inl (NewError (''no key found for version '' @ show_int version))
     | Some g \<Rightarrow>
        if length payload < NonceSize g + Overhead g then Inl (NewError ''ciphertext too short'')
        else case Unseal g (take (NonceSize g) payload) (drop (NonceSize g) payload) versionTag of
          Inl err \<Rightarrow> Inl (Wrapped (''decryption with key version '' @ show_int version @ '' failed: '') err)
        | Inr p \<Rightarrow> Inr p)"

definition ListKeyVersions :: "keyring \<Rightarrow> int list" where
  "ListKeyVersions kr = sort (map fst (kr_keys kr))"

definition CurrentVersion :: "keyring \<Rightarrow> int" where
  "CurrentVersion kr = kr_current kr"

definition RemoveKey :: "int \<Rightarrow> keyring \<Rightarrow> unit result \<times> keyring" where
  "RemoveKey version kr =
    (if version = kr_current kr then (Inl (NewError ''cannot remove the current encryption key''), kr)
     else case map_of (kr_keys kr) version of
       None \<Rightarrow> (Inl (NewError (''key version '' @ show_int version @ '' not found'')), kr)
     | Some _ \<Rightarrow> (Inr (), kr\<lparr>kr_keys := AList.delete version (kr_keys kr), kr_raw := AList.delete version (kr_raw kr)\<rparr>))"

section \<open>What the keyring relies on and keeps\<close>

definition sound_aead :: "aead \<Rightarrow> bool" where
  "sound_aead g \<longleftrightarrow> (\<forall>n p ad. length n = NonceSize g \<longrightarrow>
     Unseal g n (Seal g n p ad) ad = Inr p \<and> length (Seal g n p ad) = length p + Overhead g)"

definition sound_crypto :: "crypto \<Rightarrow> bool" where
  "sound_crypto c \<longleftrightarrow> (\<forall>k g. cr_gcm c k = Inr g \<longrightarrow> sound_aead g) \<and> (\<forall>n s. cr_rand c n = Inr s \<longrightarrow> length s = n)"

datatype key_change = KAdd (op_version: int) string | KRemove (op_version: int)

fun keyring_op :: "crypto \<Rightarrow> string \<Rightarrow> key_change \<Rightarrow> keyring \<Rightarrow> keyring" where
  "keyring_op c salt (KAdd v key) kr = snd (AddKey c salt v key kr)"
| "keyring_op c salt (KRemove v) kr = snd (RemoveKey v kr)"

definition keyring_ops :: "crypto \<Rightarrow> string \<Rightarrow> key_change list \<Rightarrow> keyring \<Rightarrow> keyring" where
  "keyring_ops c salt ops kr = fold (keyring_op c salt) ops kr"

definition keyring_inv :: "crypto \<Rightarrow> keyring \<Rightarrow> bool" where
  "keyring_inv c kr \<longleftrightarrow> distinct (map fst (kr_keys kr)) \<and> map fst (kr_raw kr) = map fst (kr_keys kr)
     \<and> (\<forall>v g. map_of (kr_keys kr) v = Some g \<longrightarrow> 1 \<le> v \<and> v \<le> kr_current kr \<and> (\<exists>k. cr_gcm c k = Inr g))
     \<and> (kr_current kr \<noteq> 0 \<longrightarrow> 0 < kr_current kr \<and> map_of (kr_keys kr) (kr_current kr) \<noteq> None)"

lemma newGCM_gcm: "newGCM c k = Inr g \<Longrightarrow> cr_gcm c k = Inr g"
  by (auto simp: newGCM_def split: option.splits sum.splits)

lemma AddKey_cases:
  obtains err where "AddKey c salt v key kr = (Inl err, kr)"
  | g k where "1 \<le> v" "cr_gcm c k = Inr g" "AddKey c salt v key kr = (Inr (),
      \<lparr>kr_keys = AList.update v g (kr_keys kr), kr_raw = AList.update v k (kr_raw kr),
       kr_current = (if kr_current kr < v then v else kr_current kr)\<rparr>)"
proof -
  have "(\<exists>err. AddKey c salt v key kr = (Inl err, kr)) \<or> (\<exists>g k. 1 \<le> v \<and> cr_gcm c k = Inr g \<and> AddKey c salt v key kr = (Inr (),
      \<lparr>kr_keys = AList.update v g (kr_keys kr), kr_raw = AList.update v k (kr_raw kr),
       kr_current = (if kr_current kr < v then v else kr_current kr)\<rparr>))"
  proof (cases "v < 1 \<or> key = []")
    case False
    then show ?thesis
    proof (cases "deriveKey c salt key")
      case (Inr k)
      then show ?thesis using False newGCM_gcm [of c k] by (cases "newGCM c k") (auto simp: AddKey_def)
    qed (use False in \<open>simp add: AddKey_def\<close>)
  qed (auto simp: AddKey_def)
  then show thesis using that by blast
qed

lemma keyring_op_inv: "keyring_inv c kr \<Longrightarrow> keyring_inv c (keyring_op c salt op kr)"
proof (cases op)
  case (KAdd v key)
  assume inv: "keyring_inv c kr"
  show ?thesis
  proof (cases rule: AddKey_cases [of c salt v key kr])
    case (2 g k)
    then show ?thesis using inv KAdd
      by (auto simp: keyring_inv_def distinct_update update_conv' update_keys split: if_splits)
        (force+)?
  qed (use inv KAdd in simp)
next
  case (KRemove v)
  assume inv: "keyring_inv c kr"
  consider "keyring_op c salt op kr = kr"
    | "v \<noteq> kr_current kr" "keyring_op c salt op kr
        = kr\<lparr>kr_keys := AList.delete v (kr_keys kr), kr_raw := AList.delete v (kr_raw kr)\<rparr>"
    using KRemove that by (cases "v = kr_current kr"; cases "map_of (kr_keys kr) v") (simp_all add: RemoveKey_def)
  then show ?thesis
  proof cases
    case 2
    define ks rs where "ks = AList.delete v (kr_keys kr)" and "rs = AList.delete v (kr_raw kr)"
    have at: "map_of ks = (map_of (kr_keys kr))(v := None)" by (simp add: ks_def delete_conv' fun_eq_iff)
    have "distinct (map fst ks)" "map fst rs = map fst ks"
      using inv by (simp_all add: ks_def rs_def keyring_inv_def delete_keys distinct_removeAll)
    then show ?thesis
      using inv 2(1) unfolding 2(2) keyring_inv_def ks_def [symmetric] rs_def [symmetric]
      by (intro conjI) (simp_all add: at del: map_of_eq_Some_iff)
  qed (use inv in simp)
qed

lemma keyring_ops_inv: "keyring_inv c kr \<Longrightarrow> keyring_inv c (keyring_ops c salt ops kr)"
  unfolding keyring_ops_def by (induction ops arbitrary: kr) (auto intro: keyring_op_inv)

lemma NewKeyring_inv: "keyring_inv c NewKeyring"
  by (simp add: keyring_inv_def NewKeyring_def)

lemma keyring_op_other: "op_version op \<noteq> v \<Longrightarrow> map_of (kr_keys (keyring_op c salt op kr)) v = map_of (kr_keys kr) v"
proof (cases op)
  case (KAdd w key)
  assume "op_version op \<noteq> v"
  with KAdd show ?thesis
    by (cases rule: AddKey_cases [of c salt w key kr]) (auto simp: update_conv')
next
  case (KRemove w)
  assume "op_version op \<noteq> v"
  with KRemove show ?thesis by (auto simp: RemoveKey_def delete_conv' split: option.splits)
qed

lemma keyring_ops_other:
  "\<forall>op \<in> set ops. op_version op \<noteq> v \<Longrightarrow> map_of (kr_keys (keyring_ops c salt ops kr)) v = map_of (kr_keys kr) v"
  unfolding keyring_ops_def by (induction ops arbitrary: kr) (auto simp: keyring_op_other)

lemma byte_of_mod: "int (byte (char_byte (nat (a mod 256)))) = a mod 256"
proof -
  have "nat (a mod 256) < 256" by (simp add: nat_less_iff)
  then show ?thesis by (simp add: byte_def char_byte_def)
qed

lemma digits_256:
  "x = 256 * a + p \<Longrightarrow> a = 256 * b + q \<Longrightarrow> b = 256 * c + r \<Longrightarrow> x = ((c * 256 + r) * 256 + q) * 256 + (p :: int)"
  by simp

lemma four_bytes: "(v :: int) mod 4294967296
    = ((v div 16777216 mod 256 * 256 + v div 65536 mod 256) * 256 + v div 256 mod 256) * 256 + v mod 256"
proof (rule digits_256)
  show "v mod 4294967296 = 256 * (v div 256 mod 16777216) + v mod 256" using zmod_zmult2_eq [of 16777216 v 256] by simp
  show "v div 256 mod 16777216 = 256 * (v div 65536 mod 65536) + v div 256 mod 256"
    using zmod_zmult2_eq [of 65536 "v div 256" 256] zdiv_zmult2_eq [of 256 v 256] by simp
  show "v div 65536 mod 65536 = 256 * (v div 16777216 mod 256) + v div 65536 mod 256"
    using zmod_zmult2_eq [of 256 "v div 65536" 256] zdiv_zmult2_eq [of 256 v 65536] by simp
qed

lemma get_put_uint32: "get_uint32 (put_uint32 v) = v mod 2 ^ 32"
  unfolding get_uint32_def put_uint32_def by (simp add: byte_of_mod four_bytes)

lemma length_put_uint32 [simp]: "length (put_uint32 v) = 4"
  by (simp add: put_uint32_def)

section \<open>Properties\<close>

lemma keyring_Decrypt_tagged:
  assumes "sound_aead g" "map_of (kr_keys kr) (v mod 2 ^ 32) = Some g" "length nonce = NonceSize g"
  shows "keyring_Decrypt kr (put_uint32 v @ nonce @ Seal g nonce p (put_uint32 v)) = Inr p"
  using assms by (simp add: keyring_Decrypt_def versionTagSize_def get_put_uint32 [simplified] sound_aead_def)

text \<open>
  C30: What the keyring encrypts it can decrypt after any rotation. If \<open>Encrypt\<close> returned a ciphertext under the current
  version \<open>v\<close>, a version that fits into the four bytes of the tag, then after any further calls of \<open>AddKey\<close> and
  \<open>RemoveKey\<close> for other versions \<open>Decrypt\<close> gives the plaintext back, whichever version is current by then.
\<close>

theorem keyring_roundtrip:
  assumes "sound_crypto c" "keyring_inv c kr" "kr_current kr < 2 ^ 32"
    and "keyring_Encrypt c kr plaintext = Inr ciphertext"
    and "\<forall>op \<in> set later. op_version op \<noteq> kr_current kr"
  shows "keyring_Decrypt (keyring_ops c salt later kr) ciphertext = Inr plaintext"
proof -
  let ?v = "kr_current kr"
  obtain g nonce where g: "?v \<noteq> 0" "map_of (kr_keys kr) ?v = Some g" "cr_rand c (NonceSize g) = Inr nonce"
      "ciphertext = put_uint32 ?v @ nonce @ Seal g nonce plaintext (put_uint32 ?v)"
    using assms(4) by (auto simp: keyring_Encrypt_def Let_def split: if_splits option.splits sum.splits)
  from assms(2) g(1,2) have "0 < ?v" "\<exists>k. cr_gcm c k = Inr g"
    unfolding keyring_inv_def by blast+
  then have "?v mod 2 ^ 32 = ?v" "sound_aead g" "length nonce = NonceSize g"
    using assms(1,3) g(3) by (auto simp: sound_crypto_def)
  moreover have "map_of (kr_keys (keyring_ops c salt later kr)) ?v = Some g"
    using keyring_ops_other [OF assms(5)] g(2) by simp
  ultimately show ?thesis using keyring_Decrypt_tagged [of g _ ?v nonce plaintext] g(4) by simp
qed

text \<open>A cipher that appends a byte, with two bytes of nonce.\<close>

definition toy_crypto :: crypto where
  "toy_crypto = \<lparr>cr_hkdf = (\<lambda>m s. Inr m), cr_sha256 = (\<lambda>k. k), cr_aes = (\<lambda>k. None),
     cr_gcm = (\<lambda>k. Inr \<lparr>NonceSize = 2, Overhead = 1, Seal = (\<lambda>n p ad. p @ ''#''), Unseal = (\<lambda>n d ad. Inr (butlast d))\<rparr>),
     cr_rand = (\<lambda>n. Inr (replicate n (CHR ''r'')))\<rparr>"

lemma toy_sound: "sound_crypto toy_crypto"
  by (auto simp: sound_crypto_def sound_aead_def toy_crypto_def)

theorem keyring_roundtrip_witness:
  "let kr = keyring_ops toy_crypto [] [KAdd 1 ''a'', KAdd 3 ''b''] NewKeyring;
       kr' = keyring_ops toy_crypto [] [KAdd 7 ''c'', KRemove 1] kr
   in \<exists>ct. keyring_Encrypt toy_crypto kr ''secret'' = Inr ct \<and> keyring_Decrypt kr' ct = Inr ''secret''"
proof -
  let ?kr = "keyring_ops toy_crypto [] [KAdd 1 ''a'', KAdd 3 ''b''] NewKeyring"
  have inv: "keyring_inv toy_crypto ?kr" by (rule keyring_ops_inv [OF NewKeyring_inv])
  have cur: "kr_current ?kr = 3" by code_simp
  obtain ct where ct: "keyring_Encrypt toy_crypto ?kr ''secret'' = Inr ct"
    using that by (cases "keyring_Encrypt toy_crypto ?kr ''secret''") (code_simp, simp)
  have "keyring_Decrypt (keyring_ops toy_crypto [] [KAdd 7 ''c'', KRemove 1] ?kr) ct = Inr ''secret''"
    by (rule keyring_roundtrip [OF toy_sound inv _ ct]) (simp_all add: cur)
  with ct show ?thesis by auto
qed

text \<open>
  The keyring keeps its invariant: after any calls of \<open>AddKey\<close> and \<open>RemoveKey\<close> on a new keyring, the versions are
  distinct and positive, none is above the current one, and the current version has a key as soon as there
  is one, so \<open>Encrypt\<close> fails only on an empty keyring or without random bytes.
\<close>

theorem keyring_keeps_current_key:
  assumes "kr = keyring_ops c salt ops NewKeyring"
  shows "distinct (ListKeyVersions kr) \<and> (\<forall>v \<in> set (ListKeyVersions kr). 1 \<le> v \<and> v \<le> CurrentVersion kr)
     \<and> (if ListKeyVersions kr = [] then keyring_Encrypt c kr plaintext = Inl (NewError ''keyring has no keys'')
        else CurrentVersion kr \<in> set (ListKeyVersions kr)
          \<and> ((\<forall>n. \<exists>bytes. cr_rand c n = Inr bytes) \<longrightarrow> (\<exists>ct. keyring_Encrypt c kr plaintext = Inr ct)))"
proof -
  have inv: "keyring_inv c kr" unfolding assms by (rule keyring_ops_inv [OF NewKeyring_inv])
  have versions: "set (ListKeyVersions kr) = dom (map_of (kr_keys kr))"
    by (simp add: ListKeyVersions_def dom_map_of_conv_image_fst)
  have bounds: "1 \<le> v \<and> v \<le> CurrentVersion kr" if "v \<in> set (ListKeyVersions kr)" for v
    using that inv unfolding versions keyring_inv_def CurrentVersion_def by blast
  have distinct: "distinct (ListKeyVersions kr)" using inv by (simp add: ListKeyVersions_def keyring_inv_def)
  show ?thesis
  proof (cases "kr_current kr = 0")
    case True
    then have "ListKeyVersions kr = []" using bounds [of "hd (ListKeyVersions kr)"]
      by (cases "ListKeyVersions kr") (auto simp: CurrentVersion_def)
    then show ?thesis using True by (simp add: keyring_Encrypt_def)
  next
    case False
    then obtain g where g: "map_of (kr_keys kr) (kr_current kr) = Some g" using inv by (auto simp: keyring_inv_def)
    then have "CurrentVersion kr \<in> set (ListKeyVersions kr)" unfolding versions by (simp add: CurrentVersion_def domI)
    moreover have "\<exists>ct. keyring_Encrypt c kr plaintext = Inr ct" if rand: "\<forall>n. \<exists>bytes. cr_rand c n = Inr bytes"
    proof -
      obtain bytes where "cr_rand c (NonceSize g) = Inr bytes" using rand by blast
      then show ?thesis using False g by (simp add: keyring_Encrypt_def Let_def)
    qed
    ultimately show ?thesis using distinct bounds by auto
  qed
qed

theorem keyring_keeps_current_key_witness:
  "CurrentVersion (keyring_ops toy_crypto [] [KAdd 3 ''b'', KAdd 1 ''a'', KRemove 3] NewKeyring) = 3
    \<and> (\<exists>ct. keyring_Encrypt toy_crypto (keyring_ops toy_crypto [] [KAdd 3 ''b'', KAdd 1 ''a'', KRemove 3] NewKeyring) ''x'' = Inr ct)"
proof -
  let ?ops = "[KAdd 3 ''b'', KAdd 1 ''a'', KRemove 3]"
  have "CurrentVersion (keyring_ops toy_crypto [] ?ops NewKeyring) = 3" by code_simp
  moreover have "\<forall>n. \<exists>bytes. cr_rand toy_crypto n = Inr bytes" by (simp add: toy_crypto_def)
  moreover have "ListKeyVersions (keyring_ops toy_crypto [] ?ops NewKeyring) \<noteq> []" by code_simp
  moreover note keyring_keeps_current_key [OF refl, of toy_crypto "[]" ?ops "''x''"]
  ultimately show ?thesis by simp
qed

text \<open>
  The tag of a ciphertext has four bytes, but \<open>AddKey\<close> accepts any positive version: what is encrypted under a
  version above \<open>2 ^ 32\<close> is tagged with its low 32 bits, and \<open>Decrypt\<close> looks for that version instead.
\<close>

theorem wide_key_version_lost:
  "(case keyring_Encrypt toy_crypto (snd (AddKey toy_crypto [] (2 ^ 32 + 1) ''key'' NewKeyring)) ''secret'' of
      Inr ct \<Rightarrow> keyring_Decrypt (snd (AddKey toy_crypto [] (2 ^ 32 + 1) ''key'' NewKeyring)) ct
        = Inl (NewError ''no key found for version 1'')
    | Inl _ \<Rightarrow> False)"
  by code_simp

end
