(* ===== verification/Secrets.thy ===== *)
theory Secrets
  imports Encryption
begin

text \<open>
  The secret stores of \<open>internal/security/secrets\<close>: encrypted files below a directory (\<open>manager.go\<close>) and
  HashiCorp Vault (\<open>vault.go\<close>). The file system and Vault are arguments that act on a state \<open>'w\<close>. \<open>filepath.Clean\<close>,
  \<open>Dir\<close> and \<open>Join\<close> are those of Go on Unix.
\<close>

section \<open>Package path/filepath\<close>

text \<open>\<open>Clean\<close> on the parts between slashes: \<open>out\<close> holds the cleaned parts, the last one first.\<close>

fun clean_parts :: "bool \<Rightarrow> string list \<Rightarrow> string list \<Rightarrow> string list" where
  "clean_parts rooted out [] = rev out"
| "clean_parts rooted out (p # ps) =
    (if p = [] \<or> p = ''.'' then clean_parts rooted out ps
     else if p = ''..'' then
       (case out of
          q # out' \<Rightarrow> if q = ''..'' then clean_parts rooted (p # out) ps else clean_parts rooted out' ps
        | [] \<Rightarrow> if rooted then clean_parts rooted out ps else clean_parts rooted [p] ps)
     else clean_parts rooted (p # out) ps)"

definition is_rooted :: "string \<Rightarrow> bool" where
  "is_rooted path \<longleftrightarrow> path \<noteq> [] \<and> hd path = CHR ''/''"

definition path_parts :: "string \<Rightarrow> string list" where
  "path_parts path = clean_parts (is_rooted path) [] (go_split path ''/'')"

definition path_Clean :: "string \<Rightarrow> string" where
  "path_Clean path =
    (let cleaned = join_with ''/'' (path_parts path)
     in if is_rooted path then CHR ''/'' # cleaned else if cleaned = [] then ''.'' else cleaned)"

definition path_Join :: "string \<Rightarrow> string \<Rightarrow> string" where
  "path_Join a b = (if a \<noteq> [] then path_Clean (a @ ''/'' @ b) else if b \<noteq> [] then path_Clean b else [])"


section \<open>Files\<close>

text \<open>\<open>Inl (missing, err)\<close>: \<open>os.IsNotExist\<close> and the error.\<close>

record 'w files =
  os_mkdir :: "string \<Rightarrow> 'w \<Rightarrow> go_error option \<times> 'w"
  os_write :: "string \<Rightarrow> string \<Rightarrow> 'w \<Rightarrow> go_error option \<times> 'w"
  os_read :: "string \<Rightarrow> 'w \<Rightarrow> ((bool \<times> go_error) + string) \<times> 'w"
  os_remove :: "string \<Rightarrow> 'w \<Rightarrow> (bool \<times> go_error) option \<times> 'w"

record local_manager =
  lm_base :: string
  lm_gcm :: aead

definition ConnectorCredentialPath :: "string \<Rightarrow> string \<Rightarrow> string" where
  "ConnectorCredentialPath tenantID connectorID = ''tenants/'' @ tenantID @ ''/connectors/'' @ connectorID @ ''/credentials''"

definition NewLocalSecretManager :: "crypto \<Rightarrow> 'w files \<Rightarrow> string \<Rightarrow> string \<Rightarrow> 'w \<Rightarrow> local_manager result \<times> 'w" where
  "NewLocalSecretManager c os baseDir key w =
    (if key = [] then (Inl (NewError ''encryption key is required for local secret manager''), w)
     else case os_mkdir os baseDir w of
       (Some err, w') \<Rightarrow> (Inl (Wrapped ''creating secret store directory: '' err), w')
     | (None, w') \<Rightarrow> (case cr_aes c (cr_sha256 c key) of
          Some err \<Rightarrow> (Inl (Wrapped ''creating AES cipher: '' err), w')
        | None \<Rightarrow> (case cr_gcm c (cr_sha256 c key) of
            Inl err \<Rightarrow> (Inl (Wrapped ''creating GCM cipher: '' err), w')
          | Inr g \<Rightarrow> (Inr \<lparr>lm_base = baseDir, lm_gcm = g\<rparr>, w'))))"

definition filePath :: "local_manager \<Rightarrow> string \<Rightarrow> string" where
  "filePath m path = path_Join (lm_base m) (path_Clean path @ ''.enc'')"





definition local_Delete :: "'w files \<Rightarrow> local_manager \<Rightarrow> string \<Rightarrow> 'w \<Rightarrow> go_error option \<times> 'w" where
  "local_Delete os m path w = (case os_remove os (filePath m path) w of
     (None, w') \<Rightarrow> (None, w')
   | (Some (True, _), w') \<Rightarrow> (Some (NewError (''secret not found at path '' @ path)), w')
   | (Some (False, err), w') \<Rightarrow> (Some (Wrapped ''deleting secret file: '' err), w'))"


section \<open>Vault\<close>

text \<open>The key-value engine of Vault: a write, a read that gives the data of a secret if there is one, a delete.\<close>

record ('f, 'w) vault =
  va_write :: "string \<Rightarrow> (string \<times> 'f go_value) list \<Rightarrow> 'w \<Rightarrow> go_error option \<times> 'w"
  va_read :: "string \<Rightarrow> 'w \<Rightarrow> (string \<times> 'f go_value) list option result \<times> 'w"
  va_delete :: "string \<Rightarrow> 'w \<Rightarrow> go_error option \<times> 'w"
  va_health :: "'w \<Rightarrow> bool result \<times> 'w"   \<comment> \<open>whether it is sealed\<close>

definition kvDataPath :: "string \<Rightarrow> string \<Rightarrow> string" where
  "kvDataPath mount path = mount @ ''/data/'' @ path"

definition kvMetadataPath :: "string \<Rightarrow> string \<Rightarrow> string" where
  "kvMetadataPath mount path = mount @ ''/metadata/'' @ path"

definition StoreSecret :: "('f, 'w) vault \<Rightarrow> string \<Rightarrow> string \<Rightarrow> (string \<times> 'f go_value) list \<Rightarrow> 'w \<Rightarrow> go_error option \<times> 'w" where
  "StoreSecret v mount path data w = (case va_write v (kvDataPath mount path) [(''data'', VMap data)] w of
     (Some err, w') \<Rightarrow> (Some (Wrapped (''writing secret to vault path '' @ path @ '': '') err), w')
   | (None, w') \<Rightarrow> (None, w'))"

definition GetSecret :: "('f, 'w) vault \<Rightarrow> string \<Rightarrow> string \<Rightarrow> 'w \<Rightarrow> (string \<times> 'f go_value) list result \<times> 'w" where
  "GetSecret v mount path w = (case va_read v (kvDataPath mount path) w of
     (Inl err, w') \<Rightarrow> (Inl (Wrapped (''reading secret from vault path '' @ path @ '': '') err), w')
   | (Inr None, w') \<Rightarrow> (Inl (NewError (''secret not found at path '' @ path)), w')
   | (Inr (Some data), w') \<Rightarrow> (case map_of data ''data'' of
        Some (VMap d) \<Rightarrow> (Inr d, w')
      | _ \<Rightarrow> (Inl (NewError (''unexpected data format at vault path '' @ path)), w')))"

definition DeleteSecret :: "('f, 'w) vault \<Rightarrow> string \<Rightarrow> string \<Rightarrow> 'w \<Rightarrow> go_error option \<times> 'w" where
  "DeleteSecret v mount path w = (case va_delete v (kvMetadataPath mount path) w of
     (Some err, w') \<Rightarrow> (Some (Wrapped (''deleting secret at vault path '' @ path @ '': '') err), w')
   | (None, w') \<Rightarrow> (None, w'))"

definition RotateSecret :: "('f, 'w) vault \<Rightarrow> string \<Rightarrow> string \<Rightarrow> (string \<times> 'f go_value) list \<Rightarrow> 'w \<Rightarrow> go_error option \<times> 'w" where
  "RotateSecret v mount path newData w = StoreSecret v mount path newData w"

definition vault_HealthCheck :: "('f, 'w) vault \<Rightarrow> 'w \<Rightarrow> go_error option \<times> 'w" where
  "vault_HealthCheck v w = (case va_health v w of
     (Inl err, w') \<Rightarrow> (Some (Wrapped ''vault health check failed: '' err), w')
   | (Inr sealed, w') \<Rightarrow> (if sealed then Some (NewError ''vault is sealed'') else None, w'))"

section \<open>Properties\<close>







definition toy_manager :: local_manager where
  "toy_manager = \<lparr>lm_base = ''/secrets'', lm_gcm = (case cr_gcm toy_crypto ''k'' of Inr g \<Rightarrow> g)\<rparr>"


text \<open>
  Despite the comment on \<open>filePath\<close>, cleaning a path does not keep it below the base directory: leading \<open>..\<close> parts
  survive \<open>Clean\<close> and take the file out of the directory, and a connector identifier with \<open>..\<close> parts names the
  credentials of another tenant.
\<close>

theorem secret_path_escapes:
  "filePath (toy_manager\<lparr>lm_base := ''/var/secrets''\<rparr>) ''../../etc/app'' = ''/etc/app.enc''
    \<and> filePath toy_manager (ConnectorCredentialPath ''a'' ''../../b/connectors/c'')
        = filePath toy_manager (ConnectorCredentialPath ''b'' ''c'')"
  by code_simp

end
