(* ===== verification/Pagination.thy ===== *)
theory Pagination
  imports Values Errors
begin

text \<open>
  The paginators of \<open>connectors/common/pagination.go\<close>: from the body of a response, or its headers, each
  computes the URL of the next page, or says that there is none. Package net/url and the format \<open>%.0f\<close> are
  arguments: \<open>with_query base ps\<close> is the URL \<open>base\<close> with the parameters \<open>ps\<close> set, \<open>None\<close> if it cannot be parsed.
\<close>

type_synonym 'f body = "(string \<times> 'f go_value) list"

record 'f page_lib =
  pg_lib :: "'f go_lib"
  with_query :: "string \<Rightarrow> (string \<times> string) list \<Rightarrow> string option"
  whole_text :: "'f \<Rightarrow> string"

section \<open>Values in a body\<close>

text \<open>The walk along the parts of a path; \<open>None\<close> where a part is missing.\<close>

fun walk_path :: "string list \<Rightarrow> 'f go_value \<Rightarrow> 'f go_value option" where
  "walk_path [] v = Some v"
| "walk_path (p # ps) v = (case v of
     VMap m \<Rightarrow> (case map_of m p of None \<Rightarrow> None | Some x \<Rightarrow> walk_path ps x)
   | _ \<Rightarrow> None)"

definition extractNestedString :: "'f page_lib \<Rightarrow> 'f body \<Rightarrow> string \<Rightarrow> string" where
  "extractNestedString pl m path = (case walk_path (go_split path ''.'') (VMap m) of
     None \<Rightarrow> []
   | Some (VString s) \<Rightarrow> s
   | Some (VFloat f) \<Rightarrow> whole_text pl f
   | Some v \<Rightarrow> print_v (pg_lib pl) v)"

definition extractNestedBool :: "'f body \<Rightarrow> string \<Rightarrow> bool" where
  "extractNestedBool m path = (case walk_path (go_split path ''.'') (VMap m) of Some (VBool b) \<Rightarrow> b | _ \<Rightarrow> False)"

section \<open>Offsets and page numbers\<close>

record offset_paginator =
  op_base :: string
  op_page_param :: string
  op_limit_param :: string
  op_size :: int
  op_results :: string
  op_use_offset :: bool
  op_page :: int
  op_offset :: int
  op_started :: bool

definition offset_buildURL :: "'f page_lib \<Rightarrow> offset_paginator \<Rightarrow> string" where
  "offset_buildURL pl p = (case with_query pl (op_base p)
      [(op_page_param p, show_int (if op_use_offset p then op_offset p else op_page p)), (op_limit_param p, show_int (op_size p))] of
     None \<Rightarrow> op_base p | Some url \<Rightarrow> url)"

definition countResults :: "offset_paginator \<Rightarrow> 'f body \<Rightarrow> int" where
  "countResults p m =
    (if op_results p = [] then 0
     else case map_of m (op_results p) of Some (VArray vs) \<Rightarrow> int (length vs) | _ \<Rightarrow> 0)"

definition offset_NextPage :: "'f page_lib \<Rightarrow> 'f body \<Rightarrow> offset_paginator \<Rightarrow> (string \<times> bool) \<times> offset_paginator" where
  "offset_NextPage pl m p =
    (if \<not> op_started p
     then (let p' = p\<lparr>op_started := True, op_page := 1, op_offset := 0\<rparr> in ((offset_buildURL pl p', True), p'))
     else if countResults p m < op_size p then (([], False), p)
     else let p' = (if op_use_offset p then p\<lparr>op_offset := wrap64 (op_offset p + op_size p)\<rparr>
                    else p\<lparr>op_page := wrap64 (op_page p + 1)\<rparr>)
          in ((offset_buildURL pl p', True), p'))"

section \<open>Cursors\<close>

record cursor_paginator =
  cp_base :: string
  cp_param :: string
  cp_field :: string
  cp_limit_param :: string
  cp_size :: int
  cp_has_more :: string
  cp_started :: bool

definition cursor_buildURL :: "'f page_lib \<Rightarrow> cursor_paginator \<Rightarrow> string \<Rightarrow> string" where
  "cursor_buildURL pl p cursor = (case with_query pl (cp_base p)
      ((if cursor \<noteq> [] then [(cp_param p, cursor)] else [])
       @ (if cp_limit_param p \<noteq> [] \<and> 0 < cp_size p then [(cp_limit_param p, show_int (cp_size p))] else [])) of
     None \<Rightarrow> cp_base p | Some url \<Rightarrow> url)"

definition cursor_NextPage :: "'f page_lib \<Rightarrow> 'f body \<Rightarrow> cursor_paginator \<Rightarrow> (string \<times> bool) \<times> cursor_paginator" where
  "cursor_NextPage pl m p =
    (if \<not> cp_started p
     then (let p' = p\<lparr>cp_started := True\<rparr> in ((cursor_buildURL pl p' [], True), p'))
     else let cursor = extractNestedString pl m (cp_field p) in
       if cursor = [] then (([], False), p)
       else if cp_has_more p \<noteq> [] \<and> \<not> extractNestedBool m (cp_has_more p) then (([], False), p)
       else ((cursor_buildURL pl p cursor, True), p))"

section \<open>Link headers\<close>

record link_paginator =
  lp_base :: string
  lp_started :: bool

text \<open>
  The leftmost match of \<open><([^>]+)>;\s*rel="next"\<close> in a header, its group. White space is what the syntax
  of package regexp takes it to be.
\<close>

definition re_space :: "char \<Rightarrow> bool" where
  "re_space c \<longleftrightarrow> byte c \<in> {9, 10, 12, 13, 32}"

definition rel_next :: string where
  "rel_next = ''rel='' @ [CHR 0x22] @ ''next'' @ [CHR 0x22]"

definition match_link :: "string \<Rightarrow> string option" where
  "match_link s = (case s of
     [] \<Rightarrow> None
   | c # cs \<Rightarrow>
      (let url = takeWhile (\<lambda>c. c \<noteq> CHR ''>'') cs; rest = dropWhile (\<lambda>c. c \<noteq> CHR ''>'') cs
       in if c = CHR ''<'' \<and> url \<noteq> [] \<and> take 2 rest = ''>;''
             \<and> take (length rel_next) (dropWhile re_space (drop 2 rest)) = rel_next
          then Some url else None))"

fun find_link :: "string \<Rightarrow> string option" where
  "find_link [] = None"
| "find_link (c # cs) = (case match_link (c # cs) of Some url \<Rightarrow> Some url | None \<Rightarrow> find_link cs)"

text \<open>The argument is the \<open>Link\<close> header of the last response, \<open>None\<close> before there is one.\<close>

definition link_NextPage :: "string option \<Rightarrow> link_paginator \<Rightarrow> (string \<times> bool) \<times> link_paginator" where
  "link_NextPage header p =
    (if \<not> lp_started p then ((lp_base p, True), p\<lparr>lp_started := True\<rparr>)
     else case header of
       None \<Rightarrow> (([], False), p)
     | Some h \<Rightarrow> if h = [] then (([], False), p)
         else case find_link h of None \<Rightarrow> (([], False), p) | Some url \<Rightarrow> ((url, True), p))"

end
