(* ===== verification/RestClient.thy ===== *)
theory RestClient
  imports Pagination Complex_Main "HOL-Library.AList"
begin

text \<open>
  The HTTP client of the connectors, \<open>connectors/common/http_client.go\<close>: retries, rate limits, authentication,
  and the loops over pages. The network, the clock and the waits are arguments that act on a state \<open>'w\<close>; log
  output is left out. Rates are \<open>float64\<close> in Go and exact here; their conversion to a duration is an argument.
\<close>

section \<open>Requests and responses\<close>

record http_request =
  rq_method :: string
  rq_url :: string
  rq_body :: "string option"
  rq_headers :: "(string \<times> string) list"

text \<open>The bytes of a body and the error that ends them, if any.\<close>

record http_reply =
  rp_status :: int
  rp_header :: "string \<Rightarrow> string"
  rp_bytes :: string
  rp_error :: "go_error option"

record 'w network =
  nt_request_error :: "string \<Rightarrow> string \<Rightarrow> go_error option"   \<comment> \<open>\<open>http.NewRequestWithContext\<close>: method, URL\<close>
  nt_send :: "http_request \<Rightarrow> 'w \<Rightarrow> http_reply result \<times> 'w"
  nt_wait :: "duration \<Rightarrow> 'w \<Rightarrow> go_error option \<times> 'w"      \<comment> \<open>until the context is done or the time is over\<close>
  nt_done :: "'w \<Rightarrow> go_error option \<times> 'w"
  nt_now :: "'w \<Rightarrow> time \<times> 'w"
  nt_sleep :: "duration \<Rightarrow> 'w \<Rightarrow> 'w"
  nt_duration :: "rat \<Rightarrow> duration"                         \<comment> \<open>\<open>time.Duration\<close> of a \<open>float64\<close>\<close>
  nt_http_time :: "string \<Rightarrow> time option"

record 'w rest_client =
  rc_base :: string
  rc_maxRetries :: int
  rc_backoff :: duration
  rc_rate :: rat
  rc_apiKey :: string
  rc_apiKeyHdr :: string
  rc_token :: "('w \<Rightarrow> string result \<times> 'w) option"
  rc_maxSize :: int
  rc_dist :: "('w \<Rightarrow> go_error option \<times> 'w) option"
  rc_adaptive :: rat
  rc_initial :: rat
  rc_last :: "time option"   \<comment> \<open>the zero time before the first request\<close>

section \<open>Options\<close>

definition WithOAuth2 :: "('w \<Rightarrow> string result \<times> 'w) \<Rightarrow> 'w rest_client \<Rightarrow> 'w rest_client" where
  "WithOAuth2 ts c = c\<lparr>rc_token := Some ts\<rparr>"

definition WithAPIKey :: "string \<Rightarrow> string \<Rightarrow> 'w rest_client \<Rightarrow> 'w rest_client" where
  "WithAPIKey key header c = c\<lparr>rc_apiKey := key, rc_apiKeyHdr := header\<rparr>"

definition WithRetry :: "int \<Rightarrow> duration \<Rightarrow> 'w rest_client \<Rightarrow> 'w rest_client" where
  "WithRetry maxRetries backoff c = c\<lparr>rc_maxRetries := maxRetries, rc_backoff := backoff\<rparr>"

definition WithRateLimit :: "rat \<Rightarrow> 'w rest_client \<Rightarrow> 'w rest_client" where
  "WithRateLimit reqPerSec c = c\<lparr>rc_rate := reqPerSec\<rparr>"

definition WithMaxResponseSize :: "int \<Rightarrow> 'w rest_client \<Rightarrow> 'w rest_client" where
  "WithMaxResponseSize bytes c = c\<lparr>rc_maxSize := bytes\<rparr>"

definition WithAdaptiveRateLimit :: "rat \<Rightarrow> 'w rest_client \<Rightarrow> 'w rest_client" where
  "WithAdaptiveRateLimit initialRate c = c\<lparr>rc_adaptive := initialRate, rc_initial := initialRate, rc_rate := initialRate\<rparr>"

definition WithDistributedRateLimit :: "('w \<Rightarrow> go_error option \<times> 'w) \<Rightarrow> 'w rest_client \<Rightarrow> 'w rest_client" where
  "WithDistributedRateLimit limiter c = c\<lparr>rc_dist := Some limiter\<rparr>"

definition defaultMaxResponseSize :: int where
  "defaultMaxResponseSize = 50 * 1024 * 1024"

definition trim_right :: "char \<Rightarrow> string \<Rightarrow> string" where
  "trim_right c s = rev (dropWhile (\<lambda>x. x = c) (rev s))"

definition NewRESTClient :: "string \<Rightarrow> ('w rest_client \<Rightarrow> 'w rest_client) list \<Rightarrow> 'w rest_client" where
  "NewRESTClient baseURL opts = fold (\<lambda>o' c. o' c) opts
     \<lparr>rc_base = trim_right (CHR ''/'') baseURL, rc_maxRetries = 3, rc_backoff = 500000000, rc_rate = 0, rc_apiKey = [],
      rc_apiKeyHdr = [], rc_token = None, rc_maxSize = 0, rc_dist = None, rc_adaptive = 0, rc_initial = 0, rc_last = None\<rparr>"

section \<open>Rates\<close>

definition adaptiveDecrease :: "'w rest_client \<Rightarrow> 'w rest_client" where
  "adaptiveDecrease c =
    (if rc_initial c \<le> 0 then c
     else let r = max (rc_adaptive c / 2) (1 / 2) in c\<lparr>rc_adaptive := r, rc_rate := r\<rparr>)"

definition adaptiveIncrease :: "'w rest_client \<Rightarrow> 'w rest_client" where
  "adaptiveIncrease c =
    (if rc_initial c \<le> 0 then c
     else if rc_adaptive c < rc_initial c
     then let r = min (rc_adaptive c + 1 / 2) (rc_initial c) in c\<lparr>rc_adaptive := r, rc_rate := r\<rparr>
     else c)"

definition waitForRateLimit :: "'w network \<Rightarrow> 'w rest_client \<Rightarrow> 'w \<Rightarrow> 'w rest_client \<times> 'w" where
  "waitForRateLimit net c w =
    (if rc_rate c \<le> 0 then (c, w)
     else let minInterval = nt_duration net (1000000000 / rc_rate c) in
       case nt_now net w of (now, w1) \<Rightarrow>
         (let w2 = (case rc_last c of
                 None \<Rightarrow> w1
               | Some before \<Rightarrow> if now - before < minInterval then nt_sleep net (minInterval - (now - before)) w1 else w1)
          in case nt_now net w2 of (now', w3) \<Rightarrow> (c\<lparr>rc_last := Some now'\<rparr>, w3)))"

definition parseRetryAfter :: "'w network \<Rightarrow> string \<Rightarrow> 'w \<Rightarrow> duration \<times> 'w" where
  "parseRetryAfter net val w =
    (if val = [] then (0, w)
     else case parse_int64 val of
       Inr secs \<Rightarrow> (wrap64 (secs * 1000000000), w)
     | Inl _ \<Rightarrow> (case nt_http_time net val of
         None \<Rightarrow> (0, w)
       | Some t \<Rightarrow> (case nt_now net w of (now, w') \<Rightarrow> (if 0 < t - now then t - now else 0, w'))))"

section \<open>A request\<close>

text \<open>A header set again replaces the earlier value; names are taken to be in canonical form.\<close>

definition applyAuth :: "'w rest_client \<Rightarrow> http_request \<Rightarrow> 'w \<Rightarrow> http_request result \<times> 'w" where
  "applyAuth c req w = (case rc_token c of
     Some ts \<Rightarrow> (case ts w of
         (Inl err, w') \<Rightarrow> (Inl (Wrapped ''get OAuth token: '' err), w')
       | (Inr tok, w') \<Rightarrow> (Inr (req\<lparr>rq_headers := AList.update ''Authorization'' (''Bearer '' @ tok) (rq_headers req)\<rparr>), w'))
   | None \<Rightarrow> (Inr (if rc_apiKey c \<noteq> [] then req\<lparr>rq_headers := AList.update (rc_apiKeyHdr c) (rc_apiKey c) (rq_headers req)\<rparr>
                 else req), w))"

text \<open>\<open>io.ReadAll\<close> of \<open>io.LimitReader(body, maxSize + 1)\<close>: an error that lies beyond the limit is not met.\<close>

definition read_limited :: "int \<Rightarrow> http_reply \<Rightarrow> string result" where
  "read_limited maxSize rp =
    (let n = nat (wrap64 (maxSize + 1)) in
     if n \<le> length (rp_bytes rp) then Inr (take n (rp_bytes rp))
     else case rp_error rp of None \<Rightarrow> Inr (rp_bytes rp) | Some err \<Rightarrow> Inl err)"

record 'f response =
  rs_status :: int
  rs_headers :: "string \<Rightarrow> string"
  rs_body :: "'f body option"
  rs_raw :: string

text \<open>\<open>Body\<close> stays nil for a body that is no JSON object.\<close>

definition make_response :: "'f go_lib \<Rightarrow> http_reply \<Rightarrow> string \<Rightarrow> 'f response" where
  "make_response lib rp raw = \<lparr>rs_status = rp_status rp, rs_headers = rp_header rp,
     rs_body = (if raw = [] \<or> json_parse raw = Some JNull then None else decode_object lib raw), rs_raw = raw\<rparr>"

text \<open>One round of the loop of \<open>do\<close>: it returns, or goes on with the error of this attempt.\<close>

datatype 'a round = Done "'a result" | Again go_error

definition handle_reply :: "'f go_lib \<Rightarrow> 'w network \<Rightarrow> 'w rest_client \<Rightarrow> int \<Rightarrow> http_reply \<Rightarrow> 'w
    \<Rightarrow> 'f response round \<times> 'w rest_client \<times> 'w" where
  "handle_reply lib net c maxSize rp w = (case read_limited maxSize rp of
     Inl err \<Rightarrow> (Again (Wrapped ''read response: '' err), c, w)
   | Inr raw \<Rightarrow>
      if maxSize < int (length raw)
      then (Again (NewError (''response body exceeds max size ('' @ show_int maxSize @ '' bytes)'')), c, w)
      else if rp_status rp = 429
      then let c' = adaptiveDecrease c in
        case parseRetryAfter net (rp_header rp ''Retry-After'') w of (d, w1) \<Rightarrow>
          (case (if 0 < d then nt_wait net d w1 else (None, w1)) of
             (Some err, w2) \<Rightarrow> (Done (Inl err), c', w2)
           | (None, w2) \<Rightarrow> (Again (NewError ''rate limited (429)''), c', w2))
      else let c' = adaptiveIncrease c in
        if 500 \<le> rp_status rp then (Again (NewError (''server error: '' @ show_int (rp_status rp))), c', w)
        else if 400 \<le> rp_status rp
        then (Done (Inl (NewError (''API error '' @ show_int (rp_status rp) @ '': '' @ raw))), c', w)
        else (Done (Inr (make_response lib rp raw)), c', w))"

definition build_request :: "string \<Rightarrow> string \<Rightarrow> string option \<Rightarrow> http_request" where
  "build_request verb url data = \<lparr>rq_method = verb, rq_url = url, rq_body = data,
     rq_headers = (if data \<noteq> None then [(''Content-Type'', ''application/json'')] else []) @ [(''Accept'', ''application/json'')]\<rparr>"

definition send_request :: "'f go_lib \<Rightarrow> 'w network \<Rightarrow> string \<Rightarrow> string \<Rightarrow> string option \<Rightarrow> int \<Rightarrow> 'w rest_client \<Rightarrow> 'w
    \<Rightarrow> 'f response round \<times> 'w rest_client \<times> 'w" where
  "send_request lib net verb url data maxSize c w = (case waitForRateLimit net c w of (c1, w1) \<Rightarrow>
     (case nt_request_error net verb url of
        Some err \<Rightarrow> (Done (Inl (Wrapped ''create request: '' err)), c1, w1)
      | None \<Rightarrow> (case applyAuth c1 (build_request verb url data) w1 of
          (Inl err, w2) \<Rightarrow> (Done (Inl (Wrapped ''apply auth: '' err)), c1, w2)
        | (Inr req, w2) \<Rightarrow> (case nt_send net req w2 of
            (Inl err, w3) \<Rightarrow> (Again (Wrapped ''http request: '' err), c1, w3)
          | (Inr rp, w3) \<Rightarrow> handle_reply lib net c1 maxSize rp w3))))"

text \<open>The wait before an attempt, which a done context ends.\<close>

definition retry_wait :: "'w network \<Rightarrow> 'w rest_client \<Rightarrow> nat \<Rightarrow> 'w \<Rightarrow> go_error option \<times> 'w" where
  "retry_wait net c attempt w =
    (if 0 < attempt then nt_wait net (wrap64 (rc_backoff c * nt_duration net (2 ^ (attempt - 1)))) w else (None, w))"

definition limiter_wait :: "'w rest_client \<Rightarrow> 'w \<Rightarrow> go_error option \<times> 'w" where
  "limiter_wait c w = (case rc_dist c of None \<Rightarrow> (None, w) | Some limiter \<Rightarrow> limiter w)"

definition try_once :: "'f go_lib \<Rightarrow> 'w network \<Rightarrow> string \<Rightarrow> string \<Rightarrow> string option \<Rightarrow> int \<Rightarrow> nat \<Rightarrow> 'w rest_client \<Rightarrow> 'w
    \<Rightarrow> 'f response round \<times> 'w rest_client \<times> 'w" where
  "try_once lib net verb url data maxSize attempt c w = (case retry_wait net c attempt w of
     (Some err, w1) \<Rightarrow> (Done (Inl err), c, w1)
   | (None, w1) \<Rightarrow> (case limiter_wait c w1 of
       (Some err, w2) \<Rightarrow> (Done (Inl (Wrapped ''distributed rate limiter: '' err)), c, w2)
     | (None, w2) \<Rightarrow> send_request lib net verb url data maxSize c w2))"

text \<open>The loop: \<open>k\<close> attempts are left, \<open>lastErr\<close> is the error of the last one.\<close>

fun attempts_loop :: "'f go_lib \<Rightarrow> 'w network \<Rightarrow> string \<Rightarrow> string \<Rightarrow> string option \<Rightarrow> int \<Rightarrow> nat \<Rightarrow> nat \<Rightarrow> go_error option
    \<Rightarrow> 'w rest_client \<Rightarrow> 'w \<Rightarrow> 'f response result \<times> 'w rest_client \<times> 'w" where
  "attempts_loop lib net verb url data maxSize 0 attempt lastErr c w =
    (Inl (case lastErr of None \<Rightarrow> NewError ''max retries exceeded: %!w(<nil>)''
          | Some err \<Rightarrow> Wrapped ''max retries exceeded: '' err), c, w)"
| "attempts_loop lib net verb url data maxSize (Suc k) attempt lastErr c w =
    (case try_once lib net verb url data maxSize attempt c w of
       (Done r, c', w') \<Rightarrow> (r, c', w')
     | (Again err, c', w') \<Rightarrow> attempts_loop lib net verb url data maxSize k (Suc attempt) (Some err) c' w')"

definition rest_do :: "'f go_lib \<Rightarrow> ('f go_value \<Rightarrow> go_error) \<Rightarrow> 'w network \<Rightarrow> string \<Rightarrow> string \<Rightarrow> 'f go_value option
    \<Rightarrow> 'w rest_client \<Rightarrow> 'w \<Rightarrow> 'f response result \<times> 'w rest_client \<times> 'w" where
  "rest_do lib merr net verb path data c w =
    (case (case data of None \<Rightarrow> Inr None | Some v \<Rightarrow> (case encode_value lib v of
             None \<Rightarrow> Inl (Wrapped ''marshal request body: '' (merr v)) | Some bytes \<Rightarrow> Inr (Some bytes))) of
       Inl err \<Rightarrow> (Inl err, c, w)
     | Inr bytes \<Rightarrow> attempts_loop lib net verb (rc_base c @ path) bytes
         (if rc_maxSize c \<le> 0 then defaultMaxResponseSize else rc_maxSize c) (nat (rc_maxRetries c + 1)) 0 None c w)"

definition rest_Get :: "'f go_lib \<Rightarrow> ('f go_value \<Rightarrow> go_error) \<Rightarrow> 'w network \<Rightarrow> string \<Rightarrow> 'w rest_client \<Rightarrow> 'w
    \<Rightarrow> 'f response result \<times> 'w rest_client \<times> 'w" where
  "rest_Get lib merr net path c w = rest_do lib merr net ''GET'' path None c w"

definition rest_Post :: "'f go_lib \<Rightarrow> ('f go_value \<Rightarrow> go_error) \<Rightarrow> 'w network \<Rightarrow> string \<Rightarrow> 'f go_value option \<Rightarrow> 'w rest_client \<Rightarrow> 'w
    \<Rightarrow> 'f response result \<times> 'w rest_client \<times> 'w" where
  "rest_Post lib merr net path data c w = rest_do lib merr net ''POST'' path data c w"

definition rest_GetRaw :: "'f go_lib \<Rightarrow> ('f go_value \<Rightarrow> go_error) \<Rightarrow> 'w network \<Rightarrow> string \<Rightarrow> 'w rest_client \<Rightarrow> 'w
    \<Rightarrow> (string \<times> (string \<Rightarrow> string)) result \<times> 'w rest_client \<times> 'w" where
  "rest_GetRaw lib merr net path c w = (case rest_do lib merr net ''GET'' path None c w of
     (Inl err, c', w') \<Rightarrow> (Inl err, c', w')
   | (Inr rs, c', w') \<Rightarrow> (Inr (rs_raw rs, rs_headers rs), c', w'))"

definition rest_Put :: "'f go_lib \<Rightarrow> ('f go_value \<Rightarrow> go_error) \<Rightarrow> 'w network \<Rightarrow> string \<Rightarrow> 'f go_value option \<Rightarrow> 'w rest_client \<Rightarrow> 'w
    \<Rightarrow> 'f response result \<times> 'w rest_client \<times> 'w" where
  "rest_Put lib merr net path data c w = rest_do lib merr net ''PUT'' path data c w"

definition rest_Patch :: "'f go_lib \<Rightarrow> ('f go_value \<Rightarrow> go_error) \<Rightarrow> 'w network \<Rightarrow> string \<Rightarrow> 'f go_value option \<Rightarrow> 'w rest_client \<Rightarrow> 'w
    \<Rightarrow> 'f response result \<times> 'w rest_client \<times> 'w" where
  "rest_Patch lib merr net path data c w = rest_do lib merr net ''PATCH'' path data c w"

definition rest_Delete :: "'f go_lib \<Rightarrow> ('f go_value \<Rightarrow> go_error) \<Rightarrow> 'w network \<Rightarrow> string \<Rightarrow> 'w rest_client \<Rightarrow> 'w
    \<Rightarrow> 'f response result \<times> 'w rest_client \<times> 'w" where
  "rest_Delete lib merr net path c w = rest_do lib merr net ''DELETE'' path None c w"

definition rest_PostRaw :: "'f go_lib \<Rightarrow> ('f go_value \<Rightarrow> go_error) \<Rightarrow> 'w network \<Rightarrow> string \<Rightarrow> 'f go_value option \<Rightarrow> 'w rest_client \<Rightarrow> 'w
    \<Rightarrow> (string \<times> (string \<Rightarrow> string)) result \<times> 'w rest_client \<times> 'w" where
  "rest_PostRaw lib merr net path data c w = (case rest_do lib merr net ''POST'' path data c w of
     (Inl err, c', w') \<Rightarrow> (Inl err, c', w')
   | (Inr rs, c', w') \<Rightarrow> (Inr (rs_raw rs, rs_headers rs), c', w'))"

section \<open>Pages\<close>

text \<open>
  A paginator is the function \<open>next\<close> of its interface: the last response, if any, and its body. A body that is nil
  reads like an empty map.
\<close>

type_synonym ('f, 'p) paginator = "'f response option \<Rightarrow> 'f body \<Rightarrow> 'p \<Rightarrow> (string \<times> bool) \<times> 'p"

definition has_prefix :: "string \<Rightarrow> string \<Rightarrow> bool" where
  "has_prefix p s \<longleftrightarrow> take (length p) s = p"

definition trim_prefix :: "string \<Rightarrow> string \<Rightarrow> string" where
  "trim_prefix p s = (if has_prefix p s then drop (length p) s else s)"

definition page_path :: "string \<Rightarrow> string \<Rightarrow> string" where
  "page_path baseURL nextURL =
    (if has_prefix ''http://'' nextURL \<or> has_prefix ''https://'' nextURL then trim_prefix baseURL nextURL else nextURL)"

definition body_of :: "'f response \<Rightarrow> 'f body" where
  "body_of rs = (case rs_body rs of None \<Rightarrow> [] | Some b \<Rightarrow> b)"

text \<open>The loop of \<open>FetchAllPages\<close>. \<open>None\<close>: it does not end.\<close>

partial_function (option) fetch_loop :: "'f go_lib \<Rightarrow> ('f go_value \<Rightarrow> go_error) \<Rightarrow> 'w network \<Rightarrow> ('f, 'p) paginator
    \<Rightarrow> (string \<times> bool) \<times> 'p \<Rightarrow> 'f body list \<Rightarrow> 'w rest_client \<Rightarrow> 'w
    \<Rightarrow> (('f body list \<times> go_error option) \<times> 'w rest_client \<times> 'w) option" where
  "fetch_loop lib merr net next step pages c w =
    (if \<not> snd (fst step) then Some ((pages, None), c, w)
     else case nt_done net w of
       (Some err, w1) \<Rightarrow> Some ((pages, Some err), c, w1)
     | (None, w1) \<Rightarrow> (case rest_Get lib merr net (page_path (rc_base c) (fst (fst step))) c w1 of
         (Inl err, c', w2) \<Rightarrow> Some ((pages, Some (Wrapped ''fetch page: '' err)), c', w2)
       | (Inr rs, c', w2) \<Rightarrow> fetch_loop lib merr net next (next (Some rs) (body_of rs) (snd step))
           (case rs_body rs of None \<Rightarrow> pages | Some b \<Rightarrow> pages @ [b]) c' w2))"

definition FetchAllPages :: "'f go_lib \<Rightarrow> ('f go_value \<Rightarrow> go_error) \<Rightarrow> 'w network \<Rightarrow> ('f, 'p) paginator \<Rightarrow> 'p
    \<Rightarrow> 'w rest_client \<Rightarrow> 'w \<Rightarrow> (('f body list \<times> go_error option) \<times> 'w rest_client \<times> 'w) option" where
  "FetchAllPages lib merr net next p c w = fetch_loop lib merr net next (next None [] p) [] c w"

text \<open>The handler of \<open>StreamPages\<close> acts on a state of its own.\<close>

partial_function (option) stream_loop :: "'f go_lib \<Rightarrow> ('f go_value \<Rightarrow> go_error) \<Rightarrow> 'w network \<Rightarrow> ('f, 'p) paginator
    \<Rightarrow> ('f body \<Rightarrow> 'h \<Rightarrow> go_error option \<times> 'h) \<Rightarrow> (string \<times> bool) \<times> 'p \<Rightarrow> 'h \<Rightarrow> 'w rest_client \<Rightarrow> 'w
    \<Rightarrow> ((go_error option \<times> 'h) \<times> 'w rest_client \<times> 'w) option" where
  "stream_loop lib merr net next handler step h c w =
    (if \<not> snd (fst step) then Some ((None, h), c, w)
     else case nt_done net w of
       (Some err, w1) \<Rightarrow> Some ((Some err, h), c, w1)
     | (None, w1) \<Rightarrow> (case rest_Get lib merr net (page_path (rc_base c) (fst (fst step))) c w1 of
         (Inl err, c', w2) \<Rightarrow> Some ((Some (Wrapped ''fetch page: '' err), h), c', w2)
       | (Inr rs, c', w2) \<Rightarrow> (case (case rs_body rs of None \<Rightarrow> (None, h) | Some b \<Rightarrow> handler b h) of
           (Some err, h') \<Rightarrow> Some ((Some (Wrapped ''page handler: '' err), h'), c', w2)
         | (None, h') \<Rightarrow> stream_loop lib merr net next handler (next (Some rs) (body_of rs) (snd step)) h' c' w2)))"

definition StreamPages :: "'f go_lib \<Rightarrow> ('f go_value \<Rightarrow> go_error) \<Rightarrow> 'w network \<Rightarrow> ('f, 'p) paginator \<Rightarrow> 'p
    \<Rightarrow> ('f body \<Rightarrow> 'h \<Rightarrow> go_error option \<times> 'h) \<Rightarrow> 'h \<Rightarrow> 'w rest_client \<Rightarrow> 'w
    \<Rightarrow> ((go_error option \<times> 'h) \<times> 'w rest_client \<times> 'w) option" where
  "StreamPages lib merr net next p handler h c w = stream_loop lib merr net next handler (next None [] p) h c w"

partial_function (option) post_loop :: "'f page_lib \<Rightarrow> ('f go_value \<Rightarrow> go_error) \<Rightarrow> 'w network \<Rightarrow> string
    \<Rightarrow> (string \<Rightarrow> 'f go_value option) \<Rightarrow> string \<Rightarrow> string \<Rightarrow> 'f body list \<Rightarrow> 'w rest_client \<Rightarrow> 'w
    \<Rightarrow> (('f body list \<times> go_error option) \<times> 'w rest_client \<times> 'w) option" where
  "post_loop pl merr net path buildBody cursorField cursor pages c w =
    (case nt_done net w of
       (Some err, w1) \<Rightarrow> Some ((pages, Some err), c, w1)
     | (None, w1) \<Rightarrow> (case rest_Post (pg_lib pl) merr net path (buildBody cursor) c w1 of
         (Inl err, c', w2) \<Rightarrow> Some ((pages, Some (Wrapped ''fetch page: '' err)), c', w2)
       | (Inr rs, c', w2) \<Rightarrow>
          (let pages' = (case rs_body rs of None \<Rightarrow> pages | Some b \<Rightarrow> pages @ [b]);
               nextCursor = extractNestedString pl (body_of rs) cursorField
           in if nextCursor = [] \<or> nextCursor = cursor then Some ((pages', None), c', w2)
              else post_loop pl merr net path buildBody cursorField nextCursor pages' c' w2)))"

definition FetchAllPagesPost :: "'f page_lib \<Rightarrow> ('f go_value \<Rightarrow> go_error) \<Rightarrow> 'w network \<Rightarrow> string
    \<Rightarrow> (string \<Rightarrow> 'f go_value option) \<Rightarrow> string \<Rightarrow> 'w rest_client \<Rightarrow> 'w
    \<Rightarrow> (('f body list \<times> go_error option) \<times> 'w rest_client \<times> 'w) option" where
  "FetchAllPagesPost pl merr net path buildBody cursorField c w = post_loop pl merr net path buildBody cursorField [] [] c w"

text \<open>The paginators as functions of the interface.\<close>

definition offset_next :: "'f page_lib \<Rightarrow> ('f, offset_paginator) paginator" where
  "offset_next pl rs b p = offset_NextPage pl b p"

definition cursor_next :: "'f page_lib \<Rightarrow> ('f, cursor_paginator) paginator" where
  "cursor_next pl rs b p = cursor_NextPage pl b p"

definition link_next :: "('f, link_paginator) paginator" where
  "link_next rs b p = link_NextPage (map_option (\<lambda>r. rs_headers r ''Link'') rs) p"

end
