(* ===== verification/RestPages.thy ===== *)
theory RestPages
  imports RestClient
begin

text \<open>
  What the REST client of the connectors promises: retries end at the first conclusive answer, the adaptive
  rate stays within its bounds, and the loops over pages collect every page of a server whose pages a
  paginator follows.
\<close>

section \<open>A network that answers by a script\<close>

text \<open>The state is the number of requests it has got.\<close>

type_synonym script = "nat \<Rightarrow> http_reply result"





definition plain :: "'w rest_client \<Rightarrow> bool" where
  "plain c \<longleftrightarrow> rc_token c = None \<and> rc_dist c = None"

lemma rate_frame [simp]:
  "plain (adaptiveDecrease c) = plain c" "plain (adaptiveIncrease c) = plain c"
  "rc_base (adaptiveDecrease c) = rc_base c" "rc_base (adaptiveIncrease c) = rc_base c"
  "rc_maxRetries (adaptiveDecrease c) = rc_maxRetries c" "rc_maxRetries (adaptiveIncrease c) = rc_maxRetries c"
  "rc_maxSize (adaptiveDecrease c) = rc_maxSize c" "rc_maxSize (adaptiveIncrease c) = rc_maxSize c"
  by (simp_all add: plain_def adaptiveDecrease_def adaptiveIncrease_def Let_def)






section \<open>Properties: requests\<close>

definition size_limit :: "'w rest_client \<Rightarrow> int" where
  "size_limit c = (if rc_maxSize c \<le> 0 then defaultMaxResponseSize else rc_maxSize c)"


definition reply :: "int \<Rightarrow> string \<Rightarrow> http_reply result" where
  "reply status bytes = Inr \<lparr>rp_status = status, rp_header = (\<lambda>_. []), rp_bytes = bytes, rp_error = None\<rparr>"

definition script_network :: "script \<Rightarrow> nat network" where
  "script_network script = \<lparr>nt_request_error = (\<lambda>_ _. None), nt_send = (\<lambda>req w. (script w, Suc w)), nt_wait = (\<lambda>d w. (None, w)),
     nt_done = (\<lambda>w. (None, w)), nt_now = (\<lambda>w. (0, w)), nt_sleep = (\<lambda>d w. w), nt_duration = floor, nt_http_time = (\<lambda>_. None)\<rparr>"


definition busy_then_ok :: script where
  "busy_then_ok i = (if i = 0 then reply 503 [] else if i = 1 then reply 429 [] else reply 200 ''[]'')"


section \<open>Properties: the adaptive rate\<close>

text \<open>The client was given an initial rate of at least the floor of half a request per second.\<close>

definition adaptive :: "rat \<Rightarrow> 'w rest_client \<Rightarrow> bool" where
  "adaptive r c \<longleftrightarrow> rc_initial c = r \<and> 1 / 2 \<le> rc_adaptive c \<and> rc_adaptive c \<le> r \<and> rc_rate c = rc_adaptive c"

lemma adaptive_start: "1 / 2 \<le> r \<Longrightarrow> adaptive r (WithAdaptiveRateLimit r c)"
  by (simp add: adaptive_def WithAdaptiveRateLimit_def)

lemma adaptive_decrease: "adaptive r c \<Longrightarrow> adaptive r (adaptiveDecrease c)"
  by (auto simp: adaptive_def adaptiveDecrease_def Let_def max_def)

lemma adaptive_increase: "adaptive r c \<Longrightarrow> adaptive r (adaptiveIncrease c)"
  by (auto simp: adaptive_def adaptiveIncrease_def Let_def min_def)

lemma adaptive_wait: "waitForRateLimit net c w = (c', w') \<Longrightarrow> adaptive r c \<Longrightarrow> adaptive r c'"
  by (auto simp: waitForRateLimit_def adaptive_def Let_def split: if_splits prod.splits)

lemma adaptive_reply: "handle_reply lib net c maxSize rp w = (x, c', w') \<Longrightarrow> adaptive r c \<Longrightarrow> adaptive r c'"
  by (auto simp: handle_reply_def Let_def intro: adaptive_decrease adaptive_increase
      split: sum.splits if_splits prod.splits option.splits)

lemma adaptive_send: "send_request lib net verb url data maxSize c w = (x, c', w') \<Longrightarrow> adaptive r c \<Longrightarrow> adaptive r c'"
  by (auto simp: send_request_def dest: adaptive_wait adaptive_reply split: sum.splits prod.splits option.splits)

lemma adaptive_try: "try_once lib net verb url data maxSize attempt c w = (x, c', w') \<Longrightarrow> adaptive r c \<Longrightarrow> adaptive r c'"
  by (auto simp: try_once_def dest: adaptive_send split: prod.splits option.splits)

lemma adaptive_loop:
  "attempts_loop lib net verb url data maxSize k attempt e c w = (x, c', w') \<Longrightarrow> adaptive r c \<Longrightarrow> adaptive r c'"
proof (induction k arbitrary: attempt e c w)
  case (Suc k)
  obtain y c1 w1 where t: "try_once lib net verb url data maxSize attempt c w = (y, c1, w1)" by (metis prod.collapse)
  show ?case
  proof (cases y)
    case (Again err)
    then show ?thesis using Suc t adaptive_try [OF t Suc.prems(2)] by simp
  qed (use Suc.prems t adaptive_try [OF t Suc.prems(2)] in simp)
qed simp

text \<open>
  C29: The adaptive rate limiter: whatever the network answers, and however often it says 429, a request leaves the rate
  of the client between half a request per second and the initial rate, provided the initial rate is at least that.
\<close>

theorem adaptive_rate_bounded:
  assumes "adaptive r c" "rest_do lib merr net verb path data c w = (x, c', w')"
  shows "adaptive r c' \<and> 1 / 2 \<le> rc_rate c' \<and> rc_rate c' \<le> rc_initial c'"
proof -
  have "adaptive r c'" using assms by (auto simp: rest_do_def dest: adaptive_loop split: sum.splits option.splits)
  then show ?thesis by (simp add: adaptive_def)
qed

theorem adaptive_rate_bounded_witness:
  "adaptive 2 (fst (snd (rest_do int_lib (\<lambda>_. NewError ''json'') (script_network busy_then_ok) ''GET'' ''/x'' None
      (NewRESTClient ''http://h/'' [WithAdaptiveRateLimit 2]) 0)))"
proof -
  let ?c = "NewRESTClient ''http://h/'' [WithAdaptiveRateLimit 2] :: nat rest_client"
  have a: "adaptive 2 ?c" by (simp add: NewRESTClient_def adaptive_start)
  obtain x c' w' where "rest_do int_lib (\<lambda>_. NewError ''json'') (script_network busy_then_ok) ''GET'' ''/x'' None ?c 0 = (x, c', w')"
    by (metis prod.collapse)
  with adaptive_rate_bounded [OF a this] show ?thesis by simp
qed

text \<open>
  Below that floor the limiter does the opposite of what it is for: a client configured with a rate below half a
  request per second goes faster after a 429.
\<close>

theorem slow_client_speeds_up:
  assumes "0 < r" "r < 1 / 2"
  shows "rc_rate (adaptiveDecrease (WithAdaptiveRateLimit r c)) = 1 / 2 \<and> rc_rate (WithAdaptiveRateLimit r c) < 1 / 2"
  using assms by (simp add: adaptiveDecrease_def WithAdaptiveRateLimit_def Let_def)

theorem slow_client_speeds_up_witness:
  "rc_rate (adaptiveDecrease (WithAdaptiveRateLimit (1 / 10) (NewRESTClient ''http://h'' [] :: nat rest_client))) = 1 / 2"
proof -
  have r: "0 < (1 / 10 :: rat)" "(1 / 10 :: rat) < 1 / 2" by simp_all
  show ?thesis using slow_client_speeds_up [OF r, of "NewRESTClient ''http://h'' []"] by (rule conjunct1)
qed

section \<open>Properties: pages\<close>


















definition tildes :: "string \<Rightarrow> string" where
  "tildes s = map (\<lambda>c. if c = CHR ''~'' then CHR 0x22 else c) s"

definition two_pages :: "string \<Rightarrow> string" where
  "two_pages url = (if url = ''http://h/i?12'' then tildes ''{~r~:[1,2]}'' else if url = ''http://h/i?22'' then tildes ''{~r~:[3]}'' else [])"

definition page_network :: "unit network" where
  "page_network = \<lparr>nt_request_error = (\<lambda>_ _. None), nt_send = (\<lambda>req w. (reply 200 (two_pages (rq_url req)), w)), nt_wait = (\<lambda>d w. (None, w)),
     nt_done = (\<lambda>w. (None, w)), nt_now = (\<lambda>w. (0, w)), nt_sleep = (\<lambda>d w. w), nt_duration = floor, nt_http_time = (\<lambda>_. None)\<rparr>"

definition int_pages :: "int page_lib" where
  "int_pages = \<lparr>pg_lib = int_lib, with_query = (\<lambda>base ps. Some (base @ ''?'' @ concat (map snd ps))), whole_text = show_int\<rparr>"

definition item_pages :: offset_paginator where
  "item_pages = \<lparr>op_base = ''/i'', op_page_param = ''page'', op_limit_param = ''limit'', op_size = 2, op_results = ''r'',
     op_use_offset = False, op_page = 0, op_offset = 0, op_started = False\<rparr>"




text \<open>
  Without the name of a results field, only the first page of an offset paginator is ever fetched: the count of a body is then 0,
  although the comment of the field says that an empty name counts the items of a root array.
\<close>

theorem unnamed_results_one_page:
  assumes "op_results p = []" "0 < op_size p" "op_started p"
  shows "offset_NextPage pl b p = (([], False), p)"
  using assms by (simp add: offset_NextPage_def countResults_def)

theorem unnamed_results_one_page_witness:
  "offset_NextPage int_pages [(''r'', VArray [VFloat 1, VFloat 2])] (item_pages\<lparr>op_results := [], op_started := True\<rparr>)
    = (([], False), item_pages\<lparr>op_results := [], op_started := True\<rparr>)"
proof -
  let ?p = "item_pages\<lparr>op_results := [], op_started := True\<rparr>"
  have "op_results ?p = []" "0 < op_size ?p" "op_started ?p" by (simp_all add: item_pages_def)
  then show ?thesis by (rule unnamed_results_one_page)
qed

text \<open>
  A cursor of JSON null, by which many services end their pages, does not end them here: it is turned into the text
  \<open><nil>\<close>, and this is the cursor the next page is asked for with.
\<close>

theorem null_cursor_goes_on:
  assumes "cp_started p" "cp_has_more p = []" "go_split (cp_field p) ''.'' = [f]" "map_of b f = Some VNil"
  shows "cursor_NextPage pl b p = ((cursor_buildURL pl p ''<nil>'', True), p)"
  using assms by (simp add: cursor_NextPage_def extractNestedString_def Let_def)

theorem null_cursor_goes_on_witness:
  "cursor_NextPage int_pages [(''next'', VNil)] \<lparr>cp_base = ''/i'', cp_param = ''cursor'', cp_field = ''next'', cp_limit_param = [],
      cp_size = 0, cp_has_more = [], cp_started = True\<rparr>
    = ((''/i?<nil>'', True), \<lparr>cp_base = ''/i'', cp_param = ''cursor'', cp_field = ''next'', cp_limit_param = [],
      cp_size = 0, cp_has_more = [], cp_started = True\<rparr>)"
proof -
  let ?p = "\<lparr>cp_base = ''/i'', cp_param = ''cursor'', cp_field = ''next'', cp_limit_param = [], cp_size = 0, cp_has_more = [], cp_started = True\<rparr>"
  have p: "cp_started ?p" "cp_has_more ?p = []" "map_of [(''next'', VNil :: int go_value)] ''next'' = Some VNil" by simp_all
  have "go_split (cp_field ?p) ''.'' = [''next'']" by code_simp
  from null_cursor_goes_on [OF p(1,2) this p(3), of int_pages] show ?thesis
    by (simp add: cursor_buildURL_def int_pages_def)
qed

text \<open>
  The URL of a next page on another host is not used as it is: it is appended to the base URL of the client, although
  the comment says that the full URL is taken.
\<close>

theorem foreign_page_url_is_appended:
  assumes "has_prefix ''https://'' url" "\<not> has_prefix (rc_base c) url"
  shows "rest_Get lib merr net (page_path (rc_base c) url) c w
    = attempts_loop lib net ''GET'' (rc_base c @ url) None (size_limit c) (nat (rc_maxRetries c + 1)) 0 None c w"
  using assms by (simp add: page_path_def trim_prefix_def rest_Get_def rest_do_def size_limit_def)

theorem foreign_page_url_is_appended_witness:
  "rest_Get int_lib (\<lambda>_. NewError ''json'') page_network (page_path ''http://h'' ''https://g/x'') (NewRESTClient ''http://h/'' []) ()
    = attempts_loop int_lib page_network ''GET'' ''http://hhttps://g/x'' None 52428800 4 0 None (NewRESTClient ''http://h/'' []) ()"
proof -
  let ?c = "NewRESTClient ''http://h/'' [] :: unit rest_client"
  have c: "has_prefix ''https://'' ''https://g/x''" "\<not> has_prefix (rc_base ?c) ''https://g/x''" by code_simp+
  have d: "rc_base ?c = ''http://h''" by code_simp
  have e: "size_limit ?c = 52428800" "nat (rc_maxRetries ?c + 1) = 4"
    by (simp_all add: NewRESTClient_def size_limit_def defaultMaxResponseSize_def)
  from foreign_page_url_is_appended [OF c, of int_lib "\<lambda>_. NewError ''json''" page_network "()"]
  show ?thesis unfolding d e by simp
qed

end
