(* ===== verification/Spec2Isabelle.thy ===== *)
theory Spec2Isabelle
  imports Partitioner Supervisor Rbac SchemaManager Orchestrator Expression TransformWorker Coerce MapperSpec Arrow Scheduler Secrets RestPages
begin

text \<open>
  A verification development of FlowForge, a platform that moves records from source to destination
  connectors (extract, transform, load) under Temporal workflows.

  The parts and how they interact. The control plane (schema manager, role-based access control)
  decides what is synced and who may do it. A sync is the workflow \<open>SyncOrchestrator\<close>, which runs
  \<open>ExtractWorkflow\<close>, \<open>TransformWorkflow\<close> and \<open>LoadWorkflow\<close> as child workflows and reacts to
  signals between them. The child workflows run activities, and these call connectors through the
  process-wide registry. The workers in \<open>internal/worker\<close> are the same three phases outside Temporal:
  a partitioner, a deduplicator and a mapper, a batcher and a load worker, on supervised worker pools.

  The theories, with the files under src/ they model:
  \<^item> \<open>Prelude\<close>: \<open>int64\<close> wrap-around, decimal numbers, slices; the locales \<open>chunked\<close> (a list cut into
    non-empty bounded pieces), \<open>tiling\<close> (an interval cut into pieces) and \<open>step_invariant\<close>.
  \<^item> \<open>Errors\<close> (internal/common/errors.go), \<open>Protocol\<close> (pkg/protocol/protocol.go,
    internal/orchestration/types/types.go), \<open>Registry\<close> (pkg/cdk/registry.go), \<open>Json\<close> (the parts of
    encoding/json that the program calls: a parser and a printer on bytes).
  \<^item> \<open>Partitioner\<close> (internal/worker/extract/partitioner.go), \<open>Dedup\<close> and \<open>Batcher\<close>, \<open>LoadWorker\<close>
    (internal/worker/transform/dedup.go, internal/worker/load/batcher.go and worker.go).
  \<^item> \<open>Pool\<close> and \<open>Supervisor\<close> (internal/worker/pool): the pool is a transition system whose steps are
    the atomic actions of submitters, workers and \<open>Shutdown\<close>.
  \<^item> \<open>Values\<close> and \<open>Expression\<close> (internal/mapping/expression/engine.go): the values of \<open>interface{}\<close>,
    then the tokenizer, the parser that evaluates while it parses, and the built-in functions.
  \<^item> \<open>Objects\<close>, \<open>Coercer\<close>, \<open>Mapper\<close> (internal/worker/transform/coercer.go and mapper.go): Go's maps are
    references, so they live in a heap. \<open>MapperRename\<close> shows that addresses do not matter, \<open>MapperSpec\<close>
    refines the mapper to a specification on trees, and says when it does not apply.
  \<^item> \<open>Arrow\<close> (pkg/arrow/buffer.go) and \<open>TransformWorker\<close> (internal/worker/transform/worker.go): batches
    of columns, and the goroutines of the worker under a schedule of their steps.
  \<^item> \<open>Extract\<close>, \<open>Transform\<close>, \<open>Coerce\<close>, \<open>LoadFlow\<close> and \<open>Orchestrator\<close> (internal/orchestration: the activities,
    workflows and signals).
  \<^item> \<open>Calendar\<close> (package time: dates, zones, \<open>time.Date\<close>) and \<open>Scheduler\<close>
    (internal/controlplane/scheduler/scheduler.go): cron expressions, the next matching time, due syncs.
  \<^item> \<open>Encryption\<close> (internal/security/encryption: encryptor and keyring) and \<open>Secrets\<close>
    (internal/security/secrets: encrypted files and Vault); ciphers, files and Vault are arguments.
  \<^item> \<open>Pagination\<close>, \<open>RestClient\<close> (connectors/common: paginators and the HTTP client) and \<open>RestPages\<close>, what
    they promise: retries, the adaptive rate, complete page loops; the network is an argument.
  \<^item> \<open>Rbac\<close> (internal/security/rbac), \<open>SchemaManager\<close> (internal/controlplane/schema/manager.go).

  How state and operations correspond. A Go struct is a record, an enumeration a datatype, a map a
  partial function or an association list in key order, \<open>int\<close> and \<open>int64\<close> are integers with
  \<open>wrap64\<close> at the operations that can overflow, \<open>uint64\<close> is a 64-bit word, a string the list of
  its bytes, an error a value of \<open>go_error\<close>, and a fallible operation returns a sum. A method that
  changes its receiver returns it; a connector, a repository, the clock and the outcome of an
  activity are arguments that act on a state \<open>'w\<close> of their own. A panic is the value \<open>None\<close> or, in
  an activity, the error that the Temporal worker makes of it. Mutexes make an operation atomic.

  What the lemmas show: conservation (no record lost, duplicated or reordered on its way through the
  batcher, the load worker, the pool, the transform and load workflows), exact covers (every
  partitioner), exact and probabilistic deduplication against a set, retry and error outcomes, state
  invariants of the pool, permission checks against their specification, schema comparison, the
  outcomes of a sync. Where the code departs from what its comments say, a theorem states what it does.

  Bounds and termination. Every function is total but the loop of \<open>extractSequential\<close>, which is a
  \<open>partial_function\<close> over \<open>option\<close>: it is proved to return for a paging source and not to return for a
  source without a cursor. The JSON parser recurses on the depth Go allows (10000), which bounds it
  as the library does. The expression parser has fuel, one unit more than there are tokens, which is
  proved to be enough for every input. The cron search has the bound on its iterations that the code has. Reading a heap back stops at a map that contains itself.

  A \<open>float64\<close> is an element of a type parameter with the operations of a record (\<open>go_lib\<close>), which also
  holds the layouts of package time and the compiler of package regexp. Functions on letters, digits
  and white space are Go's on ASCII texts.

  Not modelled: see the list of components of the manifest. Mostly I/O: API servers, storage,
  the connectors of particular services, transports, observability, commands. Log output, heartbeats
  and metrics are left out of the modelled functions.
\<close>

section \<open>A whole sync\<close>











end
